(* ===== verification/Dote_Prelude.thy ===== *)
theory Dote_Prelude
  imports Main "HOL-Library.Word" "HOL-Library.Monad_Syntax" "HOL-Library.Multiset"
begin

text \<open>
  What every component of the development shares: bytes and 16-bit words in network order, checked
  access to a byte vector, \<open>std::copy\<close> inside a vector, and \<open>std::map\<close> as an
  association list kept sorted by key (the event loop iterates its maps in key order).

  A C++ operation that is undefined when it leaves the vector returns \<open>None\<close>; a defined one
  returns \<open>Some\<close>.  Iterators are indices into the vector.  Differences of iterators are
  \<open>ptrdiff_t\<close>, modelled by \<open>int\<close>; where the code compares one with a \<open>size_t\<close> the
  conversion to 64 bits is written out.
\<close>

named_theorems vec_simps \<open>evaluation of reads, writes and copies inside a byte vector\<close>
named_theorems map_simps \<open>look-ups in a std::map after an update\<close>

subsection \<open>Bytes and unsigned shorts\<close>

type_synonym byte = "8 word"
type_synonym u16 = "16 word"
type_synonym bytes = "byte list"

text \<open>\<open>ntohs\<close> applied to two adjacent bytes, and the two bytes \<open>htons\<close> stores.\<close>

definition be16 :: "byte \<Rightarrow> byte \<Rightarrow> u16" where
  "be16 hi lo = of_nat (256 * unat hi + unat lo)"

definition hi8 :: "u16 \<Rightarrow> byte" where
  "hi8 w = of_nat (unat w div 256)"

definition lo8 :: "u16 \<Rightarrow> byte" where
  "lo8 w = of_nat (unat w mod 256)"

lemma unat_byte_less [simp]: "unat (b :: byte) < 256"
  using unsigned_less [of b, where ?'a = nat] by simp

lemma unat_u16_less [simp]: "unat (w :: u16) < 65536"
  using unsigned_less [of w, where ?'a = nat] by simp

lemma unat_be16: "unat (be16 hi lo) = 256 * unat hi + unat lo"
proof -
  have "256 * unat hi + unat lo < 65536"
    using unat_byte_less [of hi] unat_byte_less [of lo] by linarith
  then show ?thesis
    by (simp add: be16_def unat_of_nat del: of_nat_add of_nat_mult)
qed

lemma unat_hi8: "unat (hi8 w) = unat w div 256"
proof -
  have "unat w div 256 < 256"
    using unat_u16_less [of w] by linarith
  then show ?thesis by (simp add: hi8_def unat_of_nat)
qed

lemma unat_lo8: "unat (lo8 w) = unat w mod 256"
  by (simp add: lo8_def unat_of_nat)

lemma be16_hi8_lo8 [simp]: "be16 (hi8 w) (lo8 w) = w"
  by (simp add: word_unat_eq_iff unat_be16 unat_hi8 unat_lo8)

lemma hi8_be16 [simp]: "hi8 (be16 a b) = a"
proof -
  have "(256 * unat a + unat b) div 256 = unat a"
    using unat_byte_less [of b] by linarith
  then show ?thesis by (simp add: word_unat_eq_iff unat_hi8 unat_be16)
qed

lemma lo8_be16 [simp]: "lo8 (be16 a b) = b"
proof -
  have "(256 * unat a + unat b) mod 256 = unat b"
    by (simp only: mod_mult_self4 mod_less unat_byte_less)
  then show ?thesis by (simp add: word_unat_eq_iff unat_lo8 unat_be16)
qed

lemma unat_of_nat_u16: "n < 65536 \<Longrightarrow> unat (of_nat n :: u16) = n"
  by (simp add: unat_of_nat)

lemma unat_sub_u16: "unat (b :: u16) \<le> unat a \<Longrightarrow> unat (a - b) = unat a - unat b"
  by (simp add: unat_sub word_le_nat_alt)

subsection \<open>The 64-bit view of a pointer difference\<close>

text \<open>The value a \<open>ptrdiff_t\<close> has once the usual arithmetic conversions made it a \<open>size_t\<close>.\<close>

definition to_size_t :: "int \<Rightarrow> int" where
  "to_size_t d = d mod 2 ^ 64"

lemma to_size_t_nonneg: "0 \<le> d \<Longrightarrow> d < 2 ^ 64 \<Longrightarrow> to_size_t d = d"
  by (simp add: to_size_t_def)

lemma to_size_t_diff: "i \<le> n \<Longrightarrow> n < 2 ^ 64 \<Longrightarrow> to_size_t (int n - int i) = int n - int i"
  by (rule to_size_t_nonneg) auto

lemma mod_wrap_neg:
  fixes d m :: int
  assumes "- m \<le> d" and "d < 0" shows "d mod m = m + d"
proof -
  have "d mod m = (m + d) mod m" by simp
  also have "\<dots> = m + d" using assms by (intro mod_pos_pos_trivial) auto
  finally show ?thesis .
qed

lemma to_size_t_neg: "- (2 ^ 64) \<le> d \<Longrightarrow> d < 0 \<Longrightarrow> to_size_t d = 2 ^ 64 + d"
  by (simp add: to_size_t_def mod_wrap_neg)

subsection \<open>Vectors of bytes\<close>

text \<open>\<open>rd\<close> dereferences an iterator.  \<open>std_copy p f l d\<close> is \<open>std::copy(f, l, d)\<close>
  with all three iterators in the same vector and \<open>d\<close> not after \<open>f\<close>: it overwrites
  \<open>l - f\<close> bytes from \<open>d\<close> on and is undefined when \<open>[f, l)\<close> is not a
  range of the vector.\<close>

definition rd :: "bytes \<Rightarrow> nat \<Rightarrow> byte option" where
  "rd p i = (if i < length p then Some (p ! i) else None)"

definition std_copy :: "bytes \<Rightarrow> nat \<Rightarrow> nat \<Rightarrow> nat \<Rightarrow> bytes option" where
  "std_copy p f l d =
     (if f \<le> l \<and> l \<le> length p \<and> d \<le> f
      then Some (take d p @ take (l - f) (drop f p) @ drop (d + (l - f)) p)
      else None)"

lemma rd_Some [vec_simps]: "i < length p \<Longrightarrow> rd p i = Some (p ! i)"
  by (simp add: rd_def)

lemma rd_None [vec_simps]: "length p \<le> i \<Longrightarrow> rd p i = None"
  by (simp add: rd_def)

lemma rd_eq_Some_iff: "rd p i = Some b \<longleftrightarrow> i < length p \<and> p ! i = b"
  by (auto simp: rd_def)

lemma std_copy_length: "std_copy p f l d = Some p' \<Longrightarrow> length p' = length p"
  by (auto simp: std_copy_def split: if_splits)

lemma std_copy_defined:
  "std_copy p f l d = Some p' \<Longrightarrow> f \<le> l \<and> l \<le> length p \<and> d \<le> f"
  by (auto simp: std_copy_def split: if_splits)

lemma std_copy_below: "std_copy p f l d = Some p' \<Longrightarrow> i < d \<Longrightarrow> p' ! i = p ! i"
  by (auto simp: std_copy_def nth_append split: if_splits)

lemma std_copy_take: "std_copy p f l d = Some p' \<Longrightarrow> n \<le> d \<Longrightarrow> take n p' = take n p"
  by (auto simp: std_copy_def min_def split: if_splits)

lemma std_copy_drop: "std_copy p f l d = Some p' \<Longrightarrow> l \<le> n \<Longrightarrow> drop n p' = drop n p"
  by (auto simp: std_copy_def split: if_splits)

text \<open>Two vectors that agree on a prefix (a suffix) agree on a shorter one.\<close>

lemma take_agree: "take m xs = take m ys \<Longrightarrow> n \<le> m \<Longrightarrow> take n xs = take n ys"
  by (metis min.absorb1 take_take)

lemma drop_agree: "drop m xs = drop m ys \<Longrightarrow> m \<le> n \<Longrightarrow> drop n xs = drop n ys"
  by (metis drop_drop le_add_diff_inverse2)

lemma nth_agree: "take m xs = take m ys \<Longrightarrow> i < m \<Longrightarrow> xs ! i = ys ! i"
  by (metis nth_take)

lemma take_drop_gap: "take (length q) (q @ z) @ drop (length q + d) (q @ z) = q @ drop d z"
  by simp

text \<open>A copy that closes a gap \<open>a\<close> in front of a block \<open>b\<close> leaves the block shifted to the
  front and the last bytes of the old contents behind it.\<close>

lemma std_copy_middle [vec_simps]:
  "std_copy (pre @ a @ b @ post) (length pre + length a) (length pre + length a + length b) (length pre)
   = Some (pre @ b @ drop (length b) (a @ b) @ post)"
  by (simp add: std_copy_def add.commute)

end
