(* ===== verification/Dns_Packet.thy ===== *)
theory Dns_Packet
  imports Dote_Prelude
begin

unbundle bit_operations_syntax

text \<open>
  \<open>src/src/dns_packet.cpp\<close>: the wrapper that checks a DNS message in TCP framing and strips the
  EDNS padding option from it before the answer goes back over UDP.

  The vector \<open>m_packet\<close> is a \<open>bytes\<close> value passed through the operations; iterators are
  indices.  \<open>None\<close> is undefined behaviour: a dereference at or past \<open>end()\<close>, or a
  \<open>std::copy\<close> whose source is not a range.  The sizes are those of an LP64 target (32-bit
  \<open>unsigned int\<close>, 64-bit \<open>size_t\<close> and \<open>ptrdiff_t\<close>).  Whether plain \<open>char\<close> is signed is
  the compiler's choice (signed on x86-64, unsigned on the ARM builds of the project), so the first
  argument \<open>sc\<close> says it.
\<close>

subsection \<open>The header\<close>

record DnsHeader =
  h_length :: u16
  h_id :: u16
  h_flags :: u16
  h_queries :: u16
  h_answers :: u16
  h_authorities :: u16
  h_additional :: u16

abbreviation (input) header_size :: nat where "header_size \<equiv> 14"

definition OPT :: u16 where "OPT = 41"

definition PADDING :: u16 where "PADDING = 12"

text \<open>\<open>nullptr\<close> is \<open>None\<close>.\<close>

definition getHeader :: "bytes \<Rightarrow> DnsHeader option" where
  "getHeader packet =
     (if length packet < header_size then None
      else
        let header = \<lparr>h_length = be16 (packet ! 0) (packet ! 1),
                      h_id = be16 (packet ! 2) (packet ! 3),
                      h_flags = be16 (packet ! 4) (packet ! 5),
                      h_queries = be16 (packet ! 6) (packet ! 7),
                      h_answers = be16 (packet ! 8) (packet ! 9),
                      h_authorities = be16 (packet ! 10) (packet ! 11),
                      h_additional = be16 (packet ! 12) (packet ! 13)\<rparr>
        in if unat (h_length header) \<noteq> length packet - 2 then None else Some header)"

subsection \<open>Skipping names and fixed-size fields\<close>

text \<open>A plain \<open>char\<close> promoted to \<open>int\<close>, and \<open>*current + 1u\<close> in \<open>unsigned int\<close>.\<close>

definition char_val :: "bool \<Rightarrow> byte \<Rightarrow> int" where
  "char_val sc b = (if sc then sint b else uint b)"

definition label_step :: "bool \<Rightarrow> byte \<Rightarrow> nat" where
  "label_step sc b = nat ((char_val sc b + 1) mod 2 ^ 32)"

definition is_pointer :: "byte \<Rightarrow> bool" where
  "is_pointer b \<longleftrightarrow> b AND 0xC0 = 0xC0"

lemma label_step_pos:
  assumes "\<not> is_pointer b" shows "0 < label_step sc b"
proof -
  have ff: "b \<noteq> 0xFF" using assms by (auto simp: is_pointer_def)
  have "sint b \<noteq> -1"
  proof
    assume "sint b = -1"
    then have "sint b = sint (0xFF :: byte)" by simp
    then have "b = 0xFF" by (rule signed_word_eqI)
    then show False using ff by simp
  qed
  moreover have "- 128 \<le> sint b" "sint b < 128"
    using sint_ge [of b] sint_lt [of b] by simp_all
  moreover have "0 \<le> uint b" "uint b < 256"
    using uint_lt2p [of b] by simp_all
  ultimately have "0 < (char_val sc b + 1) mod 2 ^ 32"
    by (cases sc; cases "sint b < -1") (simp_all add: char_val_def mod_pos_pos_trivial mod_wrap_neg)
  then show ?thesis by (simp add: label_step_def)
qed

function skipName :: "bool \<Rightarrow> bytes \<Rightarrow> nat \<Rightarrow> nat option" where
  "skipName sc p current =
     (if current = length p then Some current
      else case rd p current of
        None \<Rightarrow> None
      | Some b \<Rightarrow>
          if b = 0 then Some (current + 1)
          else if is_pointer b then Some (current + 2)
          else if int (length p) - int current > int (label_step sc b)
               then skipName sc p (current + label_step sc b)
          else skipName sc p (length p))"
  by pat_completeness auto
termination
proof (relation "measure (\<lambda>(sc, p, current). length p - current)", goal_cases)
  case 1
  then show ?case by simp
next
  case (2 sc p current b)
  then show ?case using label_step_pos [of b sc] by (auto simp: rd_eq_Some_iff)
next
  case (3 sc p current b)
  then show ?case by (auto simp: rd_eq_Some_iff)
qed

declare skipName.simps [simp del]

definition skipFixed :: "bytes \<Rightarrow> nat \<Rightarrow> nat \<Rightarrow> nat" where
  "skipFixed p current n =
     (if to_size_t (int (length p) - int current) > int n then current + n else length p)"

definition getShort :: "bytes \<Rightarrow> nat \<Rightarrow> u16 option" where
  "getShort p it = do { a \<leftarrow> rd p it; b \<leftarrow> rd p (it + 1); Some (be16 a b) }"

definition setShort :: "bytes \<Rightarrow> nat \<Rightarrow> u16 \<Rightarrow> bytes option" where
  "setShort p it value =
     (if it + 1 < length p then Some (p[it := hi8 value, it + 1 := lo8 value]) else None)"

fun skipQueries :: "bool \<Rightarrow> bytes \<Rightarrow> nat \<Rightarrow> nat \<Rightarrow> nat option" where
  "skipQueries sc p 0 it = Some it"
| "skipQueries sc p (Suc n) it =
     (if it = length p then Some it
      else do { it \<leftarrow> skipName sc p it;
                skipQueries sc p n (skipFixed p it 4) })"

fun skipResponses :: "bool \<Rightarrow> bytes \<Rightarrow> nat \<Rightarrow> nat \<Rightarrow> nat option" where
  "skipResponses sc p 0 it = Some it"
| "skipResponses sc p (Suc n) it =
     (if it = length p then Some it
      else do {
        it \<leftarrow> skipName sc p it;
        let it = skipFixed p it 8;
        if to_size_t (int (length p) - int it) \<ge> 2
        then do {
          len \<leftarrow> getShort p it;
          let it = it + 2;
          skipResponses sc p n
            (if int (length p) - int it \<ge> int (unat len) then it + unat len else length p)
        }
        else skipResponses sc p n (length p)
      })"

lemma getShort_eq_Some_iff:
  "getShort p i = Some w \<longleftrightarrow> i + 1 < length p \<and> w = be16 (p ! i) (p ! (i + 1))"
  by (auto simp: getShort_def rd_def bind_eq_Some_conv)

subsection \<open>Removing the padding option\<close>

text \<open>The loop over the options in \<open>[it, e)\<close>: the vector, and where \<open>it\<close> stops.\<close>

function removePadding_loop :: "bytes \<Rightarrow> nat \<Rightarrow> nat \<Rightarrow> (bytes \<times> nat) option" where
  "removePadding_loop p it e =
     (if it = e then Some (p, it)
      else do {
        optLength \<leftarrow> getShort p (it + 2);
        let fullLength = 4 + unat optLength;
        code \<leftarrow> getShort p it;
        if code = PADDING
        then do {
          p' \<leftarrow> std_copy p (it + fullLength) e it;
          removePadding_loop p' it (e - fullLength)
        }
        else removePadding_loop p (it + fullLength) e
      })"
  by pat_completeness auto

termination
proof (relation "measure (\<lambda>(p, it, e). (length p - it) + (e - it))", goal_cases)
  case 1
  then show ?case by simp
next
  case (2 p it e optLength fullLength code p')
  then show ?case
    using std_copy_defined [of p "it + fullLength" e it p'] std_copy_length [of p "it + fullLength" e it p']
    by (auto simp: getShort_eq_Some_iff)
next
  case (3 p it e optLength fullLength code)
  then show ?case by (auto simp: getShort_eq_Some_iff)
qed

declare removePadding_loop.simps [simp del]

definition removePaddingOption :: "bytes \<Rightarrow> nat \<Rightarrow> u16 \<Rightarrow> (bytes \<times> u16) option" where
  "removePaddingOption p begin len = do {
     (p', it) \<leftarrow> removePadding_loop p begin (begin + unat len);
     Some (p', of_nat (it - begin))
   }"

text \<open>The block of \<open>removeEdnsPadding\<close> that edits the packet, once the OPT record at \<open>it\<close> is known
  to fit: \<open>it + 9\<close> is its RDLENGTH, \<open>it + 11\<close> its first option.\<close>

definition stripOptions :: "bytes \<Rightarrow> nat \<Rightarrow> u16 \<Rightarrow> bytes option" where
  "stripOptions p it len = do {
     let dataLength = it + 9;
     let options = dataLength + 2;
     (p1, optionsLength) \<leftarrow> removePaddingOption p options len;
     p2 \<leftarrow> setShort p1 dataLength optionsLength;
     let diff = len - optionsLength;
     headerLength \<leftarrow> getShort p2 0;
     p3 \<leftarrow> setShort p2 0 (headerLength - diff);
     p4 \<leftarrow> std_copy p3 (options + unat diff) (length p3) options;
     Some (take (length p4 - unat diff) p4)
   }"

text \<open>\<open>*it != 0u || end - it < 11u || getShort(it + 1) != OPT\<close>, short-circuited.\<close>

definition notOpt :: "bytes \<Rightarrow> nat \<Rightarrow> bool option" where
  "notOpt p it = do {
     b \<leftarrow> rd p it;
     if b \<noteq> 0 \<or> int (length p) - int it < 11 then Some True
     else do { t \<leftarrow> getShort p (it + 1); Some (t \<noteq> OPT) }
   }"

fun ednsLoop :: "bool \<Rightarrow> bytes \<Rightarrow> nat \<Rightarrow> nat \<Rightarrow> (bool \<times> bytes) option" where
  "ednsLoop sc p 0 it = Some (False, p)"
| "ednsLoop sc p (Suc n) it =
     (if it = length p then Some (False, p)
      else do {
        skip \<leftarrow> notOpt p it;
        if skip then do { it \<leftarrow> skipResponses sc p 1 it; ednsLoop sc p n it }
        else do {
          len \<leftarrow> getShort p (it + 9);
          if int (length p) - int it \<ge> int (unat len) + 11
          then do { p' \<leftarrow> stripOptions p it len; Some (True, p') }
          else ednsLoop sc p n it
        }
      })"

definition removeEdnsPadding :: "bool \<Rightarrow> bytes \<Rightarrow> (bool \<times> bytes) option" where
  "removeEdnsPadding sc p =
     (case getHeader p of
        None \<Rightarrow> Some (False, p)
      | Some header \<Rightarrow> do {
          it \<leftarrow> skipQueries sc p (unat (h_queries header)) header_size;
          it \<leftarrow> skipResponses sc p (unat (h_answers header)) it;
          it \<leftarrow> skipResponses sc p (unat (h_authorities header)) it;
          ednsLoop sc p (unat (h_additional header)) it
        })"

subsection \<open>The rest of the interface\<close>

definition valid :: "bytes \<Rightarrow> bool" where
  "valid p \<longleftrightarrow> getHeader p \<noteq> None"

text \<open>\<open>data()\<close> is a pointer two bytes into the vector: the bytes from there on.\<close>

definition data :: "bytes \<Rightarrow> bytes" where
  "data p = drop 2 p"

definition packet_length :: "bytes \<Rightarrow> nat" where
  "packet_length p = (case getHeader p of None \<Rightarrow> 0 | Some header \<Rightarrow> unat (h_length header))"

subsection \<open>What the edit keeps\<close>

lemma valid_iff: "valid p \<longleftrightarrow> 14 \<le> length p \<and> unat (be16 (p ! 0) (p ! 1)) = length p - 2"
  by (auto simp: valid_def getHeader_def Let_def)

lemma packet_length_valid: "valid p \<Longrightarrow> packet_length p = length p - 2"
  by (auto simp: valid_def packet_length_def getHeader_def Let_def split: if_splits)

lemma setShort_Some:
  "setShort p i w = Some p' \<longleftrightarrow> i + 1 < length p \<and> p' = p[i := hi8 w, i + 1 := lo8 w]"
  by (auto simp: setShort_def)

text \<open>The loop, one lemma per way through its body.\<close>

lemma removePadding_loop_stop [simp]: "removePadding_loop p e e = Some (p, e)"
  by (subst removePadding_loop.simps) simp

lemma removePadding_loop_pad:
  "it \<noteq> e \<Longrightarrow> getShort p (it + 2) = Some w \<Longrightarrow> getShort p it = Some PADDING \<Longrightarrow>
   removePadding_loop p it e =
     Option.bind (std_copy p (it + (4 + unat w)) e it) (\<lambda>q. removePadding_loop q it (e - (4 + unat w)))"
  by (subst removePadding_loop.simps) (simp add: Let_def)

lemma removePadding_loop_keep:
  "it \<noteq> e \<Longrightarrow> getShort p (it + 2) = Some w \<Longrightarrow> getShort p it = Some c \<Longrightarrow> c \<noteq> PADDING \<Longrightarrow>
   removePadding_loop p it e = removePadding_loop p (it + (4 + unat w)) e"
  by (subst removePadding_loop.simps) simp

lemma removePadding_loop_oob:
  "it \<noteq> e \<Longrightarrow> getShort p (it + 2) = None \<or> getShort p it = None \<Longrightarrow> removePadding_loop p it e = None"
  by (subst removePadding_loop.simps) (cases "getShort p (it + 2)"; auto)

lemma removePadding_cases [case_names oob stop pad keep]:
  obtains "it \<noteq> e" "getShort p (it + 2) = None \<or> getShort p it = None"
  | "it = e"
  | w where "it \<noteq> e" "getShort p (it + 2) = Some w" "getShort p it = Some PADDING"
  | w c where "it \<noteq> e" "getShort p (it + 2) = Some w" "getShort p it = Some c" "c \<noteq> PADDING"
  by (metis not_None_eq)

text \<open>Once \<open>it\<close> has run past the end of the options the loop only ever stops outside the vector.\<close>

lemma removePadding_loop_overrun: "e < it \<Longrightarrow> removePadding_loop p it e = None"
proof (induction p it e rule: removePadding_loop.induct)
  case (1 p it e)
  show ?case
  proof (cases rule: removePadding_cases [where p = p and it = it and e = e])
    case (keep w c)
    then show ?thesis using "1.prems" "1.IH"(2) [OF keep(1,2) refl keep(3,4)]
      by (simp add: removePadding_loop_keep)
  qed (use "1.prems" in \<open>auto simp: removePadding_loop_oob removePadding_loop_pad std_copy_def\<close>)
qed

lemma removePadding_loop_frame:
  "removePadding_loop p it e = Some (p', it') \<Longrightarrow>
     length p' = length p \<and> take it p' = take it p \<and> drop e p' = drop e p \<and> it \<le> it' \<and> it' \<le> e"
proof (induction p it e rule: removePadding_loop.induct)
  case (1 p it e)
  show ?case
  proof (cases rule: removePadding_cases [where p = p and it = it and e = e])
    case (pad w)
    with "1.prems" obtain q where q: "std_copy p (it + (4 + unat w)) e it = Some q"
      and r: "removePadding_loop q it (e - (4 + unat w)) = Some (p', it')"
      by (auto simp: removePadding_loop_pad bind_eq_Some_conv)
    have ih: "length p' = length q" "take it p' = take it q"
        "drop (e - (4 + unat w)) p' = drop (e - (4 + unat w)) q" "it \<le> it'" "it' \<le> e - (4 + unat w)"
      using "1.IH"(1) [OF pad(1,2) refl pad(3) refl q r] by auto
    have "drop e p' = drop e q" by (rule drop_agree [OF ih(3)]) simp
    with ih show ?thesis
      using std_copy_length [OF q] std_copy_take [OF q, of it] std_copy_drop [OF q, of e] by auto
  next
    case (keep w c)
    with "1.prems" have r: "removePadding_loop p (it + (4 + unat w)) e = Some (p', it')"
      by (simp add: removePadding_loop_keep)
    note ih = "1.IH"(2) [OF keep(1,2) refl keep(3,4) r]
    then show ?thesis using take_agree [of "it + (4 + unat w)" p' p it] by auto
  qed (use "1.prems" in \<open>auto simp: removePadding_loop_oob\<close>)
qed

lemma removePaddingOption_frame:
  assumes "removePaddingOption p i w = Some (p', n)"
  shows "length p' = length p" "take i p' = take i p" "drop (i + unat w) p' = drop (i + unat w) p"
    and "unat n \<le> unat w"
proof -
  from assms obtain it where r: "removePadding_loop p i (i + unat w) = Some (p', it)"
    and n: "n = of_nat (it - i)"
    by (auto simp: removePaddingOption_def bind_eq_Some_conv)
  note fr = removePadding_loop_frame [OF r]
  then show "length p' = length p" "take i p' = take i p" "drop (i + unat w) p' = drop (i + unat w) p"
    by auto
  have "it - i \<le> unat w" using fr by auto
  moreover from this have "it - i < 65536" using unat_u16_less [of w] by linarith
  ultimately show "unat n \<le> unat w" by (simp add: n unat_of_nat_u16)
qed

text \<open>The two writes of \<open>stripOptions\<close>, and the packet it leaves: the bytes in front of the first
  \<open>diff\<close> bytes of the options, then the bytes behind them.\<close>

definition patched :: "bytes \<Rightarrow> nat \<Rightarrow> u16 \<Rightarrow> u16 \<Rightarrow> bytes" where
  "patched p1 it n h =
     p1[it + 9 := hi8 n, it + 10 := lo8 n, 0 := hi8 h, 1 := lo8 h]"

lemma length_patched [simp]: "length (patched p1 it n h) = length p1"
  by (simp add: patched_def)

lemma patched_nth:
  "1 < length p1 \<Longrightarrow> patched p1 it n h ! 0 = hi8 h"
  "1 < length p1 \<Longrightarrow> patched p1 it n h ! Suc 0 = lo8 h"
  "2 \<le> i \<Longrightarrow> i < it + 9 \<Longrightarrow> patched p1 it n h ! i = p1 ! i"
  by (auto simp: patched_def simp del: length_greater_0_conv intro!: nth_list_update_eq)

lemma std_copy_to_end:
  assumes "d \<le> f" "f \<le> length p"
  shows "std_copy p f (length p) d = Some (take d p @ drop f p @ drop (d + (length p - f)) p)"
  using assms by (simp add: std_copy_def)

lemma stripOptions_eq:
  assumes it: "14 \<le> it" and fit: "it + 11 + unat len \<le> length p"
    and r: "removePaddingOption p (it + 11) len = Some (p1, n)"
  defines "p3 \<equiv> patched p1 it n (be16 (p ! 0) (p ! 1) - (len - n))"
  shows "stripOptions p it len =
    Some (take (it + 11) p3 @ drop (it + 11 + (unat len - unat n)) p3)"
proof -
  note fr = removePaddingOption_frame [OF r]
  let ?p2 = "p1[it + 9 := hi8 n, it + 10 := lo8 n]"
  let ?h = "be16 (p ! 0) (p ! 1) - (len - n)"
  have p01: "p1 ! 0 = p ! 0" "p1 ! 1 = p ! 1"
    using it by (auto intro: nth_agree [OF fr(2)])
  have s2: "setShort p1 (it + 9) n = Some ?p2"
    using fit fr(1) by (simp add: setShort_def add.commute)
  have g: "getShort ?p2 0 = Some (be16 (p ! 0) (p ! 1))"
    using fit it fr(1) by (simp add: getShort_eq_Some_iff p01 [simplified])
  have s3: "setShort ?p2 0 ?h = Some p3"
    using fit fr(1) by (simp add: setShort_def p3_def patched_def)
  have diff: "unat (len - n) = unat len - unat n" using fr(4) by (rule unat_sub_u16)
  have fit': "it + 11 + (unat len - unat n) \<le> length p3"
    using fit by (simp add: p3_def fr(1))
  have "stripOptions p it len =
      Option.bind (std_copy p3 (it + 11 + (unat len - unat n)) (length p3) (it + 11))
        (\<lambda>p4. Some (take (length p4 - (unat len - unat n)) p4))"
    using s2 g s3 r by (simp add: stripOptions_def Let_def diff ac_simps)
  with fit' show ?thesis by (simp add: std_copy_to_end)
qed

lemma stripOptions_Some:
  assumes v: "valid p" and it: "14 \<le> it" and fit: "it + 11 + unat len \<le> length p"
    and s: "stripOptions p it len = Some p'"
  shows "valid p' \<and> length p' \<le> length p \<and> length p \<le> length p' + unat len
    \<and> (\<forall>i. 2 \<le> i \<longrightarrow> i < it + 9 \<longrightarrow> p' ! i = p ! i)"
proof -
  from s obtain p1 n where r: "removePaddingOption p (it + 11) len = Some (p1, n)"
    by (auto simp: stripOptions_def Let_def bind_eq_Some_conv add.commute)
  note fr = removePaddingOption_frame [OF r]
  let ?h = "be16 (p ! 0) (p ! Suc 0)" and ?d = "unat len - unat n"
  define p3 where "p3 = patched p1 it n (?h - (len - n))"
  have p': "p' = take (it + 11) p3 @ drop (it + 11 + ?d) p3"
    using stripOptions_eq [OF it fit r] s by (simp add: p3_def)
  have l3: "length p3 = length p" by (simp add: p3_def fr(1))
  have l': "length p' = length p - ?d" using fit fr(4) by (simp add: p' l3)
  have h: "unat ?h = length p - 2" using v by (simp add: valid_iff)
  have dd: "unat (len - n) = ?d" using fr(4) by (rule unat_sub_u16)
  have b: "be16 (p' ! 0) (p' ! Suc 0) = ?h - (len - n)"
    using it fit fr(1) by (simp add: p' nth_append l3 p3_def patched_nth)
  have "unat (?h - (len - n)) = unat ?h - ?d"
    using fit it by (subst unat_sub_u16) (auto simp: dd h)
  then have "valid p'" using fit it fr(4) by (auto simp: valid_iff b l' h)
  moreover have "p' ! i = p ! i" if "2 \<le> i" "i < it + 9" for i
    using that it fit fr(1) nth_agree [OF fr(2), of i]
    by (simp add: p' nth_append l3 p3_def patched_nth)
  ultimately show ?thesis using l' by simp
qed

text \<open>No iterator of the skipping functions moves in front of the header again.\<close>

lemma skipName_ge: "skipName sc p i = Some r \<Longrightarrow> k \<le> i \<Longrightarrow> k \<le> length p \<Longrightarrow> k \<le> r"
proof (induction sc p i rule: skipName.induct)
  case (1 sc p i)
  from "1.prems" show ?case
    by (subst (asm) skipName.simps) (auto split: option.splits if_splits intro: "1.IH" trans_le_add1)
qed

lemma skipFixed_ge: "k \<le> i \<Longrightarrow> k \<le> length p \<Longrightarrow> k \<le> skipFixed p i n"
  by (simp add: skipFixed_def)

lemma skipQueries_ge: "skipQueries sc p n i = Some r \<Longrightarrow> k \<le> i \<Longrightarrow> k \<le> length p \<Longrightarrow> k \<le> r"
proof (induction n arbitrary: i)
  case (Suc n)
  then show ?case
    by (auto simp: bind_eq_Some_conv split: if_splits dest!: skipName_ge intro: skipFixed_ge)
qed simp

lemma skipResponses_ge: "skipResponses sc p n i = Some r \<Longrightarrow> k \<le> i \<Longrightarrow> k \<le> length p \<Longrightarrow> k \<le> r"
proof (induction n arbitrary: i)
  case (Suc n)
  show ?case
  proof (cases "i = length p")
    case False
    with Suc.prems(1) obtain a where a: "skipName sc p i = Some a"
      by (auto simp: bind_eq_Some_conv)
    have b: "k \<le> skipFixed p a 8"
      using skipName_ge [OF a Suc.prems(2,3)] Suc.prems(3) by (rule skipFixed_ge)
    from False Suc.prems(1) a obtain j where "skipResponses sc p n j = Some r" "k \<le> j"
      using b Suc.prems(3)
      by (auto simp: Let_def bind_eq_Some_conv split: if_splits intro: le_trans)
    then show ?thesis using Suc.IH Suc.prems(3) by blast
  qed (use Suc.prems in auto)
qed simp

lemma ednsLoop_valid:
  "ednsLoop sc p n it = Some (b, p') \<Longrightarrow> valid p \<Longrightarrow> 14 \<le> it \<Longrightarrow>
     valid p' \<and> length p' \<le> length p \<and> (\<not> b \<longrightarrow> p' = p)
     \<and> (\<forall>i. 2 \<le> i \<longrightarrow> i < 14 \<longrightarrow> p' ! i = p ! i)"
proof (induction n arbitrary: it)
  case (Suc n)
  have "14 \<le> length p" using Suc.prems(2) by (simp add: valid_iff)
  show ?case
  proof (cases "it = length p")
    case False
    with Suc.prems(1) obtain skip where skip: "notOpt p it = Some skip"
      by (auto simp: bind_eq_Some_conv)
    show ?thesis
    proof (cases skip)
      case True
      with False skip Suc.prems(1) obtain j where
        "skipResponses sc p 1 it = Some j" "ednsLoop sc p n j = Some (b, p')"
        by (auto simp: bind_eq_Some_conv)
      with Suc.IH [of j] Suc.prems(2,3) \<open>14 \<le> length p\<close> show ?thesis
        by (blast intro: skipResponses_ge)
    next
      case opt: False
      with False skip Suc.prems(1) obtain len where len: "getShort p (it + 9) = Some len"
        by (auto simp: bind_eq_Some_conv)
      show ?thesis
      proof (cases "int (length p) - int it \<ge> int (unat len) + 11")
        case True
        with False skip opt len Suc.prems(1) have "b" "stripOptions p it len = Some p'"
          by (auto simp: bind_eq_Some_conv)
        with stripOptions_Some [OF Suc.prems(2,3), of len p'] True Suc.prems(3) show ?thesis
          by auto
      next
        case no: False
        with False skip opt len Suc.prems(1) have "ednsLoop sc p n it = Some (b, p')"
          by auto
        with Suc show ?thesis by blast
      qed
    qed
  qed (use Suc.prems in auto)
qed auto

lemma removeEdnsPadding_frame:
  assumes "removeEdnsPadding sc p = Some (b, p')"
  shows "(valid p \<longrightarrow> valid p') \<and> length p' \<le> length p \<and> (\<not> b \<longrightarrow> p' = p)
    \<and> (\<forall>i. 2 \<le> i \<longrightarrow> i < 14 \<longrightarrow> p' ! i = p ! i)"
proof (cases "getHeader p")
  case None
  with assms show ?thesis by (simp add: removeEdnsPadding_def)
next
  case (Some h)
  then have v: "valid p" by (simp add: valid_def)
  then have l: "14 \<le> length p" by (simp add: valid_iff)
  from assms Some obtain i1 i2 i3 where
    "skipQueries sc p (unat (h_queries h)) 14 = Some i1"
    "skipResponses sc p (unat (h_answers h)) i1 = Some i2"
    "skipResponses sc p (unat (h_authorities h)) i2 = Some i3"
    and e: "ednsLoop sc p (unat (h_additional h)) i3 = Some (b, p')"
    by (auto simp: removeEdnsPadding_def bind_eq_Some_conv)
  with l have "14 \<le> i3"
    by (metis order_refl skipQueries_ge skipResponses_ge)
  with ednsLoop_valid [OF e v] show ?thesis by simp
qed

end
