(* ===== verification/Dns_Wire.thy ===== *)
theory Dns_Wire
  imports Dns_Packet
begin

text \<open>
  The wire format of a DNS message (RFC 1035 section 4, with EDNS options as in RFC 6891) as an
  encoder over abstract messages, and what the functions of \<open>Dns_Packet\<close> compute on an encoded
  message: the skipping functions land exactly behind the item they skip, no access leaves the
  vector, and \<open>removeEdnsPadding\<close> edits the one OPT record as stated by \<open>strip_rdata\<close>.
\<close>

subsection \<open>Names, records and messages\<close>

text \<open>A name is a sequence of labels closed by the root or by a compression pointer.\<close>

datatype dns_name = Name "bytes list" "(byte \<times> byte) option"

definition enc_label :: "bytes \<Rightarrow> bytes" where
  "enc_label l = of_nat (length l) # l"

fun enc_name :: "dns_name \<Rightarrow> bytes" where
  "enc_name (Name ls None) = concat (map enc_label ls) @ [0]"
| "enc_name (Name ls (Some (a, b))) = concat (map enc_label ls) @ [a, b]"

definition wf_label :: "bytes \<Rightarrow> bool" where
  "wf_label l \<longleftrightarrow> 1 \<le> length l \<and> length l \<le> 63"

fun wf_name :: "dns_name \<Rightarrow> bool" where
  "wf_name (Name ls None) \<longleftrightarrow> list_all wf_label ls"
| "wf_name (Name ls (Some (a, b))) \<longleftrightarrow> list_all wf_label ls \<and> is_pointer a"

definition short :: "u16 \<Rightarrow> bytes" where
  "short w = [hi8 w, lo8 w]"

record question =
  q_name :: dns_name
  q_fixed :: bytes

record resource =
  rr_name :: dns_name
  rr_type :: u16
  rr_fixed :: bytes
  rr_data :: bytes

definition enc_question :: "question \<Rightarrow> bytes" where
  "enc_question q = enc_name (q_name q) @ q_fixed q"

definition enc_rr :: "resource \<Rightarrow> bytes" where
  "enc_rr r = enc_name (rr_name r) @ short (rr_type r) @ rr_fixed r
     @ short (of_nat (length (rr_data r))) @ rr_data r"

definition wf_question :: "question \<Rightarrow> bool" where
  "wf_question q \<longleftrightarrow> wf_name (q_name q) \<and> length (q_fixed q) = 4"

definition wf_rr :: "resource \<Rightarrow> bool" where
  "wf_rr r \<longleftrightarrow> wf_name (rr_name r) \<and> length (rr_fixed r) = 6 \<and> length (rr_data r) < 65536"

definition is_opt :: "resource \<Rightarrow> bool" where
  "is_opt r \<longleftrightarrow> rr_name r = Name [] None \<and> rr_type r = OPT"

record message =
  m_id :: u16
  m_flags :: u16
  m_queries :: "question list"
  m_answers :: "resource list"
  m_authorities :: "resource list"
  m_additional :: "resource list"

definition enc_questions :: "question list \<Rightarrow> bytes" where
  "enc_questions qs = concat (map enc_question qs)"

definition enc_rrs :: "resource list \<Rightarrow> bytes" where
  "enc_rrs rs = concat (map enc_rr rs)"

definition enc_body :: "message \<Rightarrow> bytes" where
  "enc_body m = short (m_id m) @ short (m_flags m)
     @ short (of_nat (length (m_queries m))) @ short (of_nat (length (m_answers m)))
     @ short (of_nat (length (m_authorities m))) @ short (of_nat (length (m_additional m)))
     @ enc_questions (m_queries m) @ enc_rrs (m_answers m) @ enc_rrs (m_authorities m)
     @ enc_rrs (m_additional m)"

text \<open>The TCP framing: two bytes of length in front of the message.\<close>

definition frame :: "bytes \<Rightarrow> bytes" where
  "frame b = short (of_nat (length b)) @ b"

definition wf_message :: "message \<Rightarrow> bool" where
  "wf_message m \<longleftrightarrow>
     list_all wf_question (m_queries m) \<and> list_all wf_rr (m_answers m)
     \<and> list_all wf_rr (m_authorities m) \<and> list_all wf_rr (m_additional m)
     \<and> length (m_queries m) < 65536 \<and> length (m_answers m) < 65536
     \<and> length (m_authorities m) < 65536 \<and> length (m_additional m) < 65536
     \<and> length (enc_body m) < 65536"

lemma length_short [simp]: "length (short w) = 2"
  by (simp add: short_def)

lemma enc_questions_Cons [simp]: "enc_questions (q # qs) = enc_question q @ enc_questions qs"
  and enc_questions_Nil [simp]: "enc_questions [] = []"
  by (simp_all add: enc_questions_def)

lemma enc_rrs_simps [simp]:
  "enc_rrs [] = []" "enc_rrs (r # rs) = enc_rr r @ enc_rrs rs" "enc_rrs (rs @ rs') = enc_rrs rs @ enc_rrs rs'"
  by (simp_all add: enc_rrs_def)

subsection \<open>Skipping lands behind the item\<close>

lemma label_bytes:
  "list_all (\<lambda>n. let b = of_nat n :: byte in
      b \<noteq> 0 \<and> \<not> is_pointer b \<and> label_step True b = n + 1 \<and> label_step False b = n + 1) [1..<64]"
  by code_simp

lemma wf_label_byte:
  assumes "wf_label l"
  shows "(of_nat (length l) :: byte) \<noteq> 0" "\<not> is_pointer (of_nat (length l))"
    and "label_step sc (of_nat (length l)) = length l + 1"
proof -
  have "length l \<in> set [1..<64]" using assms by (auto simp: wf_label_def)
  with label_bytes show "(of_nat (length l) :: byte) \<noteq> 0" "\<not> is_pointer (of_nat (length l))"
    "label_step sc (of_nat (length l)) = length l + 1"
    by (cases sc; simp add: list_all_iff Let_def)+
qed

lemma enc_name_nonempty: "enc_name nm \<noteq> []"
  by (cases nm rule: enc_name.cases) auto

lemma skipName_label:
  assumes "wf_label l" and "s \<noteq> []"
  shows "skipName sc (pre @ enc_label l @ s) (length pre)
       = skipName sc ((pre @ enc_label l) @ s) (length (pre @ enc_label l))"
  using assms wf_label_byte [OF assms(1)]
  by (subst skipName.simps) (simp add: rd_def enc_label_def nth_append)

lemma skipName_labels:
  assumes "list_all wf_label ls" and "s \<noteq> []"
  shows "skipName sc (pre @ concat (map enc_label ls) @ s) (length pre)
       = skipName sc ((pre @ concat (map enc_label ls)) @ s) (length (pre @ concat (map enc_label ls)))"
  using assms(1)
proof (induction ls arbitrary: pre)
  case (Cons l ls)
  have "skipName sc (pre @ enc_label l @ concat (map enc_label ls) @ s) (length pre)
      = skipName sc ((pre @ enc_label l) @ concat (map enc_label ls) @ s) (length (pre @ enc_label l))"
    using Cons.prems assms(2) by (intro skipName_label) auto
  also have "\<dots> = skipName sc (((pre @ enc_label l) @ concat (map enc_label ls)) @ s)
      (length ((pre @ enc_label l) @ concat (map enc_label ls)))"
    using Cons.prems by (intro Cons.IH) simp
  finally show ?case by simp
qed simp

lemma skipName_enc:
  assumes "wf_name nm"
  shows "skipName sc (pre @ enc_name nm @ post) (length pre) = Some (length pre + length (enc_name nm))"
proof (cases nm rule: enc_name.cases)
  case (1 ls)
  have "skipName sc (pre @ concat (map enc_label ls) @ [0] @ post) (length pre)
      = skipName sc ((pre @ concat (map enc_label ls)) @ [0] @ post) (length (pre @ concat (map enc_label ls)))"
    using 1 assms by (intro skipName_labels) auto
  also have "\<dots> = Some (length (pre @ concat (map enc_label ls)) + 1)"
    by (subst skipName.simps) (simp add: rd_def nth_append)
  finally show ?thesis using 1 by simp
next
  case (2 ls a b)
  have a: "is_pointer a" "a \<noteq> 0" using 2 assms by (auto simp: is_pointer_def)
  have "skipName sc (pre @ concat (map enc_label ls) @ [a, b] @ post) (length pre)
      = skipName sc ((pre @ concat (map enc_label ls)) @ [a, b] @ post) (length (pre @ concat (map enc_label ls)))"
    using 2 assms by (intro skipName_labels) auto
  also have "\<dots> = Some (length (pre @ concat (map enc_label ls)) + 2)"
    using a by (subst skipName.simps) (simp add: rd_def nth_append)
  finally show ?thesis using 2 by simp
qed

lemma skipFixed_inside:
  "i + n \<le> length p \<Longrightarrow> length p < 2 ^ 64 \<Longrightarrow> skipFixed p i n = i + n"
  by (auto simp: skipFixed_def to_size_t_nonneg)

lemma skipQueries_enc:
  assumes "list_all wf_question qs" and "length (pre @ enc_questions qs @ post) < 2 ^ 64"
  shows "skipQueries sc (pre @ enc_questions qs @ post) (length qs) (length pre)
       = Some (length pre + length (enc_questions qs))"
  using assms
proof (induction qs arbitrary: pre)
  case (Cons q qs)
  let ?p = "pre @ enc_questions (q # qs) @ post"
  have n: "skipName sc ?p (length pre) = Some (length pre + length (enc_name (q_name q)))"
    using Cons.prems(1) by (simp add: enc_question_def skipName_enc wf_question_def)
  have f: "skipFixed ?p (length pre + length (enc_name (q_name q))) 4 = length (pre @ enc_question q)"
    using Cons.prems by (subst skipFixed_inside) (auto simp: enc_question_def wf_question_def)
  have "skipQueries sc ((pre @ enc_question q) @ enc_questions qs @ post) (length qs) (length (pre @ enc_question q))
      = Some (length (pre @ enc_question q) + length (enc_questions qs))"
    using Cons.prems by (intro Cons.IH) auto
  with n f enc_name_nonempty [of "q_name q"] show ?case by (simp add: enc_question_def)
qed simp

lemma getShort_at [vec_simps]:
  "i = length pre \<Longrightarrow> getShort (pre @ short w @ post) i = Some w"
  by (simp add: getShort_eq_Some_iff short_def nth_append)

lemma getShort_split:
  "p = pre @ short w @ post \<Longrightarrow> i = length pre \<Longrightarrow> getShort p i = Some w"
  by (simp add: getShort_at)

lemma skipResponses_unfold:
  assumes "i \<noteq> length p" "skipName sc p i = Some a" "skipFixed p a 8 = b"
    "2 \<le> to_size_t (int (length p) - int b)" "getShort p b = Some len"
    "int (unat len) \<le> int (length p) - int (b + 2)"
  shows "skipResponses sc p (Suc n) i = skipResponses sc p n (b + 2 + unat len)"
  using assms by (simp add: Let_def algebra_simps)

text \<open>One record: the name, eight bytes, the length of the data, the data.\<close>

lemma skipResponses_step:
  assumes "wf_rr r" and "length (pre @ enc_rr r @ post) < 2 ^ 64"
  shows "skipResponses sc (pre @ enc_rr r @ post) (Suc n) (length pre)
       = skipResponses sc (pre @ enc_rr r @ post) n (length (pre @ enc_rr r))"
proof -
  let ?p = "pre @ enc_rr r @ post"
  let ?nm = "enc_name (rr_name r)" and ?len = "of_nat (length (rr_data r)) :: u16"
  have wf: "wf_name (rr_name r)" "length (rr_fixed r) = 6" "length (rr_data r) < 65536"
    using assms(1) by (auto simp: wf_rr_def)
  have len: "unat ?len = length (rr_data r)" using wf(3) by (rule unat_of_nat_u16)
  have ne: "length pre \<noteq> length ?p" using enc_name_nonempty [of "rr_name r"] by (simp add: enc_rr_def)
  have n: "skipName sc ?p (length pre) = Some (length pre + length ?nm)"
    using wf(1) by (simp add: enc_rr_def skipName_enc)
  have f: "skipFixed ?p (length pre + length ?nm) 8 = length pre + length ?nm + 8"
    using assms(2) wf by (intro skipFixed_inside) (auto simp: enc_rr_def)
  have room: "int (length ?p) - int (length pre + length ?nm + 8) \<ge> 2"
    using wf by (simp add: enc_rr_def)
  then have sz: "to_size_t (int (length ?p) - int (length pre + length ?nm + 8)) \<ge> 2"
    using assms(2) by (subst to_size_t_diff) linarith+
  have g: "getShort ?p (length pre + length ?nm + 8) = Some ?len"
    by (rule getShort_split [where pre = "pre @ ?nm @ short (rr_type r) @ rr_fixed r"
          and post = "rr_data r @ post"]) (simp_all add: enc_rr_def wf)
  have d: "int (length ?p) - int (length pre + length ?nm + 8 + 2) \<ge> int (unat ?len)"
    using wf len by (simp add: enc_rr_def)
  have e: "length pre + length ?nm + 8 + 2 + unat ?len = length (pre @ enc_rr r)"
    using wf len by (simp add: enc_rr_def)
  show ?thesis
    using skipResponses_unfold [OF ne n f sz g d, of n] by (simp only: e)
qed

lemma skipResponses_enc:
  assumes "list_all wf_rr rs" and "length (pre @ enc_rrs rs @ post) < 2 ^ 64"
  shows "skipResponses sc (pre @ enc_rrs rs @ post) (length rs) (length pre)
       = Some (length pre + length (enc_rrs rs))"
  using assms
proof (induction rs arbitrary: pre)
  case (Cons r rs)
  have "skipResponses sc (pre @ enc_rr r @ enc_rrs rs @ post) (Suc (length rs)) (length pre)
      = skipResponses sc (pre @ enc_rr r @ enc_rrs rs @ post) (length rs) (length (pre @ enc_rr r))"
    using Cons.prems by (intro skipResponses_step) auto
  also have "\<dots> = skipResponses sc ((pre @ enc_rr r) @ enc_rrs rs @ post) (length rs) (length (pre @ enc_rr r))"
    by simp
  also have "\<dots> = Some (length (pre @ enc_rr r) + length (enc_rrs rs))"
    using Cons.prems by (intro Cons.IH) auto
  finally show ?case by simp
qed simp

subsection \<open>EDNS options\<close>

type_synonym edns_option = "u16 \<times> bytes"

definition enc_option :: "edns_option \<Rightarrow> bytes" where
  "enc_option opt = short (fst opt) @ short (of_nat (length (snd opt))) @ snd opt"

definition enc_options :: "edns_option list \<Rightarrow> bytes" where
  "enc_options os = concat (map enc_option os)"

definition is_padding :: "edns_option \<Rightarrow> bool" where
  "is_padding opt \<longleftrightarrow> fst opt = PADDING"

definition keep :: "edns_option list \<Rightarrow> edns_option list" where
  "keep os = filter (\<lambda>opt. \<not> is_padding opt) os"

definition wf_option :: "edns_option \<Rightarrow> bool" where
  "wf_option opt \<longleftrightarrow> length (snd opt) < 65536"

text \<open>The bytes that the copies of \<open>removePaddingOption\<close> leave behind the options it keeps.\<close>

fun residue :: "edns_option list \<Rightarrow> bytes" where
  "residue [] = []"
| "residue (opt # os) =
     (if is_padding opt
      then residue os @ drop (length (enc_options os)) (enc_option opt @ enc_options os)
      else residue os)"

lemma enc_options_simps [simp]:
  "enc_options [] = []" "enc_options (opt # os) = enc_option opt @ enc_options os"
  by (simp_all add: enc_options_def)

lemma keep_simps [simp]:
  "keep [] = []" "keep (opt # os) = (if is_padding opt then keep os else opt # keep os)"
  by (simp_all add: keep_def)

lemma length_enc_option [simp]: "length (enc_option opt) = 4 + length (snd opt)"
  by (simp add: enc_option_def)

lemma length_keep_residue:
  "length (enc_options (keep os)) + length (residue os) = length (enc_options os)"
  by (induction os) auto

lemma removePadding_loop_enc:
  assumes "list_all wf_option os"
  shows "removePadding_loop (pre @ enc_options os @ post) (length pre) (length pre + length (enc_options os))
       = Some (pre @ enc_options (keep os) @ residue os @ post, length pre + length (enc_options (keep os)))"
  using assms
proof (induction os arbitrary: pre post)
  case (Cons opt os)
  let ?p = "pre @ enc_options (opt # os) @ post"
  let ?e = "length pre + length (enc_options (opt # os))"
  let ?len = "of_nat (length (snd opt)) :: u16"
  have len: "unat ?len = length (snd opt)"
    using Cons.prems by (intro unat_of_nat_u16) (simp add: wf_option_def)
  have ne: "length pre \<noteq> ?e" by simp
  have g2: "getShort ?p (length pre + 2) = Some ?len"
    by (rule getShort_split [where pre = "pre @ short (fst opt)"
          and post = "snd opt @ enc_options os @ post"]) (simp_all add: enc_option_def)
  have g0: "getShort ?p (length pre) = Some (fst opt)"
    by (rule getShort_split [where pre = pre
          and post = "short ?len @ snd opt @ enc_options os @ post"]) (simp_all add: enc_option_def)
  show ?case
  proof (cases "is_padding opt")
    case True
    let ?gap = "drop (length (enc_options os)) (enc_option opt @ enc_options os)"
    have "std_copy ?p (length pre + length (enc_option opt))
        (length pre + length (enc_option opt) + length (enc_options os)) (length pre)
        = Some (pre @ enc_options os @ ?gap @ post)"
      using std_copy_middle [of pre "enc_option opt" "enc_options os" post] by simp
    then have "removePadding_loop ?p (length pre) ?e =
        removePadding_loop (pre @ enc_options os @ ?gap @ post) (length pre) (length pre + length (enc_options os))"
      using True removePadding_loop_pad [OF ne g2] g0 by (simp add: is_padding_def len add.assoc)
    with True Cons show ?thesis by simp
  next
    case False
    then have "removePadding_loop ?p (length pre) ?e =
        removePadding_loop ((pre @ enc_option opt) @ enc_options os @ post) (length (pre @ enc_option opt))
          (length (pre @ enc_option opt) + length (enc_options os))"
      using removePadding_loop_keep [OF ne g2 g0] by (simp add: is_padding_def len add.assoc)
    also have "\<dots> = Some ((pre @ enc_option opt) @ enc_options (keep os) @ residue os @ post,
        length (pre @ enc_option opt) + length (enc_options (keep os)))"
      using Cons.prems by (intro Cons.IH) simp
    finally show ?thesis using False by simp
  qed
qed simp

subsection \<open>The edit of one OPT record\<close>

text \<open>The data of the OPT record after the edit.  The code closes the gap by dropping the first
  \<open>diff\<close> bytes of the options, where the gap is behind the kept ones: the kept options survive
  only when the bytes happen to agree (\<open>strip_rdata_all_padding\<close>, \<open>strip_rdata_no_padding\<close>).\<close>

definition strip_rdata :: "edns_option list \<Rightarrow> bytes" where
  "strip_rdata os =
     drop (length (enc_options os) - length (enc_options (keep os))) (enc_options (keep os) @ residue os)"

lemma length_strip_rdata [simp]: "length (strip_rdata os) = length (enc_options (keep os))"
  using length_keep_residue [of os] by (simp add: strip_rdata_def)

lemma keep_all: "list_all is_padding os \<Longrightarrow> keep os = []"
  by (simp add: keep_def list_all_iff filter_empty_conv)

lemma keep_none: "list_all (\<lambda>opt. \<not> is_padding opt) os \<Longrightarrow> keep os = os \<and> residue os = []"
  by (induction os) auto

lemma strip_rdata_all_padding: "list_all is_padding os \<Longrightarrow> strip_rdata os = []"
  by (subst length_0_conv [symmetric], subst length_strip_rdata) (simp add: keep_all)

lemma strip_rdata_no_padding:
  "list_all (\<lambda>opt. \<not> is_padding opt) os \<Longrightarrow> strip_rdata os = enc_options os"
  by (simp add: strip_rdata_def keep_none)

lemma update_short:
  "i = length a \<Longrightarrow> (a @ short w @ b)[i := hi8 v, i + 1 := lo8 v] = a @ short v @ b"
  by (simp add: short_def list_update_append)

lemma stripOptions_enc:
  fixes r :: resource and os :: "edns_option list" and pre2 post :: bytes and H :: u16
  defines "pre \<equiv> short H @ pre2"
  defines "diff \<equiv> length (rr_data r) - length (strip_rdata os)"
  assumes r: "is_opt r" "wf_rr r" "rr_data r = enc_options os" "list_all wf_option os"
    and pre: "14 \<le> length pre"
  shows "stripOptions (pre @ enc_rr r @ post) (length pre) (of_nat (length (rr_data r)))
       = Some (short (H - of_nat diff) @ pre2 @ enc_rr (r\<lparr>rr_data := strip_rdata os\<rparr>) @ post)"
proof -
  let ?p = "pre @ enc_rr r @ post" and ?len = "of_nat (length (rr_data r)) :: u16"
  let ?k = "enc_options (keep os)" and ?n = "of_nat (length (enc_options (keep os))) :: u16"
  let ?hd = "[0] @ short OPT @ rr_fixed r"
  have nm: "rr_name r = Name [] None" "rr_type r = OPT" using r(1) by (simp_all add: is_opt_def)
  have wf: "length (rr_fixed r) = 6" "length (rr_data r) < 65536"
    using r(2) by (simp_all add: wf_rr_def)
  have len: "unat ?len = length (rr_data r)" using wf(2) by (rule unat_of_nat_u16)
  have kl: "length ?k \<le> length (rr_data r)" using length_keep_residue [of os] r(3) by simp
  have n: "unat ?n = length ?k" using kl wf(2) by (intro unat_of_nat_u16) simp
  define A where "A = pre @ ?hd @ short ?len"
  have p: "?p = A @ enc_options os @ post"
    by (simp add: A_def enc_rr_def nm r(3))
  have it: "length A = length pre + 11" using wf by (simp add: A_def)
  have lenE: "unat ?len = length (enc_options os)" using len r(3) by simp
  let ?p1 = "A @ ?k @ residue os @ post"
  have "removePadding_loop ?p (length pre + 11) (length pre + 11 + unat ?len)
      = Some (?p1, length pre + 11 + length ?k)"
    using removePadding_loop_enc [OF r(4), of A post] by (simp only: it p lenE)
  then have rem: "removePaddingOption ?p (length pre + 11) ?len = Some (?p1, ?n)"
    by (simp add: removePaddingOption_def)
  have b01: "be16 (?p ! 0) (?p ! 1) = H" by (simp add: pre_def short_def)
  have dd: "?len - ?n = of_nat diff" using kl by (simp add: diff_def of_nat_diff)
  have p3: "patched ?p1 (length pre) ?n (H - of_nat diff)
      = (short (H - of_nat diff) @ pre2 @ ?hd @ short ?n) @ ?k @ residue os @ post"
  proof -
    have u: "?p1[length pre + 9 := hi8 ?n, length pre + 9 + 1 := lo8 ?n]
        = (pre @ ?hd) @ short ?n @ ?k @ residue os @ post"
      using update_short [of "length pre + 9" "pre @ ?hd" ?len "?k @ residue os @ post" ?n] wf by (simp add: A_def)
    have "patched ?p1 (length pre) ?n (H - of_nat diff)
        = ((pre @ ?hd) @ short ?n @ ?k @ residue os @ post)
            [0 := hi8 (H - of_nat diff), 0 + 1 := lo8 (H - of_nat diff)]"
      unfolding patched_def u [symmetric] by (simp add: add.commute)
    also have "\<dots> = short (H - of_nat diff) @ pre2 @ ?hd @ short ?n @ ?k @ residue os @ post"
      using update_short [of 0 "[]" H "pre2 @ ?hd @ short ?n @ ?k @ residue os @ post" "H - of_nat diff"]
      by (simp add: pre_def)
    finally show ?thesis by simp
  qed
  have fit: "length pre + 11 + unat ?len \<le> length ?p" using lenE by (simp only: p it length_append)
  let ?q = "short (H - of_nat diff) @ pre2 @ ?hd @ short ?n"
  have q: "length ?q = length pre + 11" using wf by (simp add: pre_def)
  have res: "length (residue os) = diff"
    using length_keep_residue [of os] by (simp add: diff_def r(3))
  have "stripOptions ?p (length pre) ?len
      = Some (take (length ?q) (?q @ ?k @ residue os @ post)
          @ drop (length ?q + diff) (?q @ ?k @ residue os @ post))"
    using stripOptions_eq [OF pre fit rem]
    by (simp only: b01 dd p3 q len n) (simp add: diff_def)
  also have "\<dots> = Some (?q @ drop diff (?k @ residue os @ post))" by (simp only: take_drop_gap)
  also have "drop diff (?k @ residue os @ post) = strip_rdata os @ post"
  proof -
    have "diff = length (enc_options os) - length ?k" by (simp add: diff_def r(3))
    then have "strip_rdata os = drop diff (?k @ residue os)" by (simp only: strip_rdata_def)
    then show ?thesis by (simp add: res)
  qed
  finally show ?thesis by (simp add: enc_rr_def nm)
qed

subsection \<open>The walk over the additional section\<close>

lemma enc_name_first:
  "wf_name nm \<Longrightarrow> nm \<noteq> Name [] None \<Longrightarrow> enc_name nm ! 0 \<noteq> 0"
proof (cases nm)
  case (Name ls t)
  assume wf: "wf_name nm" and ne: "nm \<noteq> Name [] None"
  show ?thesis
  proof (cases ls)
    case Nil
    with Name wf ne show ?thesis by (cases t) (auto simp: is_pointer_def)
  next
    case (Cons l ls')
    with Name wf have "wf_label l" by (cases t) auto
    with Name Cons show ?thesis
      using wf_label_byte(1) [of l] by (cases t) (auto simp: enc_label_def)
  qed
qed

lemma notOpt_enc:
  assumes "wf_rr r"
  shows "notOpt (pre @ enc_rr r @ post) (length pre) = Some (\<not> is_opt r)"
proof -
  let ?p = "pre @ enc_rr r @ post"
  have wf: "wf_name (rr_name r)" "length (rr_fixed r) = 6" using assms by (auto simp: wf_rr_def)
  have ne: "enc_name (rr_name r) \<noteq> []" by (rule enc_name_nonempty)
  have b: "rd ?p (length pre) = Some (enc_name (rr_name r) ! 0)"
    using ne by (simp add: rd_def nth_append enc_rr_def)
  show ?thesis
  proof (cases "rr_name r = Name [] None")
    case True
    then have g: "getShort ?p (length pre + 1) = Some (rr_type r)"
      by (intro getShort_split [where pre = "pre @ [0]" and post = "rr_fixed r
          @ short (of_nat (length (rr_data r))) @ rr_data r @ post"]) (simp_all add: enc_rr_def)
    have "11 \<le> int (length ?p) - int (length pre)" using True wf by (simp add: enc_rr_def)
    with True b g show ?thesis by (simp add: notOpt_def is_opt_def)
  next
    case False
    with b enc_name_first [OF wf(1)] show ?thesis by (simp add: notOpt_def is_opt_def)
  qed
qed

lemma ednsLoop_skip_step:
  "it \<noteq> length p \<Longrightarrow> notOpt p it = Some True \<Longrightarrow> skipResponses sc p (Suc 0) it = Some j \<Longrightarrow>
   ednsLoop sc p (Suc n) it = ednsLoop sc p n j"
  by (simp only: ednsLoop.simps One_nat_def) simp

lemma ednsLoop_edit_step:
  "it \<noteq> length p \<Longrightarrow> notOpt p it = Some False \<Longrightarrow> getShort p (it + 9) = Some len \<Longrightarrow>
   int (length p) - int it \<ge> int (unat len) + 11 \<Longrightarrow> stripOptions p it len = Some p' \<Longrightarrow>
   ednsLoop sc p (Suc n) it = Some (True, p')"
  by (simp only: ednsLoop.simps) simp

lemma ednsLoop_skip:
  assumes "list_all wf_rr rs" "list_all (\<lambda>r. \<not> is_opt r) rs"
    and "length (pre @ enc_rrs rs @ post) < 2 ^ 64"
  shows "ednsLoop sc (pre @ enc_rrs rs @ post) (length rs + n) (length pre)
       = ednsLoop sc ((pre @ enc_rrs rs) @ post) n (length (pre @ enc_rrs rs))"
  using assms
proof (induction rs arbitrary: pre)
  case (Cons r rs)
  let ?p = "pre @ enc_rr r @ enc_rrs rs @ post"
  have ne: "length pre \<noteq> length ?p" using enc_name_nonempty [of "rr_name r"] by (simp add: enc_rr_def)
  have nt: "notOpt ?p (length pre) = Some True" using Cons.prems by (simp add: notOpt_enc)
  have sk: "skipResponses sc ?p (Suc 0) (length pre) = Some (length (pre @ enc_rr r))"
    using Cons.prems skipResponses_step [of r pre "enc_rrs rs @ post" sc 0] by simp
  have "ednsLoop sc ?p (Suc (length rs + n)) (length pre)
      = ednsLoop sc ?p (length rs + n) (length (pre @ enc_rr r))"
    using ne nt sk by (rule ednsLoop_skip_step)
  also have "\<dots> = ednsLoop sc (((pre @ enc_rr r) @ enc_rrs rs) @ post) n (length ((pre @ enc_rr r) @ enc_rrs rs))"
    using Cons.IH [of "pre @ enc_rr r"] Cons.prems by simp
  finally show ?case by simp
qed simp

lemma ednsLoop_opt:
  fixes r :: resource and os :: "edns_option list" and pre2 post :: bytes and H :: u16
  defines "pre \<equiv> short H @ pre2"
  assumes r: "is_opt r" "wf_rr r" "rr_data r = enc_options os" "list_all wf_option os"
    and pre: "14 \<le> length pre"
  shows "ednsLoop sc (pre @ enc_rr r @ post) (Suc n) (length pre)
       = Some (True, short (H - of_nat (length (rr_data r) - length (strip_rdata os)))
             @ pre2 @ enc_rr (r\<lparr>rr_data := strip_rdata os\<rparr>) @ post)"
proof -
  let ?p = "pre @ enc_rr r @ post" and ?len = "of_nat (length (rr_data r)) :: u16"
  have nm: "rr_name r = Name [] None" "rr_type r = OPT" using r(1) by (simp_all add: is_opt_def)
  have wf: "length (rr_fixed r) = 6" "length (rr_data r) < 65536"
    using r(2) by (simp_all add: wf_rr_def)
  have len: "unat ?len = length (rr_data r)" using wf(2) by (rule unat_of_nat_u16)
  have nt: "notOpt ?p (length pre) = Some False" using r by (simp add: notOpt_enc)
  have g: "getShort ?p (length pre + 9) = Some ?len"
    by (rule getShort_split [where pre = "pre @ [0] @ short OPT @ rr_fixed r"
          and post = "rr_data r @ post"]) (simp_all add: enc_rr_def nm wf)
  have fit: "int (length ?p) - int (length pre) \<ge> int (unat ?len) + 11"
    using wf len by (simp add: enc_rr_def nm)
  have ne: "length pre \<noteq> length ?p" using enc_name_nonempty [of "rr_name r"] by (simp add: enc_rr_def)
  show ?thesis
    using ednsLoop_edit_step [OF ne nt g fit] stripOptions_enc [OF r, of H pre2 post] pre
    unfolding pre_def by blast
qed

subsection \<open>Whole messages\<close>

definition header_bytes :: "u16 \<Rightarrow> message \<Rightarrow> bytes" where
  "header_bytes L m = short L @ short (m_id m) @ short (m_flags m)
     @ short (of_nat (length (m_queries m))) @ short (of_nat (length (m_answers m)))
     @ short (of_nat (length (m_authorities m))) @ short (of_nat (length (m_additional m)))"

definition before_additional :: "u16 \<Rightarrow> message \<Rightarrow> bytes" where
  "before_additional L m = header_bytes L m @ enc_questions (m_queries m)
     @ enc_rrs (m_answers m) @ enc_rrs (m_authorities m)"

lemma length_header_bytes [simp]: "length (header_bytes L m) = 14"
  by (simp add: header_bytes_def)

lemma frame_enc_body:
  "frame (enc_body m) = before_additional (of_nat (length (enc_body m))) m @ enc_rrs (m_additional m)"
  by (simp add: frame_def enc_body_def before_additional_def header_bytes_def)

lemma length_frame [simp]: "length (frame b) = 2 + length b"
  by (simp add: frame_def)

lemma getHeader_frame:
  assumes "wf_message m"
  shows "getHeader (frame (enc_body m)) =
    Some \<lparr>h_length = of_nat (length (enc_body m)), h_id = m_id m, h_flags = m_flags m,
          h_queries = of_nat (length (m_queries m)), h_answers = of_nat (length (m_answers m)),
          h_authorities = of_nat (length (m_authorities m)),
          h_additional = of_nat (length (m_additional m))\<rparr>"
proof -
  let ?p = "frame (enc_body m)"
  have l: "length ?p = 2 + length (enc_body m)" "14 \<le> length ?p"
    by (simp_all add: enc_body_def)
  have L: "unat (of_nat (length (enc_body m)) :: u16) = length (enc_body m)"
    using assms by (intro unat_of_nat_u16) (simp add: wf_message_def)
  have "?p = header_bytes (of_nat (length (enc_body m))) m
      @ enc_questions (m_queries m) @ enc_rrs (m_answers m) @ enc_rrs (m_authorities m) @ enc_rrs (m_additional m)"
    by (simp add: frame_enc_body before_additional_def)
  then have n: "?p ! i = header_bytes (of_nat (length (enc_body m))) m ! i" if "i < 14" for i
    using that by (simp add: nth_append)
  show ?thesis
    using l L unfolding getHeader_def by (simp add: n) (simp add: header_bytes_def short_def)
qed

lemma walk_to_additional:
  assumes wf: "wf_message m" and L: "L = of_nat (length (enc_body m))"
  shows "removeEdnsPadding sc (frame (enc_body m)) =
    ednsLoop sc (before_additional L m @ enc_rrs (m_additional m)) (length (m_additional m))
      (length (before_additional L m))"
proof -
  let ?p = "frame (enc_body m)" and ?h = "header_bytes L m"
  have small: "length ?p < 2 ^ 64" using wf by (simp add: wf_message_def)
  have cnt: "unat (of_nat (length (m_queries m)) :: u16) = length (m_queries m)"
    "unat (of_nat (length (m_answers m)) :: u16) = length (m_answers m)"
    "unat (of_nat (length (m_authorities m)) :: u16) = length (m_authorities m)"
    "unat (of_nat (length (m_additional m)) :: u16) = length (m_additional m)"
    using wf by (auto simp: wf_message_def intro: unat_of_nat_u16)
  have p: "?p = before_additional L m @ enc_rrs (m_additional m)"
    by (simp add: frame_enc_body L)
  have p1: "?p = ?h @ enc_questions (m_queries m) @ enc_rrs (m_answers m)
      @ enc_rrs (m_authorities m) @ enc_rrs (m_additional m)"
    and p2: "?p = (?h @ enc_questions (m_queries m)) @ enc_rrs (m_answers m)
      @ enc_rrs (m_authorities m) @ enc_rrs (m_additional m)"
    and p3: "?p = (?h @ enc_questions (m_queries m) @ enc_rrs (m_answers m))
      @ enc_rrs (m_authorities m) @ enc_rrs (m_additional m)"
    by (simp_all add: p before_additional_def)
  have wfs: "list_all wf_question (m_queries m)" "list_all wf_rr (m_answers m)"
    "list_all wf_rr (m_authorities m)"
    using wf by (auto simp: wf_message_def)
  have q: "skipQueries sc ?p (length (m_queries m)) 14 = Some (length (?h @ enc_questions (m_queries m)))"
    using skipQueries_enc [OF wfs(1), of ?h "enc_rrs (m_answers m) @ enc_rrs (m_authorities m)
        @ enc_rrs (m_additional m)" sc] small unfolding p1 by simp
  have a: "skipResponses sc ?p (length (m_answers m)) (length (?h @ enc_questions (m_queries m)))
      = Some (length (?h @ enc_questions (m_queries m) @ enc_rrs (m_answers m)))"
    using skipResponses_enc [OF wfs(2), of "?h @ enc_questions (m_queries m)"
        "enc_rrs (m_authorities m) @ enc_rrs (m_additional m)" sc] small unfolding p2 by simp
  have u: "skipResponses sc ?p (length (m_authorities m))
        (length (?h @ enc_questions (m_queries m) @ enc_rrs (m_answers m)))
      = Some (length (before_additional L m))"
    using skipResponses_enc [OF wfs(3), of "?h @ enc_questions (m_queries m) @ enc_rrs (m_answers m)"
        "enc_rrs (m_additional m)" sc] small unfolding p3 by (simp add: before_additional_def)
  show ?thesis
    unfolding removeEdnsPadding_def getHeader_frame [OF wf]
    by (simp only: option.case DnsHeader.simps cnt q a u Option.bind.simps) (simp only: p)
qed

text \<open>The message after the edit of its first OPT record.\<close>

definition strip_message :: "message \<Rightarrow> resource list \<Rightarrow> resource \<Rightarrow> edns_option list \<Rightarrow> resource list \<Rightarrow> message" where
  "strip_message m before r os after =
     m\<lparr>m_additional := before @ [r\<lparr>rr_data := strip_rdata os\<rparr>] @ after\<rparr>"

lemma removeEdnsPadding_enc:
  assumes wf: "wf_message m" and add: "m_additional m = before @ [r] @ after"
    and no: "list_all (\<lambda>r. \<not> is_opt r) before"
    and r: "is_opt r" "rr_data r = enc_options os" "list_all wf_option os"
  shows "removeEdnsPadding sc (frame (enc_body m))
       = Some (True, frame (enc_body (strip_message m before r os after)))"
proof -
  let ?L = "of_nat (length (enc_body m)) :: u16" and ?m' = "strip_message m before r os after"
  let ?d = "length (rr_data r) - length (strip_rdata os)"
  let ?pre2 = "drop 2 (before_additional ?L m) @ enc_rrs before"
  have wfs: "list_all wf_rr before" "wf_rr r"
    using wf by (auto simp: wf_message_def add)
  have small: "length (frame (enc_body m)) < 2 ^ 64" using wf by (simp add: wf_message_def)
  have sh: "short L' @ drop 2 (before_additional L m) = before_additional L' m" for L L'
    by (simp add: before_additional_def header_bytes_def short_def)
  have B: "before_additional ?L m @ enc_rrs before = short ?L @ ?pre2"
    using sh [of ?L ?L] by (metis append_assoc)
  have le: "14 \<le> length (before_additional ?L m @ enc_rrs before)"
    by (simp add: before_additional_def)
  have "removeEdnsPadding sc (frame (enc_body m))
      = ednsLoop sc (before_additional ?L m @ enc_rrs before @ enc_rr r @ enc_rrs after)
          (length before + Suc (length after)) (length (before_additional ?L m))"
    using walk_to_additional [OF wf refl, of sc] by (simp add: add)
  also have "\<dots> = ednsLoop sc ((before_additional ?L m @ enc_rrs before) @ enc_rr r @ enc_rrs after)
      (Suc (length after)) (length (before_additional ?L m @ enc_rrs before))"
    using small by (intro ednsLoop_skip [OF wfs(1) no]) (simp add: frame_enc_body add)
  also have "\<dots> = Some (True, short (?L - of_nat ?d) @ ?pre2
      @ enc_rr (r\<lparr>rr_data := strip_rdata os\<rparr>) @ enc_rrs after)"
    using ednsLoop_opt [OF r(1) wfs(2) r(2,3), of ?L ?pre2 sc "enc_rrs after" "length after"] le
    unfolding B [symmetric] by simp
  finally have res: "removeEdnsPadding sc (frame (enc_body m)) = Some (True,
      before_additional (?L - of_nat ?d) m @ enc_rrs (m_additional ?m'))"
    using sh [of "?L - of_nat ?d" ?L] by (simp add: strip_message_def)
  have shrink: "?d \<le> length (enc_body m)"
    by (simp add: enc_body_def add enc_rr_def)
  have "length (enc_body ?m') + ?d = length (enc_body m)"
    using length_keep_residue [of os] by (simp add: enc_body_def add strip_message_def enc_rr_def r(2))
  then have len': "of_nat (length (enc_body ?m')) = ?L - of_nat ?d"
    using shrink by (metis add_diff_cancel_right' of_nat_add)
  have "before_additional L ?m' = before_additional L m" for L
    by (simp add: before_additional_def header_bytes_def strip_message_def add)
  then have "frame (enc_body ?m') = before_additional (?L - of_nat ?d) m @ enc_rrs (m_additional ?m')"
    by (simp only: frame_enc_body len')
  then show ?thesis by (simp only: res)
qed

lemma removeEdnsPadding_enc_none:
  assumes wf: "wf_message m" and no: "list_all (\<lambda>r. \<not> is_opt r) (m_additional m)"
  shows "removeEdnsPadding sc (frame (enc_body m)) = Some (False, frame (enc_body m))"
proof -
  let ?B = "before_additional (of_nat (length (enc_body m))) m"
  have "list_all wf_rr (m_additional m)" "length (frame (enc_body m)) < 2 ^ 64"
    using wf by (auto simp: wf_message_def)
  then have "ednsLoop sc (?B @ enc_rrs (m_additional m) @ []) (length (m_additional m) + 0) (length ?B)
      = ednsLoop sc ((?B @ enc_rrs (m_additional m)) @ []) 0 (length (?B @ enc_rrs (m_additional m)))"
    by (intro ednsLoop_skip no) (simp_all add: frame_enc_body)
  then show ?thesis
    using walk_to_additional [OF wf refl, of sc] by (simp add: frame_enc_body)
qed

subsection \<open>Which option regions the loop survives\<close>

text \<open>Conversely, a region on which the loop returns is the encoding of some list of options.\<close>

lemma option_at:
  assumes g: "getShort p it = Some c" "getShort p (it + 2) = Some w" and fit: "it + (4 + unat w) \<le> length p"
  shows "take (4 + unat w) (drop it p) = enc_option (c, take (unat w) (drop (it + 4) p))"
proof -
  have l: "it + 3 < length p" using g by (simp add: getShort_eq_Some_iff)
  then have d: "drop it p = p ! it # p ! (it + 1) # p ! (it + 2) # p ! (it + 3) # drop (it + 4) p"
    by (simp add: Cons_nth_drop_Suc numeral_eq_Suc)
  have w: "of_nat (length (take (unat w) (drop (it + 4) p))) = w"
    using fit by simp
  show ?thesis
    using g w unfolding enc_option_def d
    by (simp add: getShort_eq_Some_iff short_def numeral_eq_Suc)
qed

lemma wf_option_taken: "wf_option (c, take (unat (w :: u16)) xs)"
  by (simp add: wf_option_def min.strict_coboundedI2)

lemma removePadding_loop_parses:
  "removePadding_loop p it e = Some (p', it') \<Longrightarrow> e \<le> length p \<Longrightarrow>
   \<exists>os. list_all wf_option os \<and> take (e - it) (drop it p) = enc_options os"
proof (induction p it e rule: removePadding_loop.induct)
  case (1 p it e)
  show ?case
  proof (cases rule: removePadding_cases [where p = p and it = it and e = e])
    case oob
    with "1.prems" show ?thesis by (simp add: removePadding_loop_oob)
  next
    case stop
    then show ?thesis by (intro exI [of _ "[]"]) simp
  next
    case (pad w)
    let ?n = "4 + unat w" and ?opt = "(PADDING, take (unat w) (drop (it + 4) p))"
    from pad "1.prems" obtain q where q: "std_copy p (it + ?n) e it = Some q"
      and r: "removePadding_loop q it (e - ?n) = Some (p', it')"
      by (auto simp: removePadding_loop_pad bind_eq_Some_conv)
    note rng = std_copy_defined [OF q]
    have "e - ?n \<le> length q" using rng "1.prems"(2) std_copy_length [OF q] by simp
    from "1.IH"(1) [OF pad(1,2) refl pad(3) refl q r this] obtain os where
      os: "list_all wf_option os" "take (e - ?n - it) (drop it q) = enc_options os" by blast
    have tl: "take (e - ?n - it) (drop it q) = take (e - (it + ?n)) (drop (it + ?n) p)"
      using q rng by (auto simp: std_copy_def min_def ac_simps)
    have "take (e - it) (drop it p) = take ?n (drop it p) @ take (e - (it + ?n)) (drop (it + ?n) p)"
      using rng take_add [of ?n "e - (it + ?n)" "drop it p"] by (simp add: add.commute [of _ it])
    also have "\<dots> = enc_options (?opt # os)"
      using option_at [OF pad(3,2)] rng os(2) tl by simp
    finally show ?thesis
      using os(1) wf_option_taken by (intro exI [of _ "?opt # os"]) simp
  next
    case (keep w c)
    let ?n = "4 + unat w" and ?opt = "(c, take (unat w) (drop (it + 4) p))"
    from keep "1.prems" have r: "removePadding_loop p (it + ?n) e = Some (p', it')"
      by (simp add: removePadding_loop_keep)
    have rng: "it + ?n \<le> e" using removePadding_loop_frame [OF r] by simp
    from "1.IH"(2) [OF keep(1,2) refl keep(3,4) r "1.prems"(2)] obtain os where
      os: "list_all wf_option os" "take (e - (it + ?n)) (drop (it + ?n) p) = enc_options os" by blast
    have "take (e - it) (drop it p) = take ?n (drop it p) @ take (e - (it + ?n)) (drop (it + ?n) p)"
      using rng take_add [of ?n "e - (it + ?n)" "drop it p"] by (simp add: add.commute [of _ it])
    also have "\<dots> = enc_options (?opt # os)"
      using option_at [OF keep(3,2)] rng os(2) "1.prems"(2) by simp
    finally show ?thesis
      using os(1) wf_option_taken by (intro exI [of _ "?opt # os"]) simp
  qed
qed

subsection \<open>Properties of the packet wrapper\<close>

text \<open>A small response used by the witnesses: no sections but one OPT record with the given data.\<close>

definition opt_record :: "bytes \<Rightarrow> resource" where
  "opt_record d = \<lparr>rr_name = Name [] None, rr_type = OPT, rr_fixed = [5, 0xAC, 0, 0, 0, 0], rr_data = d\<rparr>"

definition opt_message :: "bytes \<Rightarrow> message" where
  "opt_message d = \<lparr>m_id = 7, m_flags = 0x8180, m_queries = [], m_answers = [], m_authorities = [],
     m_additional = [opt_record d]\<rparr>"

lemma is_opt_opt_record [simp]: "is_opt (opt_record d)"
  by (simp add: is_opt_def opt_record_def)

lemma rr_data_opt_record [simp]: "rr_data (opt_record d) = d"
  by (simp add: opt_record_def)

lemma strip_opt_message: "strip_message (opt_message d) [] (opt_record d) os [] = opt_message (strip_rdata os)"
  by (simp add: strip_message_def opt_message_def opt_record_def)

lemma wf_opt_message: "length d < 1000 \<Longrightarrow> wf_message (opt_message d)"
  by (simp add: wf_message_def opt_message_def wf_rr_def opt_record_def enc_body_def enc_rr_def)

lemma add_opt_message: "m_additional (opt_message d) = [] @ [opt_record d] @ []"
  by (simp add: opt_message_def)

text \<open>
  Property C8 (invariant). Whatever bytes a forwarder sends, when \<open>removeEdnsPadding\<close> returns on a
  valid packet the packet is still valid (its length field again counts exactly the bytes behind it),
  no longer than before, with the identifier, flags and section counts of the header untouched; and a
  packet it reports as not edited is returned byte for byte.
\<close>

theorem removeEdnsPadding_keeps_valid:
  assumes "valid p" and "removeEdnsPadding sc p = Some (b, p')"
  shows "valid p' \<and> length p' \<le> length p \<and> (\<forall>i \<in> {2..<14}. p' ! i = p ! i) \<and> (b \<or> p' = p)"
  using removeEdnsPadding_frame [OF assms(2)] assms(1) by auto

theorem removeEdnsPadding_keeps_valid_witness:
  "valid (frame (enc_body (opt_message []))) \<and>
   length (frame (enc_body (opt_message []))) \<le> length (frame (enc_body (opt_message (enc_options [(PADDING, [0, 0])]))))"
proof -
  let ?os = "[(PADDING, [0, 0])] :: edns_option list"
  have wf: "wf_message (opt_message (enc_options ?os))" by (rule wf_opt_message) simp
  have v: "valid (frame (enc_body (opt_message (enc_options ?os))))"
    unfolding valid_def getHeader_frame [OF wf] by simp
  have "removeEdnsPadding True (frame (enc_body (opt_message (enc_options ?os))))
      = Some (True, frame (enc_body (opt_message [])))"
    using removeEdnsPadding_enc [OF wf add_opt_message, of ?os True] strip_rdata_all_padding [of ?os]
    by (simp add: strip_opt_message is_padding_def wf_option_def)
  from removeEdnsPadding_keeps_valid [OF v this] show ?thesis by blast
qed

text \<open>
  Property C7 (functional). On every well-formed message (any names with or without compression
  pointers, any records in any section) whose first OPT record carries padding options only, the
  function returns, reports success, and the result is the encoding of the same message with an empty
  OPT record: every other byte is kept and both length fields are right.  It holds for signed and for
  unsigned plain \<open>char\<close>.
\<close>

theorem padding_is_stripped:
  assumes "wf_message m" and "m_additional m = before @ [r] @ after"
    and "list_all (\<lambda>r. \<not> is_opt r) before" and "is_opt r"
    and "rr_data r = enc_options os" and "list_all wf_option os" and "list_all is_padding os"
  shows "removeEdnsPadding sc (frame (enc_body m)) =
    Some (True, frame (enc_body (m\<lparr>m_additional := before @ [r\<lparr>rr_data := []\<rparr>] @ after\<rparr>)))"
  using removeEdnsPadding_enc [OF assms(1-6)] strip_rdata_all_padding [OF assms(7)]
  by (simp add: strip_message_def)

theorem padding_is_stripped_witness:
  "removeEdnsPadding False (frame (enc_body (opt_message (enc_options [(PADDING, [0, 0, 0])])))) =
     Some (True, frame (enc_body (opt_message [])))"
  using padding_is_stripped [OF wf_opt_message add_opt_message, of "enc_options [(PADDING, [0, 0, 0])]"
      "[(PADDING, [0, 0, 0])]" False]
  by (simp add: is_padding_def wf_option_def) (simp add: opt_message_def opt_record_def)

text \<open>
  On every well-formed message with no OPT record in its additional section
  the walk reaches the end of the packet without leaving it and the packet is returned unchanged.
\<close>

lemma no_opt_unchanged:
  assumes "wf_message m" and "list_all (\<lambda>r. \<not> is_opt r) (m_additional m)"
  shows "removeEdnsPadding sc (frame (enc_body m)) = Some (False, frame (enc_body m))"
  using assms by (rule removeEdnsPadding_enc_none)

text \<open>The first OPT record of a message, if there is one, holds padding and nothing else; the message with it emptied.\<close>

definition only_padding :: "message \<Rightarrow> bool" where
  "only_padding m \<longleftrightarrow> (case List.find is_opt (m_additional m) of
     None \<Rightarrow> True
   | Some r \<Rightarrow> \<exists>os. rr_data r = enc_options os \<and> list_all wf_option os \<and> list_all is_padding os)"

fun empty_first_opt :: "resource list \<Rightarrow> resource list" where
  "empty_first_opt [] = []"
| "empty_first_opt (r # rs) = (if is_opt r then r\<lparr>rr_data := []\<rparr> # rs else r # empty_first_opt rs)"

lemma first_opt_None: "List.find is_opt rs = None \<Longrightarrow> list_all (\<lambda>r. \<not> is_opt r) rs \<and> empty_first_opt rs = rs"
  by (induction rs) (auto split: if_splits)

lemma first_opt_Some:
  "List.find is_opt rs = Some r \<Longrightarrow> \<exists>before after. rs = before @ [r] @ after \<and> list_all (\<lambda>r. \<not> is_opt r) before \<and> is_opt r
     \<and> empty_first_opt rs = before @ [r\<lparr>rr_data := []\<rparr>] @ after"
proof (induction rs)
  case (Cons x rs)
  show ?case
  proof (cases "is_opt x")
    case True
    with Cons.prems show ?thesis by (intro exI [of _ "[]"] exI [of _ rs]) simp
  next
    case False
    with Cons obtain before after where "rs = before @ [r] @ after" "list_all (\<lambda>r. \<not> is_opt r) before" "is_opt r"
      "empty_first_opt rs = before @ [r\<lparr>rr_data := []\<rparr>] @ after" by auto
    with False show ?thesis by (intro exI [of _ "x # before"] exI [of _ after]) simp
  qed
qed simp

lemma removeEdnsPadding_only_padding:
  assumes "wf_message m" and "only_padding m"
  shows "\<exists>edited. removeEdnsPadding sc (frame (enc_body m))
    = Some (edited, frame (enc_body (m\<lparr>m_additional := empty_first_opt (m_additional m)\<rparr>)))"
proof (cases "List.find is_opt (m_additional m)")
  case None
  from first_opt_None [OF this] removeEdnsPadding_enc_none [OF assms(1), of sc] show ?thesis
    by (intro exI [of _ False]) simp
next
  case (Some r)
  from first_opt_Some [OF this] obtain before after where
    r: "m_additional m = before @ [r] @ after" "list_all (\<lambda>r. \<not> is_opt r) before" "is_opt r"
    "empty_first_opt (m_additional m) = before @ [r\<lparr>rr_data := []\<rparr>] @ after" by blast
  from assms(2) Some obtain os where os: "rr_data r = enc_options os" "list_all wf_option os" "list_all is_padding os"
    by (auto simp: only_padding_def)
  show ?thesis
    using removeEdnsPadding_enc [OF assms(1) r(1-3) os(1,2)] strip_rdata_all_padding [OF os(3)]
    unfolding r(4) by (intro exI [of _ True]) (simp add: strip_message_def)
qed

definition answer_message :: message where
  "answer_message = \<lparr>m_id = 1, m_flags = 0x8180,
     m_queries = [\<lparr>q_name = Name [[0x63, 0x6F, 0x6D]] None, q_fixed = [0, 1, 0, 1]\<rparr>],
     m_answers = [\<lparr>rr_name = Name [] (Some (0xC0, 0x0C)), rr_type = 1, rr_fixed = [0, 1, 0, 0, 0, 60],
       rr_data = [127, 0, 0, 1]\<rparr>],
     m_authorities = [], m_additional = []\<rparr>"

lemma wf_answer_message: "wf_message answer_message"
  by (simp add: wf_message_def answer_message_def wf_question_def wf_label_def wf_rr_def is_pointer_def
      enc_body_def enc_question_def enc_rr_def enc_label_def)

text \<open>
  Property C19 (functional). What the function really does to a well-formed message whose first OPT
  record holds any list of options: the record's data becomes \<open>strip_rdata\<close>, that is the options
  after compaction with their first \<open>diff\<close> bytes dropped, \<open>diff\<close> the size of the padding.  (Where
  padding follows another option this is not the encoding of the kept options.)  In particular
  no well-formed message makes an access leave the vector.
\<close>

theorem opt_edit_exact:
  assumes "wf_message m" and "m_additional m = before @ [r] @ after"
    and "list_all (\<lambda>r. \<not> is_opt r) before" and "is_opt r"
    and "rr_data r = enc_options os" and "list_all wf_option os"
  shows "removeEdnsPadding sc (frame (enc_body m)) =
    Some (True, frame (enc_body (strip_message m before r os after)))
    \<and> length (strip_rdata os) = length (enc_options (keep os))"
  using removeEdnsPadding_enc [OF assms] by simp

theorem opt_edit_exact_witness:
  "removeEdnsPadding True (frame (enc_body (opt_message (enc_options [(PADDING, [0]), (3, [])])))) =
     Some (True, frame (enc_body (opt_message (enc_options [(3, [])]))))"
proof -
  let ?os = "[(PADDING, [0]), (3, [])] :: edns_option list"
  have "strip_rdata ?os = enc_options [(3, [])]"
    by (simp add: strip_rdata_def enc_option_def is_padding_def PADDING_def short_def)
  then show ?thesis
    using opt_edit_exact [OF wf_opt_message add_opt_message, of "enc_options ?os" ?os True]
    by (simp add: wf_option_def strip_opt_message)
qed

text \<open>
  A DNS cookie followed by padding: the edit drops the cookie.  The packet that
  goes to the client carries twelve zero bytes where the cookie option was, although the option is not
  padding and the function reports success.
\<close>

lemma option_before_padding_is_destroyed:
  "\<exists>cookie padding p'.
     cookie = (10, [1, 2, 3, 4, 5, 6, 7, 8]) \<and> padding = (PADDING, replicate 12 0)
     \<and> removeEdnsPadding True (frame (enc_body (opt_message (enc_options [cookie, padding])))) = Some (True, p')
     \<and> p' = frame (enc_body (opt_message (replicate 12 0)))
     \<and> p' \<noteq> frame (enc_body (opt_message (enc_options [cookie])))"
proof -
  let ?c = "(10, [1, 2, 3, 4, 5, 6, 7, 8]) :: edns_option" and ?p = "(PADDING, replicate 12 0) :: edns_option"
  have s: "strip_rdata [?c, ?p] = replicate 12 0"
    by (simp add: strip_rdata_def enc_option_def is_padding_def PADDING_def short_def numeral_eq_Suc)
  have "removeEdnsPadding True (frame (enc_body (opt_message (enc_options [?c, ?p]))))
      = Some (True, frame (enc_body (opt_message (replicate 12 0))))"
    using removeEdnsPadding_enc [OF wf_opt_message add_opt_message, of "enc_options [?c, ?p]" "[?c, ?p]" True]
    by (simp add: wf_option_def strip_opt_message s)
  moreover have "frame (enc_body (opt_message (replicate 12 0))) \<noteq> frame (enc_body (opt_message (enc_options [?c])))"
    by (simp add: frame_def enc_body_def opt_message_def enc_rr_def opt_record_def enc_option_def
        short_def numeral_eq_Suc)
  ultimately show ?thesis by blast
qed

text \<open>What each part of the walk does once the iterator is behind the end of the vector.\<close>

lemma skipQueries_add: "skipQueries sc p (m + n) it = Option.bind (skipQueries sc p m it) (skipQueries sc p n)"
proof (induction m arbitrary: it)
  case (Suc m)
  show ?case
  proof (cases "it = length p")
    case True
    then show ?thesis by (cases n) simp_all
  next
    case False
    then show ?thesis using Suc.IH by (cases "skipName sc p it") simp_all
  qed
qed simp

lemma behind_the_end:
  assumes "length p < i"
  shows "skipName sc p i = None" "notOpt p i = None"
  using assms by (subst skipName.simps, simp_all add: rd_def notOpt_def)

lemma walk_behind_the_end:
  assumes "length p < i"
  shows "skipQueries sc p n i = (if n = 0 then Some i else None)" "skipResponses sc p n i = (if n = 0 then Some i else None)"
    "ednsLoop sc p n i = (if n = 0 then Some (False, p) else None)"
  using assms behind_the_end [OF assms] by (cases n; simp)+

lemma skipFixed_behind_the_end: "skipFixed p (length p + 1) n = length p + 1 + n" if "n < 2 ^ 63"
  using that by (simp add: skipFixed_def to_size_t_neg)

text \<open>
  Property C21 (safety). A packet that passes \<open>valid()\<close> but ends behind the first byte of a compression pointer in the
  name of a question: \<open>skipName\<close> steps one past \<open>end()\<close>, and the \<open>size_t\<close> comparison of \<open>skipFixed\<close> then sees a huge
  distance and steps further.  The walk goes on reading behind the vector exactly when the header announces
  anything after this question; when it is the last item announced, nothing more is read and the packet is returned
  unchanged.
\<close>

theorem cut_pointer_reads_past_end:
  assumes "p = hdr @ enc_questions qs @ concat (map enc_label ls) @ [b]" and "length hdr = 14"
    and "list_all wf_question qs" and "list_all wf_label ls" and "is_pointer b"
    and "getHeader p = Some h" and "length qs < unat (h_queries h)"
  shows "skipName sc p (length (hdr @ enc_questions qs)) = Some (length p + 1)
    \<and> removeEdnsPadding sc p =
        (if unat (h_queries h) = Suc (length qs) \<and> h_answers h = 0 \<and> h_authorities h = 0 \<and> h_additional h = 0
         then Some (False, p) else None)"
proof -
  let ?pre = "hdr @ enc_questions qs" and ?ls = "concat (map enc_label ls)"
  have b: "b \<noteq> 0" using assms(5) by (auto simp: is_pointer_def)
  have "unat (h_length h) = length p - 2" using assms(6) by (auto simp: getHeader_def Let_def split: if_splits)
  then have small: "length p < 2 ^ 64" using unat_u16_less [of "h_length h"] by simp
  have "skipName sc (?pre @ ?ls @ [b]) (length ?pre) = skipName sc ((?pre @ ?ls) @ [b]) (length (?pre @ ?ls))"
    using assms(4) by (intro skipName_labels) auto
  also have "\<dots> = Some (length (?pre @ ?ls) + 2)"
    using assms(5) b by (subst skipName.simps) (simp add: rd_def nth_append)
  finally have n: "skipName sc p (length ?pre) = Some (length p + 1)" by (simp add: assms(1))
  obtain k where k: "unat (h_queries h) = length qs + Suc k" using assms(7) less_imp_Suc_add by force
  have "skipQueries sc (hdr @ enc_questions qs @ ?ls @ [b]) (length qs) (length hdr) = Some (length hdr + length (enc_questions qs))"
    using assms(1,3) small by (intro skipQueries_enc) simp_all
  then have q: "skipQueries sc p (length qs) 14 = Some (length ?pre)" by (simp add: assms(1,2))
  have inside: "length ?pre \<noteq> length p" by (simp add: assms(1))
  have "skipQueries sc p (unat (h_queries h)) 14 = skipQueries sc p k (skipFixed p (length p + 1) 4)"
    unfolding k skipQueries_add q using inside n by simp
  then have w: "skipQueries sc p (unat (h_queries h)) 14 = (if k = 0 then Some (length p + 5) else None)"
    using skipFixed_behind_the_end [of 4 p] by (simp add: walk_behind_the_end)
  have "removeEdnsPadding sc p = (if k = 0 \<and> h_answers h = 0 \<and> h_authorities h = 0 \<and> h_additional h = 0 then Some (False, p) else None)"
    by (simp add: removeEdnsPadding_def assms(6) w walk_behind_the_end unat_eq_0)
  with n k show ?thesis by simp
qed

definition cut_pointer_packet :: bytes where
  "cut_pointer_packet = [0, 13, 0, 1, 0x81, 0x80, 0, 1, 0, 1, 0, 0, 0, 0, 0xC0]"

theorem cut_pointer_reads_past_end_witness:
  "valid cut_pointer_packet \<and> skipName True cut_pointer_packet 14 = Some (length cut_pointer_packet + 1)
   \<and> removeEdnsPadding True cut_pointer_packet = None"
proof -
  let ?hdr = "[0, 13, 0, 1, 0x81, 0x80, 0, 1, 0, 1, 0, 0, 0, 0] :: bytes"
  have p: "cut_pointer_packet = ?hdr @ enc_questions [] @ concat (map enc_label []) @ [0xC0]" "length ?hdr = 14"
    by (simp_all add: cut_pointer_packet_def)
  have h: "getHeader cut_pointer_packet = Some \<lparr>h_length = 13, h_id = 1, h_flags = 0x8180,
      h_queries = 1, h_answers = 1, h_authorities = 0, h_additional = 0\<rparr>"
    by (simp add: getHeader_def Let_def cut_pointer_packet_def be16_def)
  have b: "is_pointer (0xC0 :: byte)" by (simp add: is_pointer_def)
  from cut_pointer_reads_past_end [OF p _ _ b h, of True] h show ?thesis by (simp add: valid_def numeral_eq_Suc)
qed

text \<open>
  Property C20 (safety). The option loop is defined exactly on the regions that are a sequence of
  complete options: no option length in the packet is checked against the record, so an option that
  claims to reach past the end of its record makes \<open>std::copy\<close> run over a range that is none, or
  the loop read behind the vector.
\<close>

theorem removePaddingOption_defined_iff:
  assumes "i + unat w \<le> length p"
  shows "(\<exists>q. removePaddingOption p i w = Some q) \<longleftrightarrow>
     (\<exists>os. list_all wf_option os \<and> take (unat w) (drop i p) = enc_options os)"
proof
  assume "\<exists>q. removePaddingOption p i w = Some q"
  then obtain r where "removePadding_loop p i (i + unat w) = Some r"
    by (auto simp: removePaddingOption_def bind_eq_Some_conv)
  then show "\<exists>os. list_all wf_option os \<and> take (unat w) (drop i p) = enc_options os"
    using removePadding_loop_parses [of p i "i + unat w" "fst r" "snd r"] assms by simp
next
  assume "\<exists>os. list_all wf_option os \<and> take (unat w) (drop i p) = enc_options os"
  then obtain os where os: "list_all wf_option os" "take (unat w) (drop i p) = enc_options os" by blast
  have p: "p = take i p @ enc_options os @ drop (i + unat w) p"
    by (metis append_take_drop_id drop_drop add.commute os(2))
  have l: "length (take i p) = i" "length (enc_options os) = unat w"
    using assms arg_cong [OF os(2), of length] by auto
  show "\<exists>q. removePaddingOption p i w = Some q"
    using removePadding_loop_enc [OF os(1), of "take i p" "drop (i + unat w) p"]
    unfolding l p [symmetric] by (auto simp: removePaddingOption_def)
qed

theorem removePaddingOption_defined_iff_witness:
  "\<exists>q. removePaddingOption [9, 9, 0, 3, 0, 1, 7] 2 5 = Some q"
proof -
  have "list_all wf_option [(3, [7])] \<and>
      take (unat (5 :: u16)) (drop 2 [9, 9, 0, 3, 0, 1, 7]) = enc_options [(3, [7])]"
    by (simp add: wf_option_def enc_option_def short_def hi8_def lo8_def)
  then have "\<exists>os. list_all wf_option os \<and>
      take (unat (5 :: u16)) (drop 2 [9, 9, 0, 3, 0, 1, 7]) = enc_options os"
    by (rule exI [of _ "[(3, [7])]"])
  then show ?thesis by (subst removePaddingOption_defined_iff) simp_all
qed

end
