(* ===== verification/Std_Map.thy ===== *)
theory Std_Map
  imports Dote_Prelude
begin

text \<open>
  \<open>std::map\<close> as the event loop uses it: an association list kept sorted by key, because the loop
  iterates its maps in key order and restarts an iteration at \<open>begin()\<close>.  \<open>find\<close> and
  \<open>count\<close> are \<open>map_of\<close>, \<open>insert\<close> keeps an existing entry, \<open>erase\<close> by key.
  What a client relies on is the locale \<open>keyed_map\<close>.
\<close>

type_synonym ('k, 'v) std_map = "('k \<times> 'v) list"

fun map_insert :: "'k::linorder \<Rightarrow> 'v \<Rightarrow> ('k, 'v) std_map \<Rightarrow> ('k, 'v) std_map" where
  "map_insert k v [] = [(k, v)]"
| "map_insert k v ((k', v') # m) =
     (if k < k' then (k, v) # (k', v') # m
      else if k = k' then (k', v') # m
      else (k', v') # map_insert k v m)"

definition map_erase :: "'k \<Rightarrow> ('k, 'v) std_map \<Rightarrow> ('k, 'v) std_map" where
  "map_erase k m = filter (\<lambda>e. fst e \<noteq> k) m"

definition sorted_map :: "('k::linorder, 'v) std_map \<Rightarrow> bool" where
  "sorted_map m \<longleftrightarrow> sorted_wrt (<) (map fst m)"

subsection \<open>The contract of a map\<close>

locale keyed_map =
  fixes find :: "'m \<Rightarrow> 'k \<Rightarrow> 'v option"
    and ins :: "'k \<Rightarrow> 'v \<Rightarrow> 'm \<Rightarrow> 'm"
    and era :: "'k \<Rightarrow> 'm \<Rightarrow> 'm"
    and inv :: "'m \<Rightarrow> bool"
  assumes find_ins: "inv m \<Longrightarrow> find (ins k v m) j = (if j = k \<and> find m k = None then Some v else find m j)"
    and find_era: "find (era k m) j = (if j = k then None else find m j)"
    and inv_ins: "inv m \<Longrightarrow> inv (ins k v m)"
    and inv_era: "inv m \<Longrightarrow> inv (era k m)"
begin

lemma find_ins_fresh: "inv m \<Longrightarrow> find m k = None \<Longrightarrow> find (ins k v m) = (find m)(k \<mapsto> v)"
  by (rule ext) (simp add: find_ins)

lemma find_era_upd: "find (era k m) = (find m)(k := None)"
  by (rule ext) (simp add: find_era)

lemma replace_entry: "inv m \<Longrightarrow> find (ins k v (era k m)) = (find m)(k \<mapsto> v)"
  by (simp add: find_ins_fresh inv_era find_era find_era_upd)

lemma era_ins_fresh: "inv m \<Longrightarrow> find m k = None \<Longrightarrow> find (era k (ins k v m)) = find m"
  by (rule ext) (simp add: find_era find_ins)

end

lemma map_of_erase: "map_of (map_erase k m) j = (if j = k then None else map_of m j)"
  by (induction m) (auto simp: map_erase_def)

lemma sorted_map_erase: "sorted_map m \<Longrightarrow> sorted_map (map_erase k m)"
  by (auto simp: sorted_map_def map_erase_def sorted_wrt_map intro: sorted_wrt_filter)

lemma fst_set_insert: "fst ` set (map_insert k v m) = insert k (fst ` set m)"
proof (induction m)
  case (Cons e m)
  then show ?case by (cases e) (simp add: insert_commute)
qed simp

lemma sorted_map_insert: "sorted_map m \<Longrightarrow> sorted_map (map_insert k v m)"
proof (induction m)
  case (Cons e m)
  then show ?case
    using fst_set_insert [of k v m] by (cases e) (auto simp: sorted_map_def dest: less_trans)
qed (simp add: sorted_map_def)

lemma map_of_insert:
  "sorted_map m \<Longrightarrow> map_of (map_insert k v m) j = (if j = k \<and> map_of m k = None then Some v else map_of m j)"
proof (induction m)
  case (Cons e m)
  have "k < fst e \<Longrightarrow> map_of m k = None"
    using Cons.prems by (auto simp: sorted_map_def map_of_eq_None_iff)
  with Cons show ?case by (cases e) (auto simp: sorted_map_def)
qed simp

interpretation smap: keyed_map map_of map_insert map_erase sorted_map
  by unfold_locales (simp_all add: map_of_insert map_of_erase sorted_map_insert sorted_map_erase)

lemmas std_map_simps [map_simps] =
  smap.find_ins smap.find_era smap.inv_ins smap.inv_era smap.find_ins_fresh smap.find_era_upd

lemma sorted_map_Nil [simp]: "sorted_map []"
  by (simp add: sorted_map_def)

lemma sorted_map_distinct: "sorted_map m \<Longrightarrow> distinct (map fst m)"
  by (simp add: sorted_map_def strict_sorted_iff)

lemma sorted_map_entry: "sorted_map m \<Longrightarrow> (k, v) \<in> set m \<longleftrightarrow> map_of m k = Some v"
  using sorted_map_distinct [of m] by (auto simp: map_of_eq_Some_iff)

end
