(* ===== verification/Event_Loop.thy ===== *)
theory Event_Loop
  imports Std_Map
begin

unbundle bit_operations_syntax

text \<open>
  \<open>src/src/loop.cpp\<close> and \<open>src/src/i_loop.cpp\<close>: the poll loop, its three handler maps and the
  owning \<open>Registration\<close> objects.

  A stored \<open>std::function\<close> is a value of a type \<open>'cb\<close>; what calling it does to the whole
  program state \<open>'s\<close> is the argument \<open>exec\<close>, and \<open>L\<close> reads the loop out of that state (a
  callback may change the maps while the loop walks over them).  There is one loop in the program, so
  the pointer \<open>m_loop\<close> of a registration is left out: it is read only when the type is not
  \<open>Moved\<close>.  Times are seconds, handles are \<open>int\<close>.  A result \<open>None\<close> is undefined
  behaviour inside a callback, or a scan that never ends.
\<close>

subsection \<open>State\<close>

datatype RegType = Moved | Read | Write | Exception

record Registration =
  r_handle :: int
  r_type :: RegType

record 'cb Loop =
  m_readFunctions :: "(int, 'cb \<times> int) std_map"
  m_writeFunctions :: "(int, 'cb \<times> int) std_map"
  m_exceptFunctions :: "(int, 'cb) std_map"

definition empty_loop :: "'cb Loop" where
  "empty_loop = \<lparr>m_readFunctions = [], m_writeFunctions = [], m_exceptFunctions = []\<rparr>"

subsection \<open>Registrations\<close>

definition no_registration :: Registration where
  "no_registration = \<lparr>r_handle = -1, r_type = Moved\<rparr>"

definition reg_valid :: "Registration \<Rightarrow> bool" where
  "reg_valid r \<longleftrightarrow> r_type r \<noteq> Moved"

definition registerRead :: "int \<Rightarrow> 'cb \<Rightarrow> int \<Rightarrow> 'cb Loop \<Rightarrow> Registration \<times> 'cb Loop" where
  "registerRead handle callback timeout l =
     (if map_of (m_readFunctions l) handle \<noteq> None then (no_registration, l)
      else (\<lparr>r_handle = handle, r_type = Read\<rparr>,
            l\<lparr>m_readFunctions := map_insert handle (callback, timeout) (m_readFunctions l)\<rparr>))"

definition registerWrite :: "int \<Rightarrow> 'cb \<Rightarrow> int \<Rightarrow> 'cb Loop \<Rightarrow> Registration \<times> 'cb Loop" where
  "registerWrite handle callback timeout l =
     (if map_of (m_writeFunctions l) handle \<noteq> None then (no_registration, l)
      else (\<lparr>r_handle = handle, r_type = Write\<rparr>,
            l\<lparr>m_writeFunctions := map_insert handle (callback, timeout) (m_writeFunctions l)\<rparr>))"

definition registerException :: "int \<Rightarrow> 'cb \<Rightarrow> 'cb Loop \<Rightarrow> Registration \<times> 'cb Loop" where
  "registerException handle callback l =
     (if map_of (m_exceptFunctions l) handle \<noteq> None then (no_registration, l)
      else (\<lparr>r_handle = handle, r_type = Exception\<rparr>,
            l\<lparr>m_exceptFunctions := map_insert handle callback (m_exceptFunctions l)\<rparr>))"

definition removeRead :: "int \<Rightarrow> 'cb Loop \<Rightarrow> 'cb Loop" where
  "removeRead handle l = l\<lparr>m_readFunctions := map_erase handle (m_readFunctions l)\<rparr>"

definition removeWrite :: "int \<Rightarrow> 'cb Loop \<Rightarrow> 'cb Loop" where
  "removeWrite handle l = l\<lparr>m_writeFunctions := map_erase handle (m_writeFunctions l)\<rparr>"

definition removeException :: "int \<Rightarrow> 'cb Loop \<Rightarrow> 'cb Loop" where
  "removeException handle l = l\<lparr>m_exceptFunctions := map_erase handle (m_exceptFunctions l)\<rparr>"

definition reset :: "Registration \<Rightarrow> 'cb Loop \<Rightarrow> Registration \<times> 'cb Loop" where
  "reset r l = (r\<lparr>r_type := Moved\<rparr>,
     (case r_type r of
        Moved \<Rightarrow> l
      | Read \<Rightarrow> removeRead (r_handle r) l
      | Write \<Rightarrow> removeWrite (r_handle r) l
      | Exception \<Rightarrow> removeException (r_handle r) l))"

text \<open>\<open>this = std::move(other)\<close> swaps the two; the temporary that now holds the old value of
  \<open>this\<close> dies at the end of the statement and deregisters it.\<close>

definition move_assign :: "Registration \<Rightarrow> Registration \<Rightarrow> 'cb Loop \<Rightarrow> Registration \<times> 'cb Loop" where
  "move_assign this other l = (other, snd (reset this l))"

definition move_construct :: "Registration \<Rightarrow> Registration \<times> Registration" where
  "move_construct other = (other, other\<lparr>r_type := Moved\<rparr>)"

subsection \<open>The poll vector\<close>

record pollfd =
  p_fd :: int
  p_events :: "16 word"
  p_revents :: "16 word"

definition POLLIN :: "16 word" where "POLLIN = 0x1"
definition POLLOUT :: "16 word" where "POLLOUT = 0x4"
definition POLLERR :: "16 word" where "POLLERR = 0x8"
definition POLLHUP :: "16 word" where "POLLHUP = 0x10"
definition POLLNVAL :: "16 word" where "POLLNVAL = 0x20"

definition clearFds :: "pollfd list \<Rightarrow> pollfd list" where
  "clearFds fds = map (\<lambda>fd. fd\<lparr>p_events := 0\<rparr>) fds"

definition add_event :: "16 word \<Rightarrow> int \<Rightarrow> pollfd list \<Rightarrow> pollfd list" where
  "add_event event handle fds =
     (if \<exists>fd \<in> set fds. p_fd fd = handle
      then map (\<lambda>fd. if p_fd fd = handle then fd\<lparr>p_events := p_events fd OR event\<rparr> else fd) fds
      else fds @ [\<lparr>p_fd = handle, p_events = event, p_revents = 0\<rparr>])"

definition popluateFds :: "pollfd list \<Rightarrow> (int, 'v) std_map \<Rightarrow> 16 word \<Rightarrow> pollfd list" where
  "popluateFds fds functions event = foldl (\<lambda>fds handle. add_event event handle fds) fds (map fst functions)"

definition removeFds :: "pollfd list \<Rightarrow> pollfd list" where
  "removeFds fds =
     map (\<lambda>fd. fd\<lparr>p_events := p_events fd AND NOT POLLERR\<rparr>) (filter (\<lambda>fd. p_events fd \<noteq> 0) fds)"

definition populateFds :: "'cb Loop \<Rightarrow> pollfd list \<Rightarrow> pollfd list" where
  "populateFds l fds =
     removeFds (popluateFds (popluateFds (popluateFds (clearFds fds)
       (m_readFunctions l) POLLIN) (m_writeFunctions l) POLLOUT) (m_exceptFunctions l) POLLERR)"

subsection \<open>Dispatch\<close>

definition callCallback ::
  "('cb \<Rightarrow> int \<Rightarrow> 's \<Rightarrow> 's option) \<Rightarrow> (int, 'cb \<times> int) std_map \<Rightarrow> int \<Rightarrow> 's \<Rightarrow> 's option" where
  "callCallback exec functions handle s =
     (case map_of functions handle of
        Some (callback, _) \<Rightarrow> exec callback handle s
      | None \<Rightarrow> Some s)"

definition raiseException ::
  "('s \<Rightarrow> 'cb Loop) \<Rightarrow> ('cb \<Rightarrow> int \<Rightarrow> 's \<Rightarrow> 's option) \<Rightarrow> int \<Rightarrow> 's \<Rightarrow> (bool \<times> 's) option" where
  "raiseException L exec handle s =
     (case map_of (m_exceptFunctions (L s)) handle of
        Some callback \<Rightarrow> map_option (Pair True) (exec callback handle s)
      | None \<Rightarrow> Some (False, s))"

definition dispatch_fd ::
  "('s \<Rightarrow> 'cb Loop) \<Rightarrow> ('cb \<Rightarrow> int \<Rightarrow> 's \<Rightarrow> 's option) \<Rightarrow> pollfd \<Rightarrow> 's \<Rightarrow> 's option" where
  "dispatch_fd L exec fd s = do {
     s1 \<leftarrow> (if p_revents fd AND POLLIN \<noteq> 0
            then callCallback exec (m_readFunctions (L s)) (p_fd fd) s else Some s);
     s2 \<leftarrow> (if p_revents fd AND POLLOUT \<noteq> 0
            then callCallback exec (m_writeFunctions (L s1)) (p_fd fd) s1 else Some s1);
     (if p_revents fd AND (POLLERR OR POLLHUP OR POLLNVAL) \<noteq> 0
      then map_option snd (raiseException L exec (p_fd fd) s2) else Some s2)
   }"

fun dispatch ::
  "('s \<Rightarrow> 'cb Loop) \<Rightarrow> ('cb \<Rightarrow> int \<Rightarrow> 's \<Rightarrow> 's option) \<Rightarrow> pollfd list \<Rightarrow> 's \<Rightarrow> 's option" where
  "dispatch L exec [] s = Some s"
| "dispatch L exec (fd # fds) s = do { s' \<leftarrow> dispatch_fd L exec fd s; dispatch L exec fds s' }"

subsection \<open>Time-outs\<close>

text \<open>The scan of one map, \<open>sel\<close> reading it out of the loop; \<open>rest\<close> is what the iterator has
  still to visit.  A raised time-out restarts it at \<open>begin()\<close> of the map as the handler left it.\<close>

partial_function (option) timeout_scan ::
  "('s \<Rightarrow> 'cb Loop) \<Rightarrow> ('cb \<Rightarrow> int \<Rightarrow> 's \<Rightarrow> 's option) \<Rightarrow> ('cb Loop \<Rightarrow> (int, 'cb \<times> int) std_map) \<Rightarrow>
   int \<Rightarrow> int list \<Rightarrow> int \<Rightarrow> (int, 'cb \<times> int) std_map \<Rightarrow> 's \<Rightarrow> (int \<times> 's) option" where
  "timeout_scan L exec sel now excepted earliest rest s =
     (case rest of
        [] \<Rightarrow> Some (earliest, s)
      | (handle, cb, thisTime) # rest' \<Rightarrow>
          (if thisTime \<noteq> 0 \<and> thisTime \<le> now \<and> handle \<notin> set excepted
              \<and> map_of (m_exceptFunctions (L s)) handle \<noteq> None
           then do {
             (_, s') \<leftarrow> raiseException L exec handle s;
             timeout_scan L exec sel now (excepted @ [handle]) earliest (sel (L s')) s'
           }
           else if earliest = 0 \<or> thisTime < earliest
           then timeout_scan L exec sel now excepted thisTime rest' s
           else timeout_scan L exec sel now excepted earliest rest' s))"

definition timeout_map ::
  "('s \<Rightarrow> 'cb Loop) \<Rightarrow> ('cb \<Rightarrow> int \<Rightarrow> 's \<Rightarrow> 's option) \<Rightarrow> ('cb Loop \<Rightarrow> (int, 'cb \<times> int) std_map) \<Rightarrow>
   int \<Rightarrow> 's \<Rightarrow> (int \<times> 's) option" where
  "timeout_map L exec sel now s = timeout_scan L exec sel now [] 0 (sel (L s)) s"

text \<open>The milliseconds for \<open>poll\<close>: a \<open>time_t\<close> product converted to a 32-bit \<open>int\<close>.\<close>

definition to_int32 :: "int \<Rightarrow> int" where
  "to_int32 x = (x + 2 ^ 31) mod 2 ^ 32 - 2 ^ 31"

definition poll_timeout :: "int \<Rightarrow> int \<Rightarrow> int \<Rightarrow> int" where
  "poll_timeout now earliestRead earliestWrite =
     (let earliest = (if earliestRead < earliestWrite then earliestRead else earliestWrite) in
      if earliest = 0 then - 1
      else if earliest \<le> now then 0
      else to_int32 ((earliest - now) * 1000))"

definition timeout ::
  "('s \<Rightarrow> 'cb Loop) \<Rightarrow> ('cb \<Rightarrow> int \<Rightarrow> 's \<Rightarrow> 's option) \<Rightarrow> int \<Rightarrow> 's \<Rightarrow> (int \<times> 's) option" where
  "timeout L exec now s = do {
     (earliestRead, s1) \<leftarrow> timeout_map L exec m_readFunctions now s;
     (earliestWrite, s2) \<leftarrow> timeout_map L exec m_writeFunctions now s1;
     Some (poll_timeout now earliestRead earliestWrite, s2)
   }"

subsection \<open>The loop\<close>

text \<open>Before the first \<open>poll\<close>, and the body of the \<open>while\<close> with the answers \<open>revents\<close> of a
  \<open>poll\<close> that succeeded (one per entry of \<open>fds\<close>).  Both return the vector and the time-out the
  next \<open>poll\<close> gets.\<close>

definition run_enter ::
  "('s \<Rightarrow> 'cb Loop) \<Rightarrow> ('cb \<Rightarrow> int \<Rightarrow> 's \<Rightarrow> 's option) \<Rightarrow> int \<Rightarrow> 's \<Rightarrow> (pollfd list \<times> int \<times> 's) option" where
  "run_enter L exec now s = do {
     (currentTimeout, s1) \<leftarrow> timeout L exec now s;
     Some (populateFds (L s1) [], currentTimeout, s1)
   }"

definition run_body ::
  "('s \<Rightarrow> 'cb Loop) \<Rightarrow> ('cb \<Rightarrow> int \<Rightarrow> 's \<Rightarrow> 's option) \<Rightarrow> int \<Rightarrow> 16 word list \<Rightarrow> pollfd list \<Rightarrow> 's \<Rightarrow>
   (pollfd list \<times> int \<times> 's) option" where
  "run_body L exec now revents fds s = do {
     let fds = map2 (\<lambda>fd r. fd\<lparr>p_revents := r\<rparr>) fds revents;
     s1 \<leftarrow> dispatch L exec fds s;
     let fds = populateFds (L s1) fds;
     (currentTimeout, s2) \<leftarrow> timeout L exec now s1;
     Some (fds, currentTimeout, s2)
   }"

subsection \<open>What is registered\<close>

text \<open>The handler of an event class on a handle; an exception handler has no time-out.\<close>

fun handler :: "'cb Loop \<Rightarrow> RegType \<Rightarrow> int \<Rightarrow> ('cb \<times> int) option" where
  "handler l Read h = map_of (m_readFunctions l) h"
| "handler l Write h = map_of (m_writeFunctions l) h"
| "handler l Exception h = map_option (\<lambda>cb. (cb, 0)) (map_of (m_exceptFunctions l) h)"
| "handler l Moved h = None"

definition loop_ok :: "'cb Loop \<Rightarrow> bool" where
  "loop_ok l \<longleftrightarrow> sorted_map (m_readFunctions l) \<and> sorted_map (m_writeFunctions l)
     \<and> sorted_map (m_exceptFunctions l)"

definition install :: "'cb Loop \<Rightarrow> RegType \<Rightarrow> int \<Rightarrow> ('cb \<times> int) option \<Rightarrow> RegType \<Rightarrow> int \<Rightarrow> ('cb \<times> int) option" where
  "install l t h e = (handler l)(t := (handler l t)(h := e))"

lemma install_apply: "install l t h e t' h' = (if t' = t \<and> h' = h then e else handler l t' h')"
  by (simp add: install_def)

lemma handler_except_None: "handler l Exception h = None \<longleftrightarrow> map_of (m_exceptFunctions l) h = None"
  by simp

lemma handler_eqI: "(\<And>h. handler l Read h = f Read h) \<Longrightarrow> (\<And>h. handler l Write h = f Write h) \<Longrightarrow>
    (\<And>h. handler l Exception h = f Exception h) \<Longrightarrow> (\<And>h. f Moved h = None) \<Longrightarrow> handler l = f"
  by (intro ext, rename_tac t h, case_tac t) simp_all

lemma handler_empty [simp]: "handler empty_loop t h = None"
  by (cases t) (simp_all add: empty_loop_def)

lemma loop_ok_empty [simp]: "loop_ok empty_loop"
  by (simp add: loop_ok_def empty_loop_def)

text \<open>What a client of the loop relies on, once for each of the three event classes.\<close>

locale registrar =
  fixes look :: "'l \<Rightarrow> int \<Rightarrow> 'e option"
    and reg :: "int \<Rightarrow> 'e \<Rightarrow> 'l \<Rightarrow> Registration \<times> 'l"
    and release :: "Registration \<Rightarrow> 'l \<Rightarrow> Registration \<times> 'l"
    and inv :: "'l \<Rightarrow> bool"
  assumes reg_taken: "look l h \<noteq> None \<Longrightarrow> reg h e l = (no_registration, l)"
    and reg_fresh: "inv l \<Longrightarrow> look l h = None \<Longrightarrow> reg h e l = (r, l') \<Longrightarrow>
        reg_valid r \<and> inv l' \<and> look l' = (look l)(h \<mapsto> e) \<and> look (snd (release r l'')) = (look l'')(h := None)"
    and release_invalid: "\<not> reg_valid r \<Longrightarrow> snd (release r l) = l"
begin

lemma first_registration_wins:
  assumes "inv l" and "look l h = None" and "reg h e l = (r, l')"
  shows "reg h e' l' = (no_registration, l')"
  using reg_fresh [OF assms] by (intro reg_taken) simp

lemma register_then_release:
  assumes "inv l" and "look l h = None" and "reg h e l = (r, l')"
  shows "look (snd (release r l')) = look l"
  using reg_fresh [OF assms] assms(2) by auto

lemma valid_iff_fresh: "inv l \<Longrightarrow> reg_valid (fst (reg h e l)) \<longleftrightarrow> look l h = None"
  using reg_fresh [of l h e "fst (reg h e l)" "snd (reg h e l)"] reg_taken [of l h e]
  by (cases "look l h") (auto simp: reg_valid_def no_registration_def)

end

interpretation read_reg: registrar "\<lambda>l. map_of (m_readFunctions l)" "\<lambda>h (cb, t). registerRead h cb t" reset loop_ok
  by unfold_locales
    (auto simp: registerRead_def reset_def removeRead_def reg_valid_def no_registration_def loop_ok_def
      map_simps fun_upd_def split: RegType.splits)

interpretation write_reg: registrar "\<lambda>l. map_of (m_writeFunctions l)" "\<lambda>h (cb, t). registerWrite h cb t" reset loop_ok
  by unfold_locales
    (auto simp: registerWrite_def reset_def removeWrite_def reg_valid_def no_registration_def loop_ok_def
      map_simps fun_upd_def split: RegType.splits)

interpretation except_reg: registrar "\<lambda>l. map_of (m_exceptFunctions l)" registerException reset loop_ok
  by unfold_locales
    (auto simp: registerException_def reset_def removeException_def reg_valid_def no_registration_def loop_ok_def
      map_simps fun_upd_def split: RegType.splits)

text \<open>The same facts on the whole table of handlers, for the connections.\<close>

lemma registerRead_fresh:
  assumes "loop_ok l" and "handler l Read h = None"
  shows "fst (registerRead h cb t l) = \<lparr>r_handle = h, r_type = Read\<rparr>"
    and "loop_ok (snd (registerRead h cb t l))"
    and "handler (snd (registerRead h cb t l)) = install l Read h (Some (cb, t))"
proof -
  show "fst (registerRead h cb t l) = \<lparr>r_handle = h, r_type = Read\<rparr>" "loop_ok (snd (registerRead h cb t l))"
    using assms by (simp_all add: registerRead_def loop_ok_def map_simps)
  show "handler (snd (registerRead h cb t l)) = install l Read h (Some (cb, t))"
    using assms by (intro handler_eqI) (simp_all add: registerRead_def loop_ok_def map_simps install_def)
qed

lemma registerWrite_fresh:
  assumes "loop_ok l" and "handler l Write h = None"
  shows "fst (registerWrite h cb t l) = \<lparr>r_handle = h, r_type = Write\<rparr>"
    and "loop_ok (snd (registerWrite h cb t l))"
    and "handler (snd (registerWrite h cb t l)) = install l Write h (Some (cb, t))"
proof -
  show "fst (registerWrite h cb t l) = \<lparr>r_handle = h, r_type = Write\<rparr>" "loop_ok (snd (registerWrite h cb t l))"
    using assms by (simp_all add: registerWrite_def loop_ok_def map_simps)
  show "handler (snd (registerWrite h cb t l)) = install l Write h (Some (cb, t))"
    using assms by (intro handler_eqI) (simp_all add: registerWrite_def loop_ok_def map_simps install_def)
qed

lemma registerException_fresh:
  assumes "loop_ok l" and "handler l Exception h = None"
  shows "fst (registerException h cb l) = \<lparr>r_handle = h, r_type = Exception\<rparr>"
    and "loop_ok (snd (registerException h cb l))"
    and "handler (snd (registerException h cb l)) = install l Exception h (Some (cb, 0))"
proof -
  show "fst (registerException h cb l) = \<lparr>r_handle = h, r_type = Exception\<rparr>"
    "loop_ok (snd (registerException h cb l))"
    using assms by (simp_all add: registerException_def loop_ok_def map_simps)
  show "handler (snd (registerException h cb l)) = install l Exception h (Some (cb, 0))"
    using assms by (intro handler_eqI) (simp_all add: registerException_def loop_ok_def map_simps install_def)
qed

lemma reset_fst: "fst (reset r l) = r\<lparr>r_type := Moved\<rparr>"
  by (simp add: reset_def)

lemma loop_ok_reset: "loop_ok l \<Longrightarrow> loop_ok (snd (reset r l))"
  by (cases "r_type r")
    (simp_all add: reset_def loop_ok_def removeRead_def removeWrite_def removeException_def map_simps)

lemma handler_reset:
  "handler (snd (reset r l)) = (if reg_valid r then install l (r_type r) (r_handle r) None else handler l)"
proof (cases "r_type r")
  case Moved
  then show ?thesis by (simp add: reset_def reg_valid_def)
next
  case Read
  then show ?thesis
    by (intro handler_eqI) (simp_all add: reset_def reg_valid_def removeRead_def map_simps install_def)
next
  case Write
  then show ?thesis
    by (intro handler_eqI) (simp_all add: reset_def reg_valid_def removeWrite_def map_simps install_def)
next
  case Exception
  then show ?thesis
    by (intro handler_eqI) (simp_all add: reset_def reg_valid_def removeException_def map_simps install_def)
qed

subsection \<open>The time-out scan\<close>

lemma timeout_scan_Nil [simp]: "timeout_scan L exec sel now ex e [] s = Some (e, s)"
  by (subst timeout_scan.simps) simp

lemma timeout_scan_raise:
  assumes "t \<noteq> 0" "t \<le> now" "h \<notin> set ex" "map_of (m_exceptFunctions (L s)) h = Some xcb"
  shows "timeout_scan L exec sel now ex e ((h, cb, t) # rest) s =
    Option.bind (exec xcb h s) (\<lambda>s'. timeout_scan L exec sel now (ex @ [h]) e (sel (L s')) s')"
  using assms by (subst timeout_scan.simps) (cases "exec xcb h s"; simp add: raiseException_def)

lemma timeout_scan_skip:
  assumes "t = 0 \<or> now < t \<or> h \<in> set ex \<or> map_of (m_exceptFunctions (L s)) h = None"
  shows "timeout_scan L exec sel now ex e ((h, cb, t) # rest) s =
    timeout_scan L exec sel now ex (if e = 0 \<or> t < e then t else e) rest s"
  using assms by (subst timeout_scan.simps) auto

text \<open>The entries of a map whose time has come and whose handle can be told so.\<close>

definition overdue :: "int \<Rightarrow> ('cb Loop \<Rightarrow> (int, 'cb \<times> int) std_map) \<Rightarrow> 'cb Loop \<Rightarrow> int set" where
  "overdue now sel l = {h. (\<exists>cb t. (h, cb, t) \<in> set (sel l) \<and> t \<noteq> 0 \<and> t \<le> now)
     \<and> map_of (m_exceptFunctions l) h \<noteq> None}"

definition deadlines :: "(int, 'cb \<times> int) std_map \<Rightarrow> int list" where
  "deadlines m = map (\<lambda>e. snd (snd e)) m"

fun earliest_from :: "int \<Rightarrow> int list \<Rightarrow> int" where
  "earliest_from e [] = e"
| "earliest_from e (t # ts) = earliest_from (if e = 0 \<or> t < e then t else e) ts"

lemma overdue_keys: "overdue now sel l \<subseteq> fst ` set (sel l)"
  by (auto simp: overdue_def intro: rev_image_eqI)

lemma finite_overdue [simp]: "finite (overdue now sel l)"
  by (rule finite_subset [OF overdue_keys]) simp

lemma scan_quiet:
  "\<forall>(h, cb, t) \<in> set rest. t = 0 \<or> now < t \<or> h \<in> set ex \<or> map_of (m_exceptFunctions (L s)) h = None \<Longrightarrow>
   timeout_scan L exec sel now ex e rest s = Some (earliest_from e (deadlines rest), s)"
proof (induction rest arbitrary: e)
  case (Cons x rest)
  obtain h cb t where x: "x = (h, cb, t)" by (cases x)
  from Cons.prems x have q: "t = 0 \<or> now < t \<or> h \<in> set ex \<or> map_of (m_exceptFunctions (L s)) h = None" by simp
  from Cons.prems show ?case
    unfolding x timeout_scan_skip [where L = L and s = s and h = h and ex = ex, OF q]
    by (simp add: Cons.IH deadlines_def)
qed (simp add: deadlines_def)

lemma timeout_map_quiet:
  assumes "overdue now sel (L s) = {}"
  shows "timeout_map L exec sel now s = Some (earliest_from 0 (deadlines (sel (L s))), s)"
  unfolding timeout_map_def using assms by (intro scan_quiet) (force simp: overdue_def)

lemma earliest_from_pos:
  "0 < e \<Longrightarrow> \<forall>t \<in> set ts. 0 < t \<Longrightarrow> earliest_from e ts = Min (insert e (set ts))"
proof (induction ts arbitrary: e)
  case (Cons t ts)
  have "earliest_from e (t # ts) = Min (insert (min t e) (set ts))"
    using Cons.prems Cons.IH [of "min t e"] by (auto simp: min_def)
  also have "\<dots> = Min (insert e (set (t # ts)))"
    by (cases "ts = []") (simp_all add: min.commute min.left_commute min.assoc)
  finally show ?case .
qed simp

lemma earliest_from_Min:
  assumes "ts \<noteq> []" "\<forall>t \<in> set ts. 0 < t"
  shows "earliest_from 0 ts = Min (set ts)"
  using assms by (cases ts) (simp_all add: earliest_from_pos)

text \<open>The scan ends and leaves nothing overdue, when telling a handle that its time has come takes the
  handle out of the map and no handler adds an entry that is overdue already.\<close>

lemma scan_clears:
  assumes ord: "\<And>s. I s \<Longrightarrow> sorted_map (sel (L s))"
    and step: "\<And>s h xcb. I s \<Longrightarrow> h \<in> overdue now sel (L s) \<Longrightarrow>
        map_of (m_exceptFunctions (L s)) h = Some xcb \<Longrightarrow>
        \<exists>s'. exec xcb h s = Some s' \<and> I s' \<and> overdue now sel (L s') \<subseteq> overdue now sel (L s) - {h}"
    and "I s" and "sel (L s) = pre @ rest" and "set ex \<inter> overdue now sel (L s) = {}"
    and "fst ` set pre \<inter> overdue now sel (L s) = {}"
  shows "\<exists>e' s'. timeout_scan L exec sel now ex e rest s = Some (e', s') \<and> I s'
    \<and> overdue now sel (L s') = {}"
  using assms(3-)
proof (induction "card (overdue now sel (L s))" arbitrary: s pre rest ex e rule: less_induct)
  case less
  from less.prems show ?case
  proof (induction rest arbitrary: pre e)
    case Nil
    have "overdue now sel (L s) \<subseteq> fst ` set pre"
      using overdue_keys [of now sel "L s"] Nil.prems(2) by simp
    with Nil.prems(1,4) show ?case by auto
  next
    case (Cons x rest)
    obtain h cb t where x: "x = (h, cb, t)" by (cases x)
    show ?case
    proof (cases "h \<in> overdue now sel (L s) \<and> t \<noteq> 0 \<and> t \<le> now")
      case True
      then have hd: "h \<in> overdue now sel (L s)" by simp
      then obtain xcb where xcb: "map_of (m_exceptFunctions (L s)) h = Some xcb"
        by (auto simp: overdue_def)
      from step [OF Cons.prems(1) hd xcb] obtain s' where s': "exec xcb h s = Some s'" "I s'"
        "overdue now sel (L s') \<subseteq> overdue now sel (L s) - {h}" by blast
      have less: "card (overdue now sel (L s')) < card (overdue now sel (L s))"
        using s'(3) hd by (intro psubset_card_mono) auto
      have r: "timeout_scan L exec sel now ex e (x # rest) s =
          timeout_scan L exec sel now (ex @ [h]) e (sel (L s')) s'"
        using timeout_scan_raise [of t now h ex L s xcb exec sel e cb rest] True Cons.prems(3) xcb s'(1)
        by (auto simp: x)
      have "set (ex @ [h]) \<inter> overdue now sel (L s') = {}" using s'(3) Cons.prems(3) by auto
      from less.hyps [OF less s'(2) _ this, of "[]" "sel (L s')" e] show ?thesis
        unfolding r by simp
    next
      case False
      have entry: "(h, cb, t) \<in> set (sel (L s))" by (simp add: Cons.prems(2) x)
      then have q: "t = 0 \<or> now < t \<or> h \<in> set ex \<or> map_of (m_exceptFunctions (L s)) h = None"
        using False unfolding overdue_def by force
      have "cb' = cb \<and> t' = t" if "(h, cb', t') \<in> set (sel (L s))" for cb' t'
        using that entry by (simp add: sorted_map_entry [OF ord [OF Cons.prems(1)]])
      then have "h \<notin> overdue now sel (L s)" using False by (auto simp: overdue_def)
      then have "fst ` set (pre @ [x]) \<inter> overdue now sel (L s) = {}"
        using Cons.prems(4) by (auto simp: x)
      from Cons.IH [of "pre @ [x]", OF Cons.prems(1) _ Cons.prems(3) this] show ?thesis
        unfolding x timeout_scan_skip [where L = L and s = s and h = h and ex = ex, OF q] by (simp add: Cons.prems(2) x)
    qed
  qed
qed

lemma timeout_map_clears:
  assumes "\<And>s. I s \<Longrightarrow> sorted_map (sel (L s))"
    and "\<And>s h xcb. I s \<Longrightarrow> h \<in> overdue now sel (L s) \<Longrightarrow>
        map_of (m_exceptFunctions (L s)) h = Some xcb \<Longrightarrow>
        \<exists>s'. exec xcb h s = Some s' \<and> I s' \<and> overdue now sel (L s') \<subseteq> overdue now sel (L s) - {h}"
    and "I s"
  shows "\<exists>e s'. timeout_map L exec sel now s = Some (e, s') \<and> I s' \<and> overdue now sel (L s') = {}"
  unfolding timeout_map_def by (rule scan_clears [of I sel L now exec s "[]"]) (use assms in auto)

lemma to_int32_id: "- (2 ^ 31) \<le> x \<Longrightarrow> x < 2 ^ 31 \<Longrightarrow> to_int32 x = x"
  by (simp add: to_int32_def)

subsection \<open>The poll vector\<close>

definition events_of :: "pollfd list \<Rightarrow> int \<Rightarrow> 16 word option" where
  "events_of fds = map_of (map (\<lambda>fd. (p_fd fd, p_events fd)) fds)"

lemma map_fd_add_event:
  "map p_fd (add_event ev h fds) = (if h \<in> p_fd ` set fds then map p_fd fds else map p_fd fds @ [h])"
  by (auto simp: add_event_def)

lemma distinct_add_event: "distinct (map p_fd fds) \<Longrightarrow> distinct (map p_fd (add_event ev h fds))"
  by (simp add: map_fd_add_event)

lemma events_of_None: "events_of fds h = None \<longleftrightarrow> (\<forall>fd \<in> set fds. p_fd fd \<noteq> h)"
  by (auto simp: events_of_def map_of_eq_None_iff image_iff)

lemma events_of_map:
  "(\<And>fd. p_fd (f fd) = p_fd fd \<and> p_events (f fd) = g (p_fd fd) (p_events fd)) \<Longrightarrow>
   events_of (map f fds) h = map_option (g h) (events_of fds h)"
  by (induction fds) (auto simp: events_of_def)

lemma events_add_event:
  "events_of (add_event ev h fds) j =
     (if j = h then Some (case events_of fds h of None \<Rightarrow> ev | Some e \<Rightarrow> e OR ev) else events_of fds j)"
proof (cases "events_of fds h")
  case None
  then have "add_event ev h fds = fds @ [\<lparr>p_fd = h, p_events = ev, p_revents = 0\<rparr>]"
    by (auto simp: add_event_def events_of_None)
  with None show ?thesis by (simp add: events_of_def map_add_def split: option.splits)
next
  case (Some e)
  then have "\<exists>fd \<in> set fds. p_fd fd = h" using events_of_None [of fds h] by auto
  then show ?thesis
    using Some events_of_map [of "\<lambda>fd. if p_fd fd = h then fd\<lparr>p_events := p_events fd OR ev\<rparr> else fd"
        "\<lambda>i e. if i = h then e OR ev else e" fds j]
    by (cases "events_of fds j") (auto simp: add_event_def)
qed

lemma distinct_popluateFds: "distinct (map p_fd fds) \<Longrightarrow> distinct (map p_fd (popluateFds fds m ev))"
  by (induction m arbitrary: fds) (simp_all add: popluateFds_def distinct_add_event)

lemma events_popluateFds:
  "distinct (map fst m) \<Longrightarrow> events_of (popluateFds fds m ev) j =
     (if map_of m j = None then events_of fds j
      else Some (case events_of fds j of None \<Rightarrow> ev | Some e \<Rightarrow> e OR ev))"
proof (induction m arbitrary: fds)
  case (Cons x m)
  obtain k v where x: "x = (k, v)" by (cases x)
  have "popluateFds fds (x # m) ev = popluateFds (add_event ev k fds) m ev"
    by (simp add: popluateFds_def x)
  then show ?case
    using Cons by (auto simp: x events_add_event map_of_eq_None_iff image_iff)
qed (simp add: popluateFds_def)

lemma events_clearFds: "events_of (clearFds fds) h = map_option (\<lambda>e. 0) (events_of fds h)"
  unfolding clearFds_def by (rule events_of_map) simp

lemma events_removeFds:
  assumes "distinct (map p_fd fds)"
  shows "events_of (removeFds fds) h =
    (case events_of fds h of None \<Rightarrow> None
     | Some e \<Rightarrow> if e = 0 then None else Some (e AND NOT POLLERR))"
  using assms
proof (induction fds)
  case (Cons fd fds)
  have "events_of fds (p_fd fd) = None"
    using Cons.prems unfolding events_of_None by simp (metis imageI)
  with Cons show ?case
    by (auto simp: events_of_def removeFds_def split: option.splits)
qed (simp add: events_of_def removeFds_def)

lemma distinct_removeFds: "distinct (map p_fd fds) \<Longrightarrow> distinct (map p_fd (removeFds fds))"
  by (auto simp: removeFds_def o_def intro: distinct_map_filter)

lemma poll_events_distinct_bits:
  "POLLIN \<noteq> 0" "POLLOUT \<noteq> 0" "POLLERR \<noteq> 0" "POLLIN OR POLLOUT \<noteq> 0"
  "POLLIN OR POLLERR \<noteq> 0" "POLLOUT OR POLLERR \<noteq> 0" "POLLIN OR POLLOUT OR POLLERR \<noteq> 0"
  "POLLIN AND NOT POLLERR = POLLIN" "POLLOUT AND NOT POLLERR = POLLOUT" "POLLERR AND NOT POLLERR = 0"
  "(POLLIN OR POLLOUT) AND NOT POLLERR = POLLIN OR POLLOUT" "(POLLIN OR POLLERR) AND NOT POLLERR = POLLIN"
  "(POLLOUT OR POLLERR) AND NOT POLLERR = POLLOUT"
  "(POLLIN OR POLLOUT OR POLLERR) AND NOT POLLERR = POLLIN OR POLLOUT"
  by (simp_all add: POLLIN_def POLLOUT_def POLLERR_def)

definition wanted :: "'cb Loop \<Rightarrow> int \<Rightarrow> 16 word option" where
  "wanted l h =
     (if handler l Read h = None \<and> handler l Write h = None \<and> handler l Exception h = None then None
      else Some ((if handler l Read h = None then 0 else POLLIN) OR
                 (if handler l Write h = None then 0 else POLLOUT)))"

subsection \<open>Properties of the loop\<close>

text \<open>
  Property C18 (functional). Whatever the vector held before, after \<open>populateFds\<close> it has one entry per
  handle and exactly the handles with some handler; an entry asks for POLLIN and POLLOUT according to
  its read and write handlers, and for nothing else (errors are reported without asking).
\<close>

theorem populateFds_exact:
  assumes "loop_ok l" and "distinct (map p_fd fds)"
  shows "events_of (populateFds l fds) = wanted l \<and> distinct (map p_fd (populateFds l fds))"
proof
  have d: "distinct (map fst (m_readFunctions l))" "distinct (map fst (m_writeFunctions l))"
    "distinct (map fst (m_exceptFunctions l))"
    using assms(1) by (simp_all add: loop_ok_def sorted_map_distinct)
  have c: "distinct (map p_fd (clearFds fds))" using assms(2) by (simp add: clearFds_def o_def)
  show "distinct (map p_fd (populateFds l fds))"
    unfolding populateFds_def by (intro distinct_removeFds distinct_popluateFds c)
  show "events_of (populateFds l fds) = wanted l"
  proof
    fix h
    show "events_of (populateFds l fds) h = wanted l h"
      unfolding populateFds_def
      by (subst events_removeFds, intro distinct_popluateFds c)
        (cases "map_of (m_readFunctions l) h"; cases "map_of (m_writeFunctions l) h";
          cases "map_of (m_exceptFunctions l) h"; cases "events_of fds h";
          simp add: events_popluateFds d events_clearFds wanted_def poll_events_distinct_bits or.assoc)
  qed
qed

theorem populateFds_exact_witness:
  "events_of (populateFds (snd (registerRead 5 () 0 (snd (registerException 5 () empty_loop)))) []) 5 = Some POLLIN"
proof -
  let ?l = "snd (registerRead 5 () 0 (snd (registerException 5 () empty_loop)))"
  have "loop_ok ?l" by (simp add: registerRead_def registerException_def empty_loop_def loop_ok_def sorted_map_def)
  from populateFds_exact [OF this, of "[]"] show ?thesis
    by (simp add: wanted_def registerRead_def registerException_def empty_loop_def)
qed

text \<open>
  With nothing overdue and every handler of both maps timed, the loop sleeps
  exactly until the earliest of the times; with time-outs up to 65535 seconds ahead the product fits the
  \<open>int\<close> that \<open>poll\<close> takes.
\<close>

lemma timeout_until_next:
  assumes "overdue now m_readFunctions (L s) = {}" and "overdue now m_writeFunctions (L s) = {}"
    and "m_readFunctions (L s) \<noteq> []" and "m_writeFunctions (L s) \<noteq> []"
    and "\<forall>t \<in> set (deadlines (m_readFunctions (L s)) @ deadlines (m_writeFunctions (L s))). now < t \<and> t \<le> now + 65535"
    and "0 \<le> now"
  shows "timeout L exec now s =
    Some ((Min (set (deadlines (m_readFunctions (L s)) @ deadlines (m_writeFunctions (L s)))) - now) * 1000, s)"
proof -
  let ?r = "deadlines (m_readFunctions (L s))" and ?w = "deadlines (m_writeFunctions (L s))"
  have ne: "?r \<noteq> []" "?w \<noteq> []" using assms(3,4) by (simp_all add: deadlines_def)
  have "\<forall>t \<in> set (?r @ ?w). 0 < t" using assms(5,6) by (meson le_less_trans)
  then have pos: "\<forall>t \<in> set ?r. 0 < t" "\<forall>t \<in> set ?w. 0 < t" by auto
  let ?m = "Min (set (?r @ ?w))"
  have m: "min (Min (set ?r)) (Min (set ?w)) = ?m"
    using ne by (simp add: Min_Un)
  have "?m \<in> set (?r @ ?w)" using ne by (intro Min_in) auto
  then have rng: "now < ?m" "?m \<le> now + 65535" using assms(5) by auto
  have "timeout L exec now s = Some (poll_timeout now (Min (set ?r)) (Min (set ?w)), s)"
    using ne pos by (simp add: timeout_def timeout_map_quiet assms(1,2) earliest_from_Min)
  also have "poll_timeout now (Min (set ?r)) (Min (set ?w)) = to_int32 ((?m - now) * 1000)"
    using rng assms(6) m unfolding poll_timeout_def by (simp add: Let_def min_def split: if_splits)
  also have "\<dots> = (?m - now) * 1000" using rng by (intro to_int32_id) auto
  finally show ?thesis .
qed

text \<open>
  Property C37 (error). With no write handler registered the earliest time of the write map counts as 0,
  the minimum of the two is 0, and the loop sleeps without a limit, however close the time-out of a read
  handler is: a forwarder that never answers (nothing to write, one read pending) is not given up until
  some other event wakes the loop.
\<close>

theorem pending_timeout_is_missed:
  assumes "overdue now m_readFunctions (L s) = {}" and "m_writeFunctions (L s) = []"
    and "\<forall>t \<in> set (deadlines (m_readFunctions (L s))). 0 \<le> t"
  shows "timeout L exec now s = Some (- 1, s)"
proof -
  have w: "overdue now m_writeFunctions (L s) = {}" using assms(2) by (simp add: overdue_def)
  have "0 \<le> earliest_from e ts" if "0 \<le> e" "\<forall>t \<in> set ts. 0 \<le> t" for e ts
    using that by (induction e ts rule: earliest_from.induct) auto
  then have "0 \<le> earliest_from 0 (deadlines (m_readFunctions (L s)))" using assms(3) by simp
  then show ?thesis
    using assms(2) w by (simp add: timeout_def timeout_map_quiet assms(1) poll_timeout_def deadlines_def)
qed

theorem pending_timeout_is_missed_witness:
  "timeout id (\<lambda>cb h l. Some l) 100 \<lparr>m_readFunctions = [(4, (), 105)], m_writeFunctions = [],
     m_exceptFunctions = [(4, ())]\<rparr> = Some (- 1, \<lparr>m_readFunctions = [(4, (), 105)], m_writeFunctions = [],
     m_exceptFunctions = [(4, ())]\<rparr>)"
  by (rule pending_timeout_is_missed) (simp_all add: overdue_def deadlines_def)

text \<open>From here on the table of handlers is used through \<open>install_apply\<close> and the facts on registering.\<close>

declare handler.simps(1-3) [simp del]

end
