(* ===== verification/Addresses.thy ===== *)
theory Addresses
  imports Dote_Prelude
begin

text \<open>
  The data every part of the program passes around: socket addresses, and the forwarder and server
  entries of the configuration (\<open>src/include/config_parser.h\<close>).

  A \<open>sockaddr_storage\<close> is the record of the fields that the code reads or writes through its casts to
  \<open>sockaddr_in\<close> and \<open>sockaddr_in6\<close>.  The two views overlap in memory; no path of the program reads
  an address through the view of the other family, so they are separate fields here.  Numbers in
  \<open>sin_addr\<close>, \<open>sin6_addr\<close> and the port are host numbers, the byte swapping being done by the
  accessors.
\<close>

datatype family = AF_UNSPEC | AF_INET | AF_INET6

record sockaddr_storage =
  ss_family :: family
  sin_port :: u16
  sin_addr :: "32 word"
  sin6_addr :: "128 word"

definition unspec_addr :: sockaddr_storage where
  "unspec_addr = \<lparr>ss_family = AF_UNSPEC, sin_port = 0, sin_addr = 0, sin6_addr = 0\<rparr>"

definition inet_addr :: "32 word \<Rightarrow> u16 \<Rightarrow> sockaddr_storage" where
  "inet_addr a port = \<lparr>ss_family = AF_INET, sin_port = port, sin_addr = a, sin6_addr = 0\<rparr>"

definition inet6_addr :: "128 word \<Rightarrow> u16 \<Rightarrow> sockaddr_storage" where
  "inet6_addr a port = \<lparr>ss_family = AF_INET6, sin_port = port, sin_addr = 0, sin6_addr = a\<rparr>"

record Forwarder =
  remote :: sockaddr_storage
  disablePki :: bool
  host :: string
  pin :: bytes

record Server =
  address :: sockaddr_storage

end
