(* ===== verification/Forwarder_Config.thy ===== *)
theory Forwarder_Config
  imports Addresses
begin

text \<open>
  \<open>src/src/forwarder_config.cpp\<close>: the list of forwarders in the order of preference, and the
  fail-over that moves a bad one to the end.  \<open>get() == end()\<close> is \<open>None\<close>.
\<close>

record ForwarderConfig =
  m_timeout :: int
  m_forwarders :: "Forwarder list"

definition new_config :: ForwarderConfig where
  "new_config = \<lparr>m_timeout = 5, m_forwarders = []\<rparr>"

definition clear :: "ForwarderConfig \<Rightarrow> ForwarderConfig" where
  "clear c = c\<lparr>m_forwarders := []\<rparr>"

definition addForwarder :: "Forwarder \<Rightarrow> ForwarderConfig \<Rightarrow> ForwarderConfig" where
  "addForwarder f c = c\<lparr>m_forwarders := m_forwarders c @ [f]\<rparr>"

definition get_forwarder :: "ForwarderConfig \<Rightarrow> Forwarder option" where
  "get_forwarder c = (case m_forwarders c of [] \<Rightarrow> None | f # _ \<Rightarrow> Some f)"

text \<open>\<open>memcmp\<close> of the whole \<open>remote\<close>; the first match is rotated behind the last entry.\<close>

fun rotate_bad :: "sockaddr_storage \<Rightarrow> Forwarder list \<Rightarrow> Forwarder list" where
  "rotate_bad a [] = []"
| "rotate_bad a (f # fs) = (if remote f = a then fs @ [f] else f # rotate_bad a fs)"

definition setBad :: "Forwarder \<Rightarrow> ForwarderConfig \<Rightarrow> ForwarderConfig" where
  "setBad f c = c\<lparr>m_forwarders := rotate_bad (remote f) (m_forwarders c)\<rparr>"

definition setTimeout :: "int \<Rightarrow> ForwarderConfig \<Rightarrow> ForwarderConfig" where
  "setTimeout t c = c\<lparr>m_timeout := t\<rparr>"

subsection \<open>Fail-over\<close>

lemma rotate_bad_mset: "mset (rotate_bad a fs) = mset fs"
  by (induction fs) auto

lemma rotate_bad_append:
  "a \<notin> remote ` set fs \<Longrightarrow> rotate_bad a (fs @ f # gs) = (if remote f = a then fs @ gs @ [f] else fs @ f # rotate_bad a gs)"
  by (induction fs) auto

lemma rotate_bad_notin: "a \<notin> remote ` set fs \<Longrightarrow> rotate_bad a fs = fs"
  by (induction fs) auto

lemma rotate_bad_head: "rotate_bad (remote f) (f # fs) = fs @ [f]"
  by simp

text \<open>What the connections need of a source of forwarders: giving one up loses none, adds none, and a
  source that has a forwarder always offers one.\<close>

locale forwarder_source =
  fixes offer :: "'c \<Rightarrow> Forwarder option"
    and bad :: "Forwarder \<Rightarrow> 'c \<Rightarrow> 'c"
    and pool :: "'c \<Rightarrow> Forwarder multiset"
  assumes pool_bad: "pool (bad f c) = pool c"
    and offer_pool: "offer c = Some f \<Longrightarrow> f \<in># pool c"
    and offer_none: "offer c = None \<longleftrightarrow> pool c = {#}"
begin

lemma pool_bads: "pool (foldr bad fs c) = pool c"
  by (induction fs) (simp_all add: pool_bad)

lemma still_offers: "offer c \<noteq> None \<Longrightarrow> offer (foldr bad fs c) \<noteq> None"
  by (simp add: offer_none pool_bads)

lemma offers_known: "offer (foldr bad fs c) = Some f \<Longrightarrow> f \<in># pool c"
  using offer_pool [of "foldr bad fs c" f] by (simp add: pool_bads)

end

interpretation fwd: forwarder_source get_forwarder setBad "\<lambda>c. mset (m_forwarders c)"
  by unfold_locales
    (auto simp: setBad_def rotate_bad_mset get_forwarder_def split: list.splits)

text \<open>Giving up the offered forwarder \<open>n\<close> times in a row.\<close>

primrec give_up :: "nat \<Rightarrow> ForwarderConfig \<Rightarrow> ForwarderConfig" where
  "give_up 0 c = c"
| "give_up (Suc n) c = (case get_forwarder c of None \<Rightarrow> c | Some f \<Rightarrow> give_up n (setBad f c))"

lemma give_up_rotate: "m_forwarders (give_up n c) = rotate n (m_forwarders c)"
proof (induction n arbitrary: c)
  case (Suc n)
  then show ?case
    by (cases "m_forwarders c") (simp_all add: get_forwarder_def setBad_def rotate1_rotate_swap)
qed simp

subsection \<open>Properties of the configuration\<close>

text \<open>
  Whatever sequence of forwarders is reported bad, in whatever order and however
  often, no configured forwarder is lost or duplicated, and as long as one was configured one is offered.
\<close>

lemma failover_keeps_forwarders:
  "mset (m_forwarders (foldr setBad bads c)) = mset (m_forwarders c)
   \<and> (get_forwarder (foldr setBad bads c) = None \<longleftrightarrow> m_forwarders c = [])"
proof
  show p: "mset (m_forwarders (foldr setBad bads c)) = mset (m_forwarders c)" by (rule fwd.pool_bads)
  show "get_forwarder (foldr setBad bads c) = None \<longleftrightarrow> m_forwarders c = []"
    using p by (simp add: fwd.offer_none)
qed

text \<open>
  Property C33 (functional). Every forwarder gets its turn: giving up the offered forwarder \<open>n\<close> times
  offers the \<open>n\<close>-th of the configured ones, round robin, and after all of them the first one again.
\<close>

theorem failover_round_robin:
  assumes "m_forwarders c \<noteq> []"
  shows "get_forwarder (give_up n c) = Some (m_forwarders c ! (n mod length (m_forwarders c)))"
proof -
  have "rotate n (m_forwarders c) \<noteq> []" using assms by simp
  then have "get_forwarder (give_up n c) = Some (hd (rotate n (m_forwarders c)))"
    by (simp add: get_forwarder_def give_up_rotate split: list.splits)
  also have "hd (rotate n (m_forwarders c)) = m_forwarders c ! (n mod length (m_forwarders c))"
    using assms by (rule hd_rotate_conv_nth)
  finally show ?thesis .
qed

definition forwarder_at :: "32 word \<Rightarrow> Forwarder" where
  "forwarder_at a = \<lparr>remote = inet_addr a 853, disablePki = False, host = '''', pin = []\<rparr>"

theorem failover_round_robin_witness:
  "get_forwarder (give_up 4 \<lparr>m_timeout = 5, m_forwarders = [forwarder_at 1, forwarder_at 2, forwarder_at 3]\<rparr>)
   = Some (forwarder_at 2)"
  using failover_round_robin [of "\<lparr>m_timeout = 5, m_forwarders = [forwarder_at 1, forwarder_at 2, forwarder_at 3]\<rparr>" 4]
  by simp

end
