(* ===== verification/World.thy ===== *)
theory World
  imports Event_Loop Forwarder_Config
begin

text \<open>
  What the components share at run time: the state of the process outside its own objects (open
  handles, the event loop, the forwarder configuration, the cached TLS session) and the operating
  system and OpenSSL as an environment.

  The environment is an argument: a record of functions from the number of the call to its answer.  Every
  call takes a fresh number (\<open>w_tick\<close>), so the answers to any run of the program are those of some
  environment, and a statement for all environments covers every behaviour of the outside.  What POSIX and
  OpenSSL document and the program relies on is \<open>env_ok\<close>: a new handle is \<open>-1\<close> or a handle that is
  not open, and \<open>SSL_read\<close> and \<open>recvmsg\<close> fill at most the buffer they are given.  Whether plain
  \<open>char\<close> is signed is part of it too.
\<close>

text \<open>A control message, with the address and the index that the code reads out of or writes into
  \<open>in_pktinfo\<close> (\<open>ipi_addr\<close> of a received one, \<open>ipi_spec_dst\<close> of a sent one) and \<open>in6_pktinfo\<close>, and what one \<open>recvmsg\<close>
  delivers: an error, or a source, control messages, the truncation flag and the bytes.\<close>

record cmsg =
  cm_level :: int
  cm_type :: int
  cm_addr4 :: "32 word"
  cm_addr6 :: "128 word"
  cm_ifindex :: int

record received =
  rm_from :: sockaddr_storage
  rm_control :: "cmsg list"
  rm_trunc :: bool
  rm_data :: bytes

record env =
  e_char_signed :: bool
  e_time :: "nat \<Rightarrow> int"
  e_socket :: "nat \<Rightarrow> int \<Rightarrow> int \<Rightarrow> int list \<Rightarrow> int"
  e_getfl :: "nat \<Rightarrow> int"
  e_setfl :: "nat \<Rightarrow> int"
  e_setsockopt :: "nat \<Rightarrow> int"
  e_connect :: "nat \<Rightarrow> sockaddr_storage \<Rightarrow> int"
  e_bind :: "nat \<Rightarrow> sockaddr_storage \<Rightarrow> int"
  e_errno :: "nat \<Rightarrow> int"
  e_sendmsg :: "nat \<Rightarrow> int"
  e_recvmsg :: "nat \<Rightarrow> received option"
  e_ssl_new :: "nat \<Rightarrow> bool"
  e_ssl_connect :: "nat \<Rightarrow> int"
  e_ssl_shutdown :: "nat \<Rightarrow> int"
  e_ssl_write :: "nat \<Rightarrow> bytes \<Rightarrow> int"
  e_ssl_read :: "nat \<Rightarrow> int \<times> bytes"
  e_ssl_error :: "nat \<Rightarrow> int"
  e_ssl_session :: "nat \<Rightarrow> nat option"
  e_inotify_init :: "nat \<Rightarrow> int list \<Rightarrow> int"
  e_add_watch :: "nat \<Rightarrow> int"
  e_reloads :: "nat \<Rightarrow> Forwarder list list"

abbreviation (input) MAX_FRAME :: nat where "MAX_FRAME \<equiv> 16 * 1024"

definition env_ok :: "env \<Rightarrow> bool" where
  "env_ok env \<longleftrightarrow>
     (\<forall>n d t hs. e_socket env n d t hs = -1 \<or> 0 \<le> e_socket env n d t hs \<and> e_socket env n d t hs \<notin> set hs)
     \<and> (\<forall>n hs. e_inotify_init env n hs = -1 \<or> 0 \<le> e_inotify_init env n hs \<and> e_inotify_init env n hs \<notin> set hs)
     \<and> (\<forall>n. fst (e_ssl_read env n) \<le> int (length (snd (e_ssl_read env n)))
          \<and> length (snd (e_ssl_read env n)) \<le> MAX_FRAME)
     \<and> (\<forall>n m. e_recvmsg env n = Some m \<longrightarrow> length (rm_data m) \<le> 512)"

text \<open>The functions bound into the loop: methods of the connection object with the given address,
  \<open>Server::handleDnsRequest\<close> and \<open>VyattaCheck::handleRead\<close>.\<close>

datatype callback =
  Cb_connect nat | Cb_incoming nat | Cb_outgoing nat | Cb_shutdown nat | Cb_exception nat | Cb_server | Cb_config

record world =
  w_tick :: nat
  w_open :: "int list"
  w_loop :: "callback Loop"
  w_config :: ForwarderConfig
  w_context :: bool
  w_session :: "nat option"

text \<open>One call of the environment: its answer and the world with the next call number.\<close>

definition call :: "(nat \<Rightarrow> 'a) \<Rightarrow> world \<Rightarrow> 'a \<times> world" where
  "call f w = (f (w_tick w), w\<lparr>w_tick := Suc (w_tick w)\<rparr>)"

text \<open>What is left of a world once the call counter is forgotten.\<close>

definition same_but_tick :: "world \<Rightarrow> world \<Rightarrow> bool" where
  "same_but_tick w w' \<longleftrightarrow> w_open w' = w_open w \<and> w_loop w' = w_loop w \<and> w_config w' = w_config w
     \<and> w_context w' = w_context w \<and> w_session w' = w_session w"

lemma same_but_tick_refl [simp]: "same_but_tick w w"
  by (simp add: same_but_tick_def)

lemma same_but_tick_trans: "same_but_tick w w' \<Longrightarrow> same_but_tick w' w'' \<Longrightarrow> same_but_tick w w''"
  by (simp add: same_but_tick_def)

lemma same_but_tick_call: "call f w = (r, w') \<Longrightarrow> same_but_tick w w'"
  by (auto simp: call_def same_but_tick_def)

subsection \<open>A concrete environment\<close>

text \<open>Used by the witnesses: every call succeeds, handles are numbered upwards from 3.\<close>

definition calm_env :: env where
  "calm_env = \<lparr>e_char_signed = True, e_time = \<lambda>n. 1000, e_socket = \<lambda>n d t hs. 1 + foldr max hs 2, e_getfl = \<lambda>n. 0,
     e_setfl = \<lambda>n. 0, e_setsockopt = \<lambda>n. 0, e_connect = \<lambda>n a. 0, e_bind = \<lambda>n a. 0, e_errno = \<lambda>n. 0,
     e_sendmsg = \<lambda>n. 0, e_recvmsg = \<lambda>n. None, e_ssl_new = \<lambda>n. True, e_ssl_connect = \<lambda>n. 1, e_ssl_shutdown = \<lambda>n. 1,
     e_ssl_write = \<lambda>n b. int (length b), e_ssl_read = \<lambda>n. (0, []), e_ssl_error = \<lambda>n. 0,
     e_ssl_session = \<lambda>n. None, e_inotify_init = \<lambda>n hs. -1, e_add_watch = \<lambda>n. 0, e_reloads = \<lambda>n. []\<rparr>"

lemma foldr_max_bound: "(h::int) \<in> set hs \<Longrightarrow> h \<le> foldr max hs b" "b \<le> foldr max hs b"
  by (induction hs) auto

lemma env_ok_calm: "env_ok calm_env"
proof -
  have "0 \<le> 1 + foldr max hs (2::int) \<and> 1 + foldr max hs 2 \<notin> set hs" for hs
    using foldr_max_bound(2) [of 2 hs] foldr_max_bound(1) [of "1 + foldr max hs 2" hs 2] by auto
  then show ?thesis by (simp add: env_ok_def calm_env_def)
qed

definition new_world :: world where
  "new_world = \<lparr>w_tick = 0, w_open = [], w_loop = empty_loop, w_config = new_config, w_context = True,
     w_session = None\<rparr>"

end
