(* ===== verification/Sockets.thy ===== *)
theory Sockets
  imports World
begin

text \<open>
  \<open>src/src/socket.cpp\<close>: the wrapper of a handle, its two factories and \<open>enablePacketInfo\<close>.  A
  \<open>shared_ptr\<close> that is \<open>nullptr\<close> is \<open>None\<close>; the handle is closed when its last owner lets
  it go, which the factories do on failure.  The constants are those of Linux.
\<close>

datatype SocketType = TCP | UDP

record Socket =
  m_handle :: int
  m_domain :: int

definition SOCK_STREAM :: int where "SOCK_STREAM = 1"
definition SOCK_DGRAM :: int where "SOCK_DGRAM = 2"
definition PF_INET :: int where "PF_INET = 2"
definition PF_INET6 :: int where "PF_INET6 = 10"
definition EINPROGRESS :: int where "EINPROGRESS = 115"
definition SOL_IP :: int where "SOL_IP = 0"
definition IPPROTO_IPV6 :: int where "IPPROTO_IPV6 = 41"
definition IP_PKTINFO :: int where "IP_PKTINFO = 8"
definition IPV6_RECVPKTINFO :: int where "IPV6_RECVPKTINFO = 49"
definition IPV6_PKTINFO :: int where "IPV6_PKTINFO = 50"

fun toType :: "SocketType \<Rightarrow> int" where
  "toType TCP = SOCK_STREAM"
| "toType UDP = SOCK_DGRAM"

fun toDomain :: "family \<Rightarrow> int" where
  "toDomain AF_INET = PF_INET"
| "toDomain AF_INET6 = PF_INET6"
| "toDomain AF_UNSPEC = -1"

fun addressLength :: "family \<Rightarrow> nat" where
  "addressLength AF_INET = 16"
| "addressLength AF_INET6 = 28"
| "addressLength AF_UNSPEC = 0"

definition close_handle :: "int \<Rightarrow> world \<Rightarrow> world" where
  "close_handle h w = w\<lparr>w_open := remove1 h (w_open w)\<rparr>"

definition socket_close :: "Socket \<Rightarrow> world \<Rightarrow> Socket \<times> world" where
  "socket_close s w =
     (if m_handle s \<noteq> -1 then (s\<lparr>m_handle := -1\<rparr>, close_handle (m_handle s) w) else (s, w))"

text \<open>\<open>Socket(int handle)\<close>; the last call sets TCP_NODELAY, its result is ignored.\<close>

definition socket_of_handle :: "env \<Rightarrow> int \<Rightarrow> world \<Rightarrow> Socket \<times> world" where
  "socket_of_handle env handle w =
     (let s = \<lparr>m_handle = handle, m_domain = -1\<rparr> in
      if m_handle s \<ge> 0 then
        let (flags, w) = call (e_getfl env) w;
            (s, w) = (if flags = -1 then socket_close s w
                      else let (r, w) = call (e_setfl env) w in
                           if r = -1 then socket_close s w else (s, w));
            (_, w) = call (e_setsockopt env) w
        in (s, w)
      else (s, w))"

definition new_socket :: "env \<Rightarrow> int \<Rightarrow> SocketType \<Rightarrow> world \<Rightarrow> Socket \<times> world" where
  "new_socket env domain type w =
     (let (h, w) = call (\<lambda>n. e_socket env n domain (toType type) (w_open w)) w;
          w = (if h = -1 then w else w\<lparr>w_open := h # w_open w\<rparr>);
          (s, w) = socket_of_handle env h w
      in (s\<lparr>m_domain := domain\<rparr>, w))"

definition socket_connect :: "env \<Rightarrow> Socket \<Rightarrow> sockaddr_storage \<Rightarrow> world \<Rightarrow> bool \<times> world" where
  "socket_connect env s addr w =
     (if m_handle s = -1 then (False, w)
      else let (r, w) = call (\<lambda>n. e_connect env n addr) w in
           if r \<noteq> 0 then let (errno, w) = call (e_errno env) w in (errno = EINPROGRESS, w)
           else (True, w))"

definition socket_bind :: "env \<Rightarrow> Socket \<Rightarrow> sockaddr_storage \<Rightarrow> world \<Rightarrow> bool \<times> world" where
  "socket_bind env s addr w =
     (if m_handle s = -1 then (False, w)
      else let (r, w) = call (\<lambda>n. e_bind env n addr) w in (r = 0, w))"

definition Socket_connect :: "env \<Rightarrow> sockaddr_storage \<Rightarrow> SocketType \<Rightarrow> world \<Rightarrow> Socket option \<times> world" where
  "Socket_connect env addr type w =
     (let (s, w) = new_socket env (toDomain (ss_family addr)) type w;
          (ok, w) = socket_connect env s addr w
      in if ok then (Some s, w) else (None, snd (socket_close s w)))"

definition Socket_bind :: "env \<Rightarrow> sockaddr_storage \<Rightarrow> SocketType \<Rightarrow> world \<Rightarrow> Socket option \<times> world" where
  "Socket_bind env addr type w =
     (let (s, w) = new_socket env (toDomain (ss_family addr)) type w;
          (ok, w) = socket_bind env s addr w
      in if ok then (Some s, w) else (None, snd (socket_close s w)))"

definition packet_info_option :: "int \<Rightarrow> (int \<times> int) option" where
  "packet_info_option domain =
     (if domain = PF_INET then Some (SOL_IP, IP_PKTINFO)
      else if domain = PF_INET6 then Some (IPPROTO_IPV6, IPV6_RECVPKTINFO)
      else None)"

definition enablePacketInfo :: "env \<Rightarrow> Socket \<Rightarrow> world \<Rightarrow> bool \<times> world" where
  "enablePacketInfo env s w =
     (if m_handle s = -1 then (False, w)
      else case packet_info_option (m_domain s) of
        None \<Rightarrow> (False, w)
      | Some _ \<Rightarrow> let (r, w) = call (e_setsockopt env) w in (r \<noteq> -1, w))"

subsection \<open>No handle leaks\<close>

text \<open>A factory either opens exactly the handle of the socket it returns, or returns nothing and leaves
  the set of open handles as it was.\<close>

definition opens :: "Socket option \<Rightarrow> world \<Rightarrow> world \<Rightarrow> bool" where
  "opens so w w' \<longleftrightarrow>
     (case so of
        None \<Rightarrow> same_but_tick w w'
      | Some s \<Rightarrow> 0 \<le> m_handle s \<and> m_handle s \<notin> set (w_open w)
          \<and> same_but_tick (w\<lparr>w_open := m_handle s # w_open w\<rparr>) w')"

lemma new_socket_cases:
  assumes ok: "env_ok env" and r: "new_socket env domain type w = (s, w')"
  shows "(m_handle s = -1 \<and> same_but_tick w w') \<or> opens (Some s) w w'"
proof -
  let ?h = "e_socket env (w_tick w) domain (toType type) (w_open w)"
  have h: "?h = -1 \<or> 0 \<le> ?h \<and> ?h \<notin> set (w_open w)" using ok by (auto simp: env_ok_def)
  then show ?thesis
  proof
    assume "?h = -1"
    then show ?thesis using r
      by (auto simp: new_socket_def call_def Let_def socket_of_handle_def same_but_tick_def)
  next
    assume "0 \<le> ?h \<and> ?h \<notin> set (w_open w)"
    then show ?thesis using r
      by (auto simp: new_socket_def call_def Let_def socket_of_handle_def same_but_tick_def opens_def
          socket_close_def close_handle_def split: if_splits)
  qed
qed

lemma socket_close_opened:
  assumes "opens (Some s) w w'"
  shows "same_but_tick w (snd (socket_close s w'))"
  using assms by (auto simp: opens_def socket_close_def close_handle_def same_but_tick_def)

lemma socket_connect_tick: "socket_connect env s addr w = (ok, w') \<Longrightarrow> same_but_tick w w' \<and> (ok \<longrightarrow> m_handle s \<noteq> -1)"
  by (auto simp: socket_connect_def call_def Let_def same_but_tick_def split: if_splits)

lemma socket_bind_tick: "socket_bind env s addr w = (ok, w') \<Longrightarrow> same_but_tick w w' \<and> (ok \<longrightarrow> m_handle s \<noteq> -1)"
  by (auto simp: socket_bind_def call_def Let_def same_but_tick_def split: if_splits)

lemma opens_tick: "opens so w w' \<Longrightarrow> same_but_tick w' w'' \<Longrightarrow> opens so w w''"
  by (auto simp: opens_def split: option.splits intro: same_but_tick_trans)

lemma factory_opens:
  assumes ok: "env_ok env"
    and new: "new_socket env domain type w = (s, w1)"
    and use: "same_but_tick w1 w2" "b \<longrightarrow> m_handle s \<noteq> -1"
  shows "opens (if b then Some s else None) w (if b then w2 else snd (socket_close s w2))"
proof -
  consider "m_handle s = -1" "same_but_tick w w1" | "opens (Some s) w w1"
    using new_socket_cases [OF ok new] by blast
  then show ?thesis
  proof cases
    case 1
    then show ?thesis using use same_but_tick_trans
      by (auto simp: opens_def socket_close_def)
  next
    case 2
    then have "opens (Some s) w w2" using use(1) by (rule opens_tick)
    then show ?thesis using socket_close_opened by (auto simp: opens_def)
  qed
qed

lemma Socket_connect_opens:
  assumes "env_ok env" and "Socket_connect env addr type w = (so, w')"
  shows "opens so w w'"
proof -
  obtain s w1 where new: "new_socket env (toDomain (ss_family addr)) type w = (s, w1)" by fastforce
  obtain b w2 where use: "socket_connect env s addr w1 = (b, w2)" by fastforce
  show ?thesis
    using factory_opens [OF assms(1) new, of w2 b] socket_connect_tick [OF use] assms(2)
    by (auto simp: Socket_connect_def new use split: if_splits)
qed

lemma Socket_bind_opens:
  assumes "env_ok env" and "Socket_bind env addr type w = (so, w')"
  shows "opens so w w'"
proof -
  obtain s w1 where new: "new_socket env (toDomain (ss_family addr)) type w = (s, w1)" by fastforce
  obtain b w2 where use: "socket_bind env s addr w1 = (b, w2)" by fastforce
  show ?thesis
    using factory_opens [OF assms(1) new, of w2 b] socket_bind_tick [OF use] assms(2)
    by (auto simp: Socket_bind_def new use split: if_splits)
qed

subsection \<open>Property of the factories\<close>

text \<open>
  Neither factory leaks or closes a foreign handle: whichever of its calls fails, a
  factory that returns no socket leaves the open handles, the loop and the configuration as they were,
  and one that returns a socket has opened exactly its handle, one that was not open before.
\<close>

lemma socket_factories_do_not_leak:
  assumes "env_ok env"
  shows "opens (fst (Socket_connect env addr type w)) w (snd (Socket_connect env addr type w))
       \<and> opens (fst (Socket_bind env addr type w)) w (snd (Socket_bind env addr type w))"
  using Socket_connect_opens [OF assms] Socket_bind_opens [OF assms] by (metis prod.collapse)

end
