(* ===== verification/Ssl_Connection.thy ===== *)
theory Ssl_Connection
  imports World
begin

text \<open>
  \<open>src/src/openssl/ssl_connection.cpp\<close> and \<open>ssl_factory.cpp\<close>: the TLS connection of one
  forwarder, as a classifier of what OpenSSL returns, and the one session that \<open>context.cpp\<close> caches
  between connections.  OpenSSL itself is the environment.

  An object is the record of its \<open>SSL*\<close> (present or not) with the options the program sets on it.  The
  verifier that the program installs is always a \<open>SpkiVerifier\<close> over a forwarder entry, so the entry
  stands for it.  Sessions are numbers; freeing one has no effect the program sees.
\<close>

datatype Result = NEED_READ | NEED_WRITE | SUCCESS | CLOSED_BY_PEER | FATAL

record SslConnection =
  m_ssl :: bool
  ssl_fd :: "int option"
  ssl_verify :: bool
  ssl_session :: "nat option"
  m_verifier :: "Forwarder option"

definition SSL_ERROR_WANT_READ :: int where "SSL_ERROR_WANT_READ = 2"
definition SSL_ERROR_WANT_WRITE :: int where "SSL_ERROR_WANT_WRITE = 3"
definition SSL_ERROR_ZERO_RETURN :: int where "SSL_ERROR_ZERO_RETURN = 6"

text \<open>\<open>SSL_new\<close> may fail; the cached session is set on the new object and stays cached.\<close>

definition new_SslConnection :: "env \<Rightarrow> world \<Rightarrow> SslConnection \<times> world" where
  "new_SslConnection env w =
     (let (ok, w) = call (e_ssl_new env) w
      in (\<lparr>m_ssl = ok, ssl_fd = None, ssl_verify = True,
           ssl_session = (if ok then w_session w else None), m_verifier = None\<rparr>, w))"

definition ssl_create :: "env \<Rightarrow> world \<Rightarrow> SslConnection option \<times> world" where
  "ssl_create env w =
     (if w_context w then let (c, w) = new_SslConnection env w in (Some c, w) else (None, w))"

definition ssl_setSocket :: "int \<Rightarrow> SslConnection \<Rightarrow> SslConnection" where
  "ssl_setSocket handle c = (if m_ssl c \<and> handle > 0 then c\<lparr>ssl_fd := Some handle\<rparr> else c)"

definition ssl_disableVerification :: "SslConnection \<Rightarrow> SslConnection" where
  "ssl_disableVerification c = (if m_ssl c then c\<lparr>ssl_verify := False\<rparr> else c)"

definition ssl_setVerifier :: "Forwarder \<Rightarrow> SslConnection \<Rightarrow> SslConnection" where
  "ssl_setVerifier f c = c\<lparr>m_verifier := Some f\<rparr>"

definition doFunction :: "env \<Rightarrow> SslConnection \<Rightarrow> (nat \<Rightarrow> int) \<Rightarrow> world \<Rightarrow> Result \<times> world" where
  "doFunction env c function w =
     (if m_ssl c then
        let (ret, w) = call function w in
        if ret > 0 then (SUCCESS, w)
        else if ret = 0 then (CLOSED_BY_PEER, w)
        else let (ret, w) = call (e_ssl_error env) w in
             (if ret = SSL_ERROR_WANT_READ then NEED_READ
              else if ret = SSL_ERROR_WANT_WRITE then NEED_WRITE
              else if ret = SSL_ERROR_ZERO_RETURN then CLOSED_BY_PEER
              else FATAL, w)
      else (FATAL, w))"

definition cacheSession :: "nat option \<Rightarrow> world \<Rightarrow> world" where
  "cacheSession session w = w\<lparr>w_session := session\<rparr>"

definition ssl_connect :: "env \<Rightarrow> SslConnection \<Rightarrow> world \<Rightarrow> Result \<times> world" where
  "ssl_connect env c w =
     (let (result, w) = doFunction env c (e_ssl_connect env) w in
      if result = SUCCESS then
        let (session, w) = call (e_ssl_session env) w in
        (result, if session \<noteq> None then cacheSession session w else w)
      else if result = FATAL then (result, cacheSession None w)
      else (result, w))"

definition ssl_shutdown :: "env \<Rightarrow> SslConnection \<Rightarrow> world \<Rightarrow> Result \<times> world" where
  "ssl_shutdown env c w = doFunction env c (e_ssl_shutdown env) w"

definition ssl_write :: "env \<Rightarrow> SslConnection \<Rightarrow> bytes \<Rightarrow> world \<Rightarrow> Result \<times> world" where
  "ssl_write env c buffer w =
     (if m_ssl c \<and> buffer = [] then (SUCCESS, w)
      else doFunction env c (\<lambda>n. e_ssl_write env n buffer) w)"

definition ssl_read :: "env \<Rightarrow> SslConnection \<Rightarrow> world \<Rightarrow> Result \<times> bytes \<times> world" where
  "ssl_read env c w =
     (let stackBuffer = e_ssl_read env (w_tick w);
          (result, w) = doFunction env c (\<lambda>n. fst (e_ssl_read env n)) w
      in (result, if result = SUCCESS then take (nat (fst stackBuffer)) (snd stackBuffer) else [], w))"

subsection \<open>What the operations leave alone\<close>

definition same_but_session :: "world \<Rightarrow> world \<Rightarrow> bool" where
  "same_but_session w w' \<longleftrightarrow> w_open w' = w_open w \<and> w_loop w' = w_loop w \<and> w_config w' = w_config w
     \<and> w_context w' = w_context w"

lemma same_but_session_tick: "same_but_tick w w' \<Longrightarrow> same_but_session w w'"
  by (simp add: same_but_tick_def same_but_session_def)

lemma doFunction_tick: "doFunction env c f w = (r, w') \<Longrightarrow> same_but_tick w w'"
  by (auto simp: doFunction_def call_def Let_def same_but_tick_def split: if_splits)

lemma ssl_connect_world: "ssl_connect env c w = (r, w') \<Longrightarrow> same_but_session w w'"
  using doFunction_tick [of env c "e_ssl_connect env" w]
  by (auto simp: ssl_connect_def call_def Let_def same_but_tick_def same_but_session_def cacheSession_def
      split: prod.splits if_splits)

lemma ssl_shutdown_world: "ssl_shutdown env c w = (r, w') \<Longrightarrow> same_but_session w w'"
  using doFunction_tick same_but_session_tick by (fastforce simp: ssl_shutdown_def)

lemma ssl_write_world: "ssl_write env c b w = (r, w') \<Longrightarrow> same_but_session w w'"
  using doFunction_tick same_but_session_tick
  by (fastforce simp: ssl_write_def same_but_session_def split: if_splits)

lemma ssl_read_world: "ssl_read env c w = (r, b, w') \<Longrightarrow> same_but_session w w'"
  using doFunction_tick same_but_session_tick
  by (fastforce simp: ssl_read_def Let_def split: prod.splits)

lemma ssl_create_world: "ssl_create env w = (c, w') \<Longrightarrow> same_but_session w w' \<and> (c \<noteq> None \<longleftrightarrow> w_context w)"
  by (auto simp: ssl_create_def new_SslConnection_def call_def same_but_session_def split: if_splits)

subsection \<open>Properties of the connection\<close>

text \<open>
  A read that succeeds hands over exactly the bytes OpenSSL reported, at least one
  and never more than the 16 KiB stack buffer; a read that does not succeed hands over none.
\<close>

lemma ssl_read_bounds:
  assumes "env_ok env" and "ssl_read env c w = (result, buffer, w')"
  shows "length buffer \<le> MAX_FRAME \<and> (result = SUCCESS \<longleftrightarrow> buffer \<noteq> [])
    \<and> (result = SUCCESS \<longrightarrow> int (length buffer) = fst (e_ssl_read env (w_tick w)))"
proof -
  let ?b = "e_ssl_read env (w_tick w)"
  have b: "fst ?b \<le> int (length (snd ?b))" "length (snd ?b) \<le> MAX_FRAME"
    using assms(1) by (auto simp: env_ok_def)
  have r: "buffer = (if result = SUCCESS then take (nat (fst ?b)) (snd ?b) else [])"
    using assms(2) by (auto simp: ssl_read_def Let_def split: prod.splits)
  have pos: "0 < fst ?b" if "result = SUCCESS"
    using assms(2) that by (auto simp: ssl_read_def doFunction_def call_def Let_def split: if_splits)
  show ?thesis using r b pos by (auto simp: min_def)
qed

definition reading_env :: "bytes \<Rightarrow> env" where
  "reading_env b = calm_env\<lparr>e_ssl_read := \<lambda>n. (int (length b), b)\<rparr>"

lemma env_ok_reading: "length b \<le> MAX_FRAME \<Longrightarrow> env_ok (reading_env b)"
  using env_ok_calm by (simp add: env_ok_def reading_env_def)

text \<open>
  The session cache follows the outcome of a handshake: a fatal failure empties
  it (the next connection goes to another forwarder and must not resume with the old session), a success
  replaces it by the new session if there is one, and an unfinished handshake leaves it.
\<close>

lemma session_follows_handshake:
  assumes "ssl_connect env c w = (result, w')"
  shows "(result = FATAL \<longrightarrow> w_session w' = None)
    \<and> (result = SUCCESS \<longrightarrow> w_session w' = w_session w \<or>
         (\<exists>n. e_ssl_session env n \<noteq> None \<and> w_session w' = e_ssl_session env n))
    \<and> (result \<in> {NEED_READ, NEED_WRITE, CLOSED_BY_PEER} \<longrightarrow> w_session w' = w_session w)"
proof -
  obtain r w1 where d: "doFunction env c (e_ssl_connect env) w = (r, w1)" by fastforce
  then have s: "w_session w1 = w_session w" using doFunction_tick [OF d] by (simp add: same_but_tick_def)
  show ?thesis
    using assms s by (cases r) (auto simp: ssl_connect_def d call_def cacheSession_def split: if_splits)
qed

end
