(* ===== verification/Forwarder_Connection.thy ===== *)
theory Forwarder_Connection
  imports Sockets Ssl_Connection
begin

text \<open>
  \<open>src/src/forwarder_connection.cpp\<close>: one connection to a forwarder, a state machine driven by the
  loop.  An object is a record; its address, which the bound callbacks carry, is the number \<open>this\<close>.
  A method takes the object and the world and returns both, with what its last statement calls: the
  shutdown callback or the incoming callback of the owner.  Every such call is the last thing the method
  does with the object, so the owner runs it on the result (\<open>Client_Forwarders\<close>).  \<open>None\<close> is a null
  pointer dereferenced.
\<close>

datatype State = CONNECTING | OPEN | SHUTTING_DOWN | CLOSED

text \<open>What the lambda of \<open>setIncomingCallback\<close> captures.\<close>

record reply_to =
  rp_socket :: int
  rp_client :: sockaddr_storage
  rp_server :: sockaddr_storage
  rp_interface :: int

record ForwarderConnection =
  c_timeout :: int
  c_connection :: "SslConnection option"
  c_incoming :: "reply_to option"
  c_shutdown :: bool
  c_state :: State
  c_socket :: "Socket option"
  c_read :: Registration
  c_write :: Registration
  c_exception :: Registration
  c_buffer :: bytes
  c_forwarder :: "Forwarder option"

text \<open>The pending call to the owner.\<close>

datatype pending = Nothing | Call_shutdown | Call_incoming bytes

type_synonym method_result = "(ForwarderConnection \<times> world \<times> pending) option"

subsection \<open>The registrations of an object\<close>

definition reset_read :: "ForwarderConnection \<Rightarrow> world \<Rightarrow> ForwarderConnection \<times> world" where
  "reset_read c w = (let (r, l) = reset (c_read c) (w_loop w) in (c\<lparr>c_read := r\<rparr>, w\<lparr>w_loop := l\<rparr>))"

definition reset_write :: "ForwarderConnection \<Rightarrow> world \<Rightarrow> ForwarderConnection \<times> world" where
  "reset_write c w = (let (r, l) = reset (c_write c) (w_loop w) in (c\<lparr>c_write := r\<rparr>, w\<lparr>w_loop := l\<rparr>))"

definition reset_exception :: "ForwarderConnection \<Rightarrow> world \<Rightarrow> ForwarderConnection \<times> world" where
  "reset_exception c w =
     (let (r, l) = reset (c_exception c) (w_loop w) in (c\<lparr>c_exception := r\<rparr>, w\<lparr>w_loop := l\<rparr>))"

text \<open>\<open>m_read = m_loop->registerRead(handle, callback, m_timeout)\<close>, and the same for writing.\<close>

definition assign_read :: "int \<Rightarrow> callback \<Rightarrow> ForwarderConnection \<Rightarrow> world \<Rightarrow> ForwarderConnection \<times> world" where
  "assign_read handle cb c w =
     (let (r, l) = registerRead handle cb (c_timeout c) (w_loop w);
          (r, l) = move_assign (c_read c) r l
      in (c\<lparr>c_read := r\<rparr>, w\<lparr>w_loop := l\<rparr>))"

definition assign_write :: "int \<Rightarrow> callback \<Rightarrow> ForwarderConnection \<Rightarrow> world \<Rightarrow> ForwarderConnection \<times> world" where
  "assign_write handle cb c w =
     (let (r, l) = registerWrite handle cb (c_timeout c) (w_loop w);
          (r, l) = move_assign (c_write c) r l
      in (c\<lparr>c_write := r\<rparr>, w\<lparr>w_loop := l\<rparr>))"

definition assign_exception :: "int \<Rightarrow> callback \<Rightarrow> ForwarderConnection \<Rightarrow> world \<Rightarrow> ForwarderConnection \<times> world" where
  "assign_exception handle cb c w =
     (let (r, l) = registerException handle cb (w_loop w);
          (r, l) = move_assign (c_exception c) r l
      in (c\<lparr>c_exception := r\<rparr>, w\<lparr>w_loop := l\<rparr>))"

text \<open>The bodies of the NEED_READ and NEED_WRITE cases, the same in \<open>connect\<close> and \<open>_shutdown\<close> but for
  the method they bind.\<close>

definition await_read :: "callback \<Rightarrow> ForwarderConnection \<Rightarrow> world \<Rightarrow> (ForwarderConnection \<times> world) option" where
  "await_read cb c w = do {
     (c, w) \<leftarrow> (if reg_valid (c_read c) then Some (c, w)
                else do { s \<leftarrow> c_socket c; Some (assign_read (m_handle s) cb c w) });
     Some (reset_write c w)
   }"

definition await_write :: "callback \<Rightarrow> ForwarderConnection \<Rightarrow> world \<Rightarrow> (ForwarderConnection \<times> world) option" where
  "await_write cb c w = do {
     (c, w) \<leftarrow> (if reg_valid (c_write c) then Some (c, w)
                else do { s \<leftarrow> c_socket c; Some (assign_write (m_handle s) cb c w) });
     Some (reset_read c w)
   }"

subsection \<open>The methods\<close>

definition config_setBad :: "ForwarderConnection \<Rightarrow> world \<Rightarrow> world" where
  "config_setBad c w = (case c_forwarder c of None \<Rightarrow> w | Some f \<Rightarrow> w\<lparr>w_config := setBad f (w_config w)\<rparr>)"

definition fc_close :: "ForwarderConnection \<Rightarrow> world \<Rightarrow> ForwarderConnection \<times> world \<times> pending" where
  "fc_close c w =
     (case c_socket c of
        None \<Rightarrow> (c, w, Nothing)
      | Some s \<Rightarrow>
          let (c, w) = reset_read c w;
              (c, w) = reset_write c w;
              (c, w) = reset_exception c w;
              c = c\<lparr>c_state := CLOSED\<rparr>;
              (_, w) = socket_close s w;
              c = c\<lparr>c_socket := None\<rparr>
          in (c, w, if c_shutdown c then Call_shutdown else Nothing))"

text \<open>The handshake has succeeded: the running handlers replace those of the handshake.\<close>

definition open_up :: "nat \<Rightarrow> ForwarderConnection \<Rightarrow> world \<Rightarrow> method_result" where
  "open_up this c w = do {
     let (c, w) = reset_read c w;
     let (c, w) = reset_write c w;
     s \<leftarrow> c_socket c;
     let (c, w) = assign_read (m_handle s) (Cb_incoming this) c w;
     let (c, w) = (if c_buffer c \<noteq> [] then assign_write (m_handle s) (Cb_outgoing this) c w else (c, w));
     Some (c\<lparr>c_state := OPEN\<rparr>, w, Nothing)
   }"

definition fc_connect :: "env \<Rightarrow> nat \<Rightarrow> ForwarderConnection \<Rightarrow> world \<Rightarrow> method_result" where
  "fc_connect env this c w = do {
     ssl \<leftarrow> c_connection c;
     let (result, w) = ssl_connect env ssl w;
     (case result of
        NEED_READ \<Rightarrow> do { (c, w) \<leftarrow> await_read (Cb_connect this) c w; Some (c, w, Nothing) }
      | NEED_WRITE \<Rightarrow> do { (c, w) \<leftarrow> await_write (Cb_connect this) c w; Some (c, w, Nothing) }
      | SUCCESS \<Rightarrow> open_up this c w
      | FATAL \<Rightarrow> Some (fc_close c (config_setBad c w))
      | CLOSED_BY_PEER \<Rightarrow> Some (fc_close c w))
   }"

definition fc_incoming :: "env \<Rightarrow> ForwarderConnection \<Rightarrow> world \<Rightarrow> method_result" where
  "fc_incoming env c w = do {
     ssl \<leftarrow> c_connection c;
     let (result, buffer, w) = ssl_read env ssl w;
     (case result of
        NEED_READ \<Rightarrow> Some (c, w, Nothing)
      | NEED_WRITE \<Rightarrow> Some (c, w, Nothing)
      | SUCCESS \<Rightarrow> Some (c, w, if buffer \<noteq> [] \<and> c_incoming c \<noteq> None then Call_incoming buffer else Nothing)
      | FATAL \<Rightarrow> Some (fc_close c (config_setBad c w))
      | CLOSED_BY_PEER \<Rightarrow> Some (fc_close c w))
   }"

definition fc_outgoing :: "env \<Rightarrow> ForwarderConnection \<Rightarrow> world \<Rightarrow> method_result" where
  "fc_outgoing env c w = do {
     ssl \<leftarrow> c_connection c;
     let (result, w) = ssl_write env ssl (c_buffer c) w;
     (case result of
        NEED_READ \<Rightarrow> Some (c, w, Nothing)
      | NEED_WRITE \<Rightarrow> Some (c, w, Nothing)
      | SUCCESS \<Rightarrow> do {
          let c = c\<lparr>c_buffer := []\<rparr>;
          let (c, w) = reset_write c w;
          Some (c, w, Nothing)
        }
      | FATAL \<Rightarrow> Some (fc_close c (config_setBad c w))
      | CLOSED_BY_PEER \<Rightarrow> Some (fc_close c w))
   }"

definition fc_do_shutdown :: "env \<Rightarrow> nat \<Rightarrow> ForwarderConnection \<Rightarrow> world \<Rightarrow> method_result" where
  "fc_do_shutdown env this c w = do {
     let c = c\<lparr>c_state := SHUTTING_DOWN\<rparr>;
     ssl \<leftarrow> c_connection c;
     let (result, w) = ssl_shutdown env ssl w;
     (case result of
        NEED_READ \<Rightarrow> do { (c, w) \<leftarrow> await_read (Cb_shutdown this) c w; Some (c, w, Nothing) }
      | NEED_WRITE \<Rightarrow> do { (c, w) \<leftarrow> await_write (Cb_shutdown this) c w; Some (c, w, Nothing) }
      | _ \<Rightarrow> Some (fc_close c w))
   }"

definition fc_shutdown :: "env \<Rightarrow> nat \<Rightarrow> ForwarderConnection \<Rightarrow> world \<Rightarrow> method_result" where
  "fc_shutdown env this c w =
     (if c_state c = CONNECTING \<or> c_state c = OPEN then do {
        let (c, w) = reset_read c w;
        let (c, w) = reset_write c w;
        _ \<leftarrow> c_socket c;
        fc_do_shutdown env this c w
      }
      else Some (c, w, Nothing))"

definition fc_exception :: "ForwarderConnection \<Rightarrow> world \<Rightarrow> method_result" where
  "fc_exception c w =
     Some (fc_close c (if c_state c = CONNECTING then config_setBad c w else w))"

definition fc_send :: "nat \<Rightarrow> bytes \<Rightarrow> ForwarderConnection \<Rightarrow> world \<Rightarrow> bool \<times> ForwarderConnection \<times> world" where
  "fc_send this buffer c w =
     (case c_socket c of
        None \<Rightarrow> (False, c, w)
      | Some s \<Rightarrow>
          if c_state c \<noteq> CONNECTING \<and> c_state c \<noteq> OPEN then (False, c, w)
          else if c_buffer c = [] then
            let (c, w) = (if c_state c = OPEN \<and> \<not> reg_valid (c_write c)
                          then assign_write (m_handle s) (Cb_outgoing this) c w else (c, w))
            in (True, c\<lparr>c_buffer := buffer\<rparr>, w)
          else (False, c, w))"

definition fc_setIncomingCallback :: "reply_to \<Rightarrow> ForwarderConnection \<Rightarrow> ForwarderConnection" where
  [simp]: "fc_setIncomingCallback incoming c = c\<lparr>c_incoming := Some incoming\<rparr>"

text \<open>The only shutdown callback is that of the pool.\<close>

definition fc_setShutdownCallback :: "ForwarderConnection \<Rightarrow> ForwarderConnection" where
  [simp]: "fc_setShutdownCallback c = c\<lparr>c_shutdown := True\<rparr>"

definition fc_closed :: "ForwarderConnection \<Rightarrow> bool" where
  "fc_closed c \<longleftrightarrow> c_state c = SHUTTING_DOWN \<or> c_state c = CLOSED"

definition configureVerifier :: "Forwarder \<Rightarrow> SslConnection \<Rightarrow> SslConnection" where
  "configureVerifier f ssl =
     (if disablePki f then ssl_disableVerification ssl
      else if host f \<noteq> [] \<or> pin f \<noteq> [] then ssl_setVerifier f ssl
      else ssl)"

text \<open>The constructor: the shutdown callback is not set yet, so nothing is pending when it returns.\<close>

definition new_ForwarderConnection :: "env \<Rightarrow> nat \<Rightarrow> world \<Rightarrow> (ForwarderConnection \<times> world) option" where
  "new_ForwarderConnection env this w = (
     let (now, w) = call (e_time env) w;
         (connection, w) = ssl_create env w;
         c = \<lparr>c_timeout = now + m_timeout (w_config w), c_connection = connection, c_incoming = None,
              c_shutdown = False, c_state = CONNECTING, c_socket = None, c_read = no_registration,
              c_write = no_registration, c_exception = no_registration, c_buffer = [], c_forwarder = None\<rparr>
     in case (connection, get_forwarder (w_config w)) of
          (Some ssl, Some chosen) \<Rightarrow>
            let ssl = configureVerifier chosen ssl;
                (so, w) = Socket_connect env (remote chosen) TCP w;
                c = c\<lparr>c_forwarder := Some chosen, c_connection := Some ssl\<rparr>
            in (case so of
                  Some s \<Rightarrow> do {
                    let c = c\<lparr>c_socket := Some s, c_connection := Some (ssl_setSocket (m_handle s) ssl)\<rparr>;
                    let (c, w) = assign_exception (m_handle s) (Cb_exception this) c w;
                    (c, w, _) \<leftarrow> fc_connect env this c w;
                    Some (c, w)
                  }
                | None \<Rightarrow> Some (c\<lparr>c_state := CLOSED\<rparr>, config_setBad c w))
        | _ \<Rightarrow> Some (c\<lparr>c_state := CLOSED\<rparr>, w))"

text \<open>The method a callback bound to an object runs on it.\<close>

fun fc_run :: "env \<Rightarrow> nat \<Rightarrow> callback \<Rightarrow> ForwarderConnection \<Rightarrow> world \<Rightarrow> method_result" where
  "fc_run env this (Cb_connect _) c w = fc_connect env this c w"
| "fc_run env this (Cb_incoming _) c w = fc_incoming env c w"
| "fc_run env this (Cb_outgoing _) c w = fc_outgoing env c w"
| "fc_run env this (Cb_shutdown _) c w = fc_do_shutdown env this c w"
| "fc_run env this (Cb_exception _) c w = fc_exception c w"
| "fc_run env this Cb_server c w = Some (c, w, Nothing)"
| "fc_run env this Cb_config c w = Some (c, w, Nothing)"

end
