(* ===== verification/Connection_Invariant.thy ===== *)
theory Connection_Invariant
  imports Forwarder_Connection
begin

text \<open>
  What keeps a connection and the loop in step, and that every method of \<open>Forwarder_Connection\<close> keeps it:
  the invariant \<open>conn_ok\<close> of a live object on its handle, the footprint of a method in the world, one
  lemma per method, and the properties of construction and of the callbacks.
\<close>

subsection \<open>The invariant of an object\<close>

text \<open>The TLS connection of an object is bound to its socket and set to verify the forwarder it was made for.\<close>

definition verified :: "int \<Rightarrow> SslConnection option \<Rightarrow> Forwarder option \<Rightarrow> bool" where
  "verified h connection forwarder \<longleftrightarrow> (\<exists>ssl f. connection = Some ssl \<and> forwarder = Some f
     \<and> (m_ssl ssl \<longrightarrow> (0 < h \<longrightarrow> ssl_fd ssl = Some h) \<and> (ssl_verify ssl \<longleftrightarrow> \<not> disablePki f))
     \<and> m_verifier ssl = (if disablePki f \<or> host f = [] \<and> pin f = [] then None else Some f))"

lemma verified_configured:
  assumes "ssl_create env w = (Some ssl, w')"
  shows "verified h (Some (ssl_setSocket h (configureVerifier f ssl))) (Some f)"
  using assms
  by (auto simp: ssl_create_def new_SslConnection_def configureVerifier_def ssl_setSocket_def ssl_disableVerification_def
      ssl_setVerifier_def verified_def split: if_splits prod.splits)

text \<open>A registration member and the loop agree: a valid registration is the one the loop holds for the
  handle, and without one the loop holds none.\<close>

definition slot :: "Registration \<Rightarrow> RegType \<Rightarrow> int \<Rightarrow> callback \<Rightarrow> int \<Rightarrow> callback Loop \<Rightarrow> bool" where
  "slot r t h cb tm l \<longleftrightarrow>
     (if reg_valid r then r = \<lparr>r_handle = h, r_type = t\<rparr> \<and> handler l t h = Some (cb, tm)
      else handler l t h = None)"

fun read_cb :: "State \<Rightarrow> nat \<Rightarrow> callback" where
  "read_cb CONNECTING this = Cb_connect this"
| "read_cb OPEN this = Cb_incoming this"
| "read_cb _ this = Cb_shutdown this"

fun write_cb :: "State \<Rightarrow> nat \<Rightarrow> callback" where
  "write_cb CONNECTING this = Cb_connect this"
| "write_cb OPEN this = Cb_outgoing this"
| "write_cb _ this = Cb_shutdown this"

definition conn_core :: "nat \<Rightarrow> int \<Rightarrow> ForwarderConnection \<Rightarrow> world \<Rightarrow> bool" where
  "conn_core this h c w \<longleftrightarrow>
     loop_ok (w_loop w) \<and> c_connection c \<noteq> None \<and> c_forwarder c \<noteq> None \<and> verified h (c_connection c) (c_forwarder c)
     \<and> (\<exists>s. c_socket c = Some s \<and> m_handle s = h) \<and> 0 \<le> h \<and> h \<in> set (w_open w) \<and> c_state c \<noteq> CLOSED
     \<and> slot (c_read c) Read h (read_cb (c_state c) this) (c_timeout c) (w_loop w)
     \<and> slot (c_write c) Write h (write_cb (c_state c) this) (c_timeout c) (w_loop w)
     \<and> slot (c_exception c) Exception h (Cb_exception this) 0 (w_loop w) \<and> reg_valid (c_exception c)"

text \<open>A live object has an SSL object and is waiting for something with its time-out set, an open one for an answer.\<close>

definition has_ssl :: "SslConnection option \<Rightarrow> bool" where
  "has_ssl connection \<longleftrightarrow> (\<exists>ssl. connection = Some ssl \<and> m_ssl ssl)"

definition conn_ok :: "nat \<Rightarrow> int \<Rightarrow> ForwarderConnection \<Rightarrow> world \<Rightarrow> bool" where
  "conn_ok this h c w \<longleftrightarrow> conn_core this h c w \<and> has_ssl (c_connection c)
     \<and> (reg_valid (c_read c) \<or> reg_valid (c_write c) \<and> c_state c \<noteq> OPEN)"

definition conn_closed :: "ForwarderConnection \<Rightarrow> bool" where
  "conn_closed c \<longleftrightarrow> c_socket c = None \<and> c_state c = CLOSED \<and> \<not> reg_valid (c_read c)
     \<and> \<not> reg_valid (c_write c) \<and> \<not> reg_valid (c_exception c)"

text \<open>What a method may change of the world: the handlers of its own handle and the order of the
  forwarders.\<close>

definition footprint :: "int \<Rightarrow> world \<Rightarrow> world \<Rightarrow> bool" where
  "footprint h w w' \<longleftrightarrow>
     loop_ok (w_loop w') \<and> (\<forall>t j. j \<noteq> h \<longrightarrow> handler (w_loop w') t j = handler (w_loop w) t j)
     \<and> mset (m_forwarders (w_config w')) = mset (m_forwarders (w_config w))
     \<and> m_timeout (w_config w') = m_timeout (w_config w) \<and> w_context w' = w_context w"

fun rank :: "State \<Rightarrow> nat" where
  "rank CONNECTING = 0"
| "rank OPEN = 1"
| "rank SHUTTING_DOWN = 2"
| "rank CLOSED = 3"

text \<open>The states in the order a connection goes through them.\<close>

instantiation State :: linorder
begin

definition less_eq_State :: "State \<Rightarrow> State \<Rightarrow> bool" where
  [simp]: "less_eq_State s t \<longleftrightarrow> rank s \<le> rank t"

definition less_State :: "State \<Rightarrow> State \<Rightarrow> bool" where
  [simp]: "less_State s t \<longleftrightarrow> rank s < rank t"

instance
proof
  fix s t :: State
  assume "s \<le> t" and "t \<le> s"
  then show "s = t" by (cases s; cases t) simp_all
qed auto

end

definition kept :: "ForwarderConnection \<Rightarrow> ForwarderConnection \<Rightarrow> bool" where
  "kept c c' \<longleftrightarrow> c_incoming c' = c_incoming c \<and> c_shutdown c' = c_shutdown c \<and> c_timeout c' = c_timeout c
     \<and> c_forwarder c' = c_forwarder c \<and> c_connection c' = c_connection c \<and> c_state c \<le> c_state c'"

definition method_ok :: "nat \<Rightarrow> int \<Rightarrow> ForwarderConnection \<Rightarrow> world \<Rightarrow> ForwarderConnection \<times> world \<times> pending \<Rightarrow> bool" where
  "method_ok this h c w r \<longleftrightarrow> (case r of (c', w', p) \<Rightarrow>
     footprint h w w' \<and> kept c c'
     \<and> (w_config w' = w_config w \<or> c_socket c' = None \<and> w_config w' = w_config (config_setBad c w))
     \<and> (if p = Call_shutdown \<or> c_socket c' = None
        then conn_closed c' \<and> (\<forall>t. handler (w_loop w') t h = None) \<and> w_open w' = remove1 h (w_open w)
             \<and> p = (if c_shutdown c then Call_shutdown else Nothing)
        else conn_ok this h c' w' \<and> w_open w' = w_open w))"

lemma footprint_refl: "loop_ok (w_loop w) \<Longrightarrow> footprint h w w"
  by (simp add: footprint_def)

lemma footprint_trans: "footprint h w w' \<Longrightarrow> footprint h w' w'' \<Longrightarrow> footprint h w w''"
  by (simp add: footprint_def)

lemma footprint_session: "same_but_session w w' \<Longrightarrow> loop_ok (w_loop w) \<Longrightarrow> footprint h w w'"
  by (simp add: footprint_def same_but_session_def)

lemma footprint_install:
  "loop_ok l \<Longrightarrow> handler l = install (w_loop w) t h e \<Longrightarrow> footprint h w (w\<lparr>w_loop := l\<rparr>)"
  by (simp add: footprint_def install_apply)

lemma footprint_setBad: "loop_ok (w_loop w) \<Longrightarrow> footprint h w (config_setBad c w)"
  by (auto simp: footprint_def config_setBad_def setBad_def rotate_bad_mset split: option.splits)

lemma conn_core_session: "same_but_session w w' \<Longrightarrow> conn_core this h c w' = conn_core this h c w"
  by (simp add: conn_core_def same_but_session_def)

lemma conn_core_setBad: "conn_core this h c (config_setBad c' w) = conn_core this h c w"
  by (auto simp: conn_core_def config_setBad_def split: option.splits)

subsection \<open>Registering and resetting\<close>

lemma reg_valid_simps [simp]:
  "\<not> reg_valid (r\<lparr>r_type := Moved\<rparr>)" "\<not> reg_valid no_registration"
  "reg_valid \<lparr>r_handle = h, r_type = t\<rparr> \<longleftrightarrow> t \<noteq> Moved"
  by (simp_all add: reg_valid_def no_registration_def)

lemma install_idle: "handler l t h = None \<Longrightarrow> install l t h None = handler l"
  by (simp add: install_def fun_upd_idem)

lemma reset_slot:
  assumes "slot r t h cb tm l" and "loop_ok l"
  shows "loop_ok (snd (reset r l))" "handler (snd (reset r l)) = install l t h None"
    "\<not> reg_valid (fst (reset r l))"
proof -
  show "loop_ok (snd (reset r l))" using assms(2) by (rule loop_ok_reset)
  show "\<not> reg_valid (fst (reset r l))" by (simp add: reset_fst)
  show "handler (snd (reset r l)) = install l t h None"
    using assms(1) by (auto simp: handler_reset slot_def install_idle split: if_splits)
qed

lemma reset_readE:
  assumes "reset_read c w = (c', w')" and "slot (c_read c) Read h cb tm (w_loop w)" and "loop_ok (w_loop w)"
  obtains r l where "c' = c\<lparr>c_read := r\<rparr>" "\<not> reg_valid r" "w' = w\<lparr>w_loop := l\<rparr>" "loop_ok l"
    "handler l = install (w_loop w) Read h None"
  using reset_slot [OF assms(2,3)] assms(1) by (auto simp: reset_read_def split: prod.splits)

lemma reset_writeE:
  assumes "reset_write c w = (c', w')" and "slot (c_write c) Write h cb tm (w_loop w)" and "loop_ok (w_loop w)"
  obtains r l where "c' = c\<lparr>c_write := r\<rparr>" "\<not> reg_valid r" "w' = w\<lparr>w_loop := l\<rparr>" "loop_ok l"
    "handler l = install (w_loop w) Write h None"
  using reset_slot [OF assms(2,3)] assms(1) by (auto simp: reset_write_def split: prod.splits)

lemma reset_exceptionE:
  assumes "reset_exception c w = (c', w')" and "slot (c_exception c) Exception h cb tm (w_loop w)"
    and "loop_ok (w_loop w)"
  obtains r l where "c' = c\<lparr>c_exception := r\<rparr>" "\<not> reg_valid r" "w' = w\<lparr>w_loop := l\<rparr>" "loop_ok l"
    "handler l = install (w_loop w) Exception h None"
  using reset_slot [OF assms(2,3)] assms(1) by (auto simp: reset_exception_def split: prod.splits)

lemma move_assign_empty: "\<not> reg_valid this \<Longrightarrow> move_assign this other l = (other, l)"
  by (simp add: move_assign_def reset_def reg_valid_def)

lemma assign_readE:
  assumes "assign_read h cb c w = (c', w')" and "\<not> reg_valid (c_read c)"
    and "handler (w_loop w) Read h = None" and "loop_ok (w_loop w)"
  obtains l where "c' = c\<lparr>c_read := \<lparr>r_handle = h, r_type = Read\<rparr>\<rparr>" "w' = w\<lparr>w_loop := l\<rparr>" "loop_ok l"
    "handler l = install (w_loop w) Read h (Some (cb, c_timeout c))"
  using registerRead_fresh [OF assms(4,3), of cb "c_timeout c"] assms(1,2)
  by (auto simp: assign_read_def move_assign_empty split: prod.splits)

lemma assign_writeE:
  assumes "assign_write h cb c w = (c', w')" and "\<not> reg_valid (c_write c)"
    and "handler (w_loop w) Write h = None" and "loop_ok (w_loop w)"
  obtains l where "c' = c\<lparr>c_write := \<lparr>r_handle = h, r_type = Write\<rparr>\<rparr>" "w' = w\<lparr>w_loop := l\<rparr>" "loop_ok l"
    "handler l = install (w_loop w) Write h (Some (cb, c_timeout c))"
  using registerWrite_fresh [OF assms(4,3), of cb "c_timeout c"] assms(1,2)
  by (auto simp: assign_write_def move_assign_empty split: prod.splits)

lemma assign_exceptionE:
  assumes "assign_exception h cb c w = (c', w')" and "\<not> reg_valid (c_exception c)"
    and "handler (w_loop w) Exception h = None" and "loop_ok (w_loop w)"
  obtains l where "c' = c\<lparr>c_exception := \<lparr>r_handle = h, r_type = Exception\<rparr>\<rparr>" "w' = w\<lparr>w_loop := l\<rparr>" "loop_ok l"
    "handler l = install (w_loop w) Exception h (Some (cb, 0))"
  using registerException_fresh [OF assms(4,3), of cb] assms(1,2)
  by (auto simp: assign_exception_def move_assign_empty split: prod.splits)

lemma slot_handler:
  assumes "slot r t h cb tm l" and "handler l' t h = handler l t h"
  shows "slot r t h cb tm l'"
  using assms by (simp add: slot_def)

lemma config_setBad_simps [simp]:
  "w_loop (config_setBad c w) = w_loop w" "w_open (config_setBad c w) = w_open w"
  by (simp_all add: config_setBad_def split: option.splits)

lemma fc_close_ok:
  assumes core: "conn_core this h c w"
  shows "method_ok this h c w (fc_close c w)"
proof -
  from core obtain s where s: "c_socket c = Some s" "m_handle s = h" "h \<noteq> -1" and lok: "loop_ok (w_loop w)"
    and sr: "slot (c_read c) Read h (read_cb (c_state c) this) (c_timeout c) (w_loop w)"
    and sw: "slot (c_write c) Write h (write_cb (c_state c) this) (c_timeout c) (w_loop w)"
    and sx: "slot (c_exception c) Exception h (Cb_exception this) 0 (w_loop w)"
    by (auto simp: conn_core_def)
  obtain c1 w1 where 1: "reset_read c w = (c1, w1)" by fastforce
  from reset_readE [OF 1 sr lok] obtain r1 l1 where r1: "c1 = c\<lparr>c_read := r1\<rparr>" "\<not> reg_valid r1"
    "w1 = w\<lparr>w_loop := l1\<rparr>" "loop_ok l1" "handler l1 = install (w_loop w) Read h None" .
  obtain c2 w2 where 2: "reset_write c1 w1 = (c2, w2)" by fastforce
  have sw1: "slot (c_write c1) Write h (write_cb (c_state c) this) (c_timeout c) (w_loop w1)"
    using slot_handler [OF sw] by (simp add: r1 install_apply)
  from reset_writeE [OF 2 sw1] obtain r2 l2 where r2: "c2 = c1\<lparr>c_write := r2\<rparr>" "\<not> reg_valid r2"
    "w2 = w1\<lparr>w_loop := l2\<rparr>" "loop_ok l2" "handler l2 = install l1 Write h None"
    using r1 by auto
  obtain c3 w3 where 3: "reset_exception c2 w2 = (c3, w3)" by fastforce
  have sx2: "slot (c_exception c2) Exception h (Cb_exception this) 0 (w_loop w2)"
    using slot_handler [OF sx] by (simp add: r1 r2 install_apply)
  from reset_exceptionE [OF 3 sx2] obtain r3 l3 where r3: "c3 = c2\<lparr>c_exception := r3\<rparr>" "\<not> reg_valid r3"
    "w3 = w2\<lparr>w_loop := l3\<rparr>" "loop_ok l3" "handler l3 = install l2 Exception h None"
    using r2 by auto
  have e: "fc_close c w = (c3\<lparr>c_state := CLOSED, c_socket := None\<rparr>, close_handle h w3,
      if c_shutdown c then Call_shutdown else Nothing)"
    using s by (simp add: fc_close_def 1 2 3 socket_close_def) (simp add: r1 r2 r3)
  have off: "handler l3 t h = None" for t
    by (cases t) (simp_all add: r3 r2 r1 install_apply)
  have others: "handler l3 t j = handler (w_loop w) t j" if "j \<noteq> h" for t j
    using that by (simp add: r3 r2 r1 install_apply)
  show ?thesis
    using off others r1 r2 r3
    by (cases "c_state c") (simp_all add: e method_ok_def footprint_def kept_def conn_closed_def close_handle_def)
qed

lemma setBad_config_cong:
  "c_forwarder c = c_forwarder c' \<Longrightarrow> w_config w = w_config w' \<Longrightarrow>
   w_config (config_setBad c w) = w_config (config_setBad c' w')"
  by (simp add: config_setBad_def split: option.splits)

lemma method_ok_from:
  assumes "footprint h w w1" and "w_open w1 = w_open w" and "w_config w1 = w_config w" and "kept c c1"
    and "method_ok this h c1 w1 r"
  shows "method_ok this h c w r"
proof -
  have "w_config (config_setBad c1 w1) = w_config (config_setBad c w)"
    using assms(3,4) by (intro setBad_config_cong) (simp_all add: kept_def)
  then show ?thesis
    using assms by (auto simp: method_ok_def kept_def split: prod.splits if_splits intro: footprint_trans)
qed

lemma fc_close_after:
  assumes "conn_core this h c w" and "same_but_session w w1"
  shows "method_ok this h c w (fc_close c w1)" "method_ok this h c w (fc_close c (config_setBad c w1))"
proof -
  have l: "loop_ok (w_loop w)" using assms(1) by (simp add: conn_core_def)
  have l1: "loop_ok (w_loop w1)" using assms(2) l by (simp add: same_but_session_def)
  have c1: "conn_core this h c w1" using assms conn_core_session by blast
  note fp = footprint_session [OF assms(2) l]
  show "method_ok this h c w (fc_close c w1)"
    using method_ok_from [OF fp _ _ _ fc_close_ok [OF c1]] assms(2) by (simp add: kept_def same_but_session_def)
  let ?b = "config_setBad c w1"
  have fb: "footprint h w ?b" by (rule footprint_trans [OF fp footprint_setBad [OF l1]])
  have cfg: "w_config ?b = w_config (config_setBad c w)"
    using assms(2) by (intro setBad_config_cong) (simp_all add: same_but_session_def)
  have "conn_core this h c ?b" using c1 by (simp add: conn_core_setBad)
  from fc_close_ok [OF this] have m: "method_ok this h c ?b (fc_close c ?b)" .
  obtain s where "c_socket c = Some s" using assms(1) by (auto simp: conn_core_def)
  then have snd: "c_socket (fst (fc_close c ?b)) = None" "w_config (fst (snd (fc_close c ?b))) = w_config ?b"
    by (auto simp: fc_close_def reset_read_def reset_write_def reset_exception_def socket_close_def
        close_handle_def Let_def split: prod.splits)
  show "method_ok this h c w (fc_close c ?b)"
    using m fb snd cfg assms(2)
    by (auto simp: method_ok_def same_but_session_def split: prod.splits if_splits intro: footprint_trans)
qed

lemma conn_coreE:
  assumes "conn_core this h c w"
  obtains s where "c_socket c = Some s" "m_handle s = h" "loop_ok (w_loop w)"
    "slot (c_read c) Read h (read_cb (c_state c) this) (c_timeout c) (w_loop w)"
    "slot (c_write c) Write h (write_cb (c_state c) this) (c_timeout c) (w_loop w)"
    "slot (c_exception c) Exception h (Cb_exception this) 0 (w_loop w)"
  using assms by (auto simp: conn_core_def)

lemma slot_invalid: "slot r t h cb tm l \<Longrightarrow> \<not> reg_valid r \<Longrightarrow> handler l t h = None"
  by (simp add: slot_def)

lemma slot_other: "slot r t h cb tm (w_loop w) \<Longrightarrow> handler l = install (w_loop w) t' h' e \<Longrightarrow> t' \<noteq> t \<Longrightarrow> slot r t h cb tm l"
  by (simp add: slot_def install_apply)

lemma slot_None: "\<not> reg_valid r \<Longrightarrow> handler l = install l' t h None \<Longrightarrow> slot r t h cb tm l"
  by (simp add: slot_def install_apply)

lemma slot_Some: "t \<noteq> Moved \<Longrightarrow> handler l = install l' t h (Some (cb, tm)) \<Longrightarrow>
    slot \<lparr>r_handle = h, r_type = t\<rparr> t h cb tm l"
  by (simp add: slot_def install_apply)

text \<open>What a step inside a method establishes: the object stays consistent, the world changes within the
  footprint, no handle is opened or closed.\<close>

definition inner_ok :: "nat \<Rightarrow> int \<Rightarrow> ForwarderConnection \<Rightarrow> world \<Rightarrow> ForwarderConnection \<Rightarrow> world \<Rightarrow> bool" where
  "inner_ok this h c w c' w' \<longleftrightarrow> conn_core this h c' w' \<and> footprint h w w' \<and> kept c c'
     \<and> w_open w' = w_open w \<and> w_config w' = w_config w \<and> c_state c' = c_state c \<and> c_socket c' = c_socket c \<and> c_buffer c' = c_buffer c"

lemma inner_ok_trans: "inner_ok this h c w c1 w1 \<Longrightarrow> inner_ok this h c1 w1 c2 w2 \<Longrightarrow> inner_ok this h c w c2 w2"
  by (auto simp: inner_ok_def kept_def intro: footprint_trans)

lemma inner_ok_refl: "conn_core this h c w \<Longrightarrow> inner_ok this h c w c w"
  by (simp add: inner_ok_def kept_def conn_core_def footprint_refl)

lemma inner_reset_read:
  assumes "conn_core this h c w" and "reset_read c w = (c', w')"
  shows "inner_ok this h c w c' w' \<and> \<not> reg_valid (c_read c') \<and> c_write c' = c_write c"
proof -
  from assms(1) obtain s where s: "c_socket c = Some s" "m_handle s = h" and lok: "loop_ok (w_loop w)"
    and sl: "slot (c_read c) Read h (read_cb (c_state c) this) (c_timeout c) (w_loop w)"
      "slot (c_write c) Write h (write_cb (c_state c) this) (c_timeout c) (w_loop w)"
      "slot (c_exception c) Exception h (Cb_exception this) 0 (w_loop w)"
    by (rule conn_coreE)
  from reset_readE [OF assms(2) sl(1) lok] obtain r l where r: "c' = c\<lparr>c_read := r\<rparr>" "\<not> reg_valid r"
    "w' = w\<lparr>w_loop := l\<rparr>" "loop_ok l" "handler l = install (w_loop w) Read h None" .
  have "conn_core this h c' w'"
    using assms(1) r slot_other [OF sl(2) r(5)] slot_other [OF sl(3) r(5)] slot_None [OF r(2,5)]
    by (simp add: conn_core_def)
  then show ?thesis using r footprint_install by (simp add: inner_ok_def kept_def)
qed

lemma inner_reset_write:
  assumes "conn_core this h c w" and "reset_write c w = (c', w')"
  shows "inner_ok this h c w c' w' \<and> \<not> reg_valid (c_write c') \<and> c_read c' = c_read c"
proof -
  from assms(1) obtain s where s: "c_socket c = Some s" "m_handle s = h" and lok: "loop_ok (w_loop w)"
    and sl: "slot (c_read c) Read h (read_cb (c_state c) this) (c_timeout c) (w_loop w)"
      "slot (c_write c) Write h (write_cb (c_state c) this) (c_timeout c) (w_loop w)"
      "slot (c_exception c) Exception h (Cb_exception this) 0 (w_loop w)"
    by (rule conn_coreE)
  from reset_writeE [OF assms(2) sl(2) lok] obtain r l where r: "c' = c\<lparr>c_write := r\<rparr>" "\<not> reg_valid r"
    "w' = w\<lparr>w_loop := l\<rparr>" "loop_ok l" "handler l = install (w_loop w) Write h None" .
  have "conn_core this h c' w'"
    using assms(1) r slot_other [OF sl(1) r(5)] slot_other [OF sl(3) r(5)] slot_None [OF r(2,5)]
    by (simp add: conn_core_def)
  then show ?thesis using r footprint_install by (simp add: inner_ok_def kept_def)
qed

lemma inner_assign_read:
  assumes "conn_core this h c w" and "\<not> reg_valid (c_read c)" and "cb = read_cb (c_state c) this"
    and "assign_read h cb c w = (c', w')"
  shows "inner_ok this h c w c' w' \<and> reg_valid (c_read c') \<and> c_write c' = c_write c"
proof -
  from assms(1) obtain s where s: "c_socket c = Some s" "m_handle s = h" and lok: "loop_ok (w_loop w)"
    and sl: "slot (c_read c) Read h (read_cb (c_state c) this) (c_timeout c) (w_loop w)"
      "slot (c_write c) Write h (write_cb (c_state c) this) (c_timeout c) (w_loop w)"
      "slot (c_exception c) Exception h (Cb_exception this) 0 (w_loop w)"
    by (rule conn_coreE)
  from assign_readE [OF assms(4,2) slot_invalid [OF sl(1) assms(2)] lok] obtain l where
    r: "c' = c\<lparr>c_read := \<lparr>r_handle = h, r_type = Read\<rparr>\<rparr>" "w' = w\<lparr>w_loop := l\<rparr>" "loop_ok l"
      "handler l = install (w_loop w) Read h (Some (cb, c_timeout c))" .
  have "conn_core this h c' w'"
    using assms(1) r slot_other [OF sl(2) r(4)] slot_other [OF sl(3) r(4)] slot_Some [OF _ r(4)] assms(3)
    by (simp add: conn_core_def)
  then show ?thesis using r footprint_install by (simp add: inner_ok_def kept_def)
qed

lemma inner_assign_write:
  assumes "conn_core this h c w" and "\<not> reg_valid (c_write c)" and "cb = write_cb (c_state c) this"
    and "assign_write h cb c w = (c', w')"
  shows "inner_ok this h c w c' w' \<and> reg_valid (c_write c') \<and> c_read c' = c_read c"
proof -
  from assms(1) obtain s where s: "c_socket c = Some s" "m_handle s = h" and lok: "loop_ok (w_loop w)"
    and sl: "slot (c_read c) Read h (read_cb (c_state c) this) (c_timeout c) (w_loop w)"
      "slot (c_write c) Write h (write_cb (c_state c) this) (c_timeout c) (w_loop w)"
      "slot (c_exception c) Exception h (Cb_exception this) 0 (w_loop w)"
    by (rule conn_coreE)
  from assign_writeE [OF assms(4,2) slot_invalid [OF sl(2) assms(2)] lok] obtain l where
    r: "c' = c\<lparr>c_write := \<lparr>r_handle = h, r_type = Write\<rparr>\<rparr>" "w' = w\<lparr>w_loop := l\<rparr>" "loop_ok l"
      "handler l = install (w_loop w) Write h (Some (cb, c_timeout c))" .
  have "conn_core this h c' w'"
    using assms(1) r slot_other [OF sl(1) r(4)] slot_other [OF sl(3) r(4)] slot_Some [OF _ r(4)] assms(3)
    by (simp add: conn_core_def)
  then show ?thesis using r footprint_install by (simp add: inner_ok_def kept_def)
qed

lemma await_read_ok:
  assumes core: "conn_core this h c w" and cb: "cb = read_cb (c_state c) this"
  shows "\<exists>c' w'. await_read cb c w = Some (c', w') \<and> inner_ok this h c w c' w' \<and> reg_valid (c_read c')"
proof -
  from core obtain s where s: "c_socket c = Some s" "m_handle s = h" by (rule conn_coreE)
  obtain c1 w1 where 1: "(if reg_valid (c_read c) then (c, w) else assign_read h cb c w) = (c1, w1)"
    by fastforce
  have i1: "inner_ok this h c w c1 w1" "reg_valid (c_read c1)"
    using 1 inner_assign_read [OF core _ cb] inner_ok_refl [OF core] by (auto split: if_splits)
  obtain c2 w2 where 2: "reset_write c1 w1 = (c2, w2)" by fastforce
  from i1 have "conn_core this h c1 w1" by (simp add: inner_ok_def)
  from inner_reset_write [OF this 2] have i2: "inner_ok this h c1 w1 c2 w2" "reg_valid (c_read c2)"
    using i1 by auto
  have "await_read cb c w = Some (c2, w2)"
    using 1 s by (auto simp: await_read_def 2 split: if_splits)
  with i2 inner_ok_trans [OF i1(1) i2(1)] show ?thesis by blast
qed

lemma await_write_ok:
  assumes core: "conn_core this h c w" and cb: "cb = write_cb (c_state c) this"
  shows "\<exists>c' w'. await_write cb c w = Some (c', w') \<and> inner_ok this h c w c' w' \<and> reg_valid (c_write c')
    \<and> c_state c' = c_state c"
proof -
  from core obtain s where s: "c_socket c = Some s" "m_handle s = h" by (rule conn_coreE)
  obtain c1 w1 where 1: "(if reg_valid (c_write c) then (c, w) else assign_write h cb c w) = (c1, w1)"
    by fastforce
  have i1: "inner_ok this h c w c1 w1" "reg_valid (c_write c1)"
    using 1 inner_assign_write [OF core _ cb] inner_ok_refl [OF core] by (auto split: if_splits)
  obtain c2 w2 where 2: "reset_read c1 w1 = (c2, w2)" by fastforce
  from i1 have "conn_core this h c1 w1" by (simp add: inner_ok_def)
  from inner_reset_read [OF this 2] have i2: "inner_ok this h c1 w1 c2 w2" "reg_valid (c_write c2)"
    using i1 by auto
  have "await_write cb c w = Some (c2, w2)"
    using 1 s by (auto simp: await_write_def 2 split: if_splits)
  moreover have "c_state c2 = c_state c" using i1 i2 by (simp add: inner_ok_def)
  ultimately show ?thesis using i2 inner_ok_trans [OF i1(1) i2(1)] by blast
qed

lemma method_ok_inner:
  assumes "inner_ok this h c w c' w'" and "reg_valid (c_read c') \<or> reg_valid (c_write c') \<and> c_state c' \<noteq> OPEN"
    and "p \<noteq> Call_shutdown" and "has_ssl (c_connection c)"
  shows "method_ok this h c w (c', w', p)"
proof -
  obtain s where "c_socket c = Some s" using assms(1) by (auto simp: inner_ok_def conn_core_def)
  then show ?thesis using assms by (simp add: method_ok_def conn_ok_def inner_ok_def kept_def)
qed

text \<open>A call that did not fail was made on an SSL object.\<close>

lemma has_ssl_called:
  "ssl_connect env ssl w = (r, w') \<Longrightarrow> r \<noteq> FATAL \<Longrightarrow> has_ssl (Some ssl)"
  "ssl_shutdown env ssl w = (r, w') \<Longrightarrow> r \<noteq> FATAL \<Longrightarrow> has_ssl (Some ssl)"
  by (auto simp: ssl_connect_def ssl_shutdown_def doFunction_def has_ssl_def Let_def split: prod.splits if_splits)

lemma core_restate:
  assumes "conn_core this h c w" and "\<not> reg_valid (c_read c)" and "\<not> reg_valid (c_write c)" and "st \<noteq> CLOSED"
  shows "conn_core this h (c\<lparr>c_state := st\<rparr>) w"
  using assms by (simp add: conn_core_def slot_def)

lemma core_session: "conn_core this h c w \<Longrightarrow> same_but_session w w1 \<Longrightarrow> inner_ok this h c w c w1"
  using conn_core_session [of w w1 this h c] footprint_session [of w w1 h]
  by (auto simp: inner_ok_def kept_def same_but_session_def conn_core_def)

lemma kept_state: "c_state c \<le> st \<Longrightarrow> kept c (c\<lparr>c_state := st\<rparr>)" "kept c (c\<lparr>c_buffer := b\<rparr>)"
  by (simp_all add: kept_def)

lemma core_loop: "conn_core this h c w \<Longrightarrow> loop_ok (w_loop w)"
  by (simp add: conn_core_def)

lemma core_ssl: "conn_core this h c w \<Longrightarrow> \<exists>ssl. c_connection c = Some ssl"
  by (simp add: conn_core_def)

lemma assign_read_state:
  "assign_read h cb c w = (c', w') \<Longrightarrow> assign_read h cb (c\<lparr>c_state := st\<rparr>) w = (c'\<lparr>c_state := st\<rparr>, w')"
  by (auto simp: assign_read_def Let_def split: prod.splits)

lemma assign_write_state:
  "assign_write h cb c w = (c', w') \<Longrightarrow> assign_write h cb (c\<lparr>c_state := st\<rparr>) w = (c'\<lparr>c_state := st\<rparr>, w')"
  by (auto simp: assign_write_def Let_def split: prod.splits)

lemma open_up_ok:
  assumes core: "conn_core this h c w" and st: "c_state c = CONNECTING" and ssl: "has_ssl (c_connection c)"
  shows "\<exists>r. open_up this c w = Some r \<and> method_ok this h c w r"
proof -
  obtain c1 w1 where 1: "reset_read c w = (c1, w1)" by fastforce
  from inner_reset_read [OF core 1] have i1: "inner_ok this h c w c1 w1" "\<not> reg_valid (c_read c1)" by auto
  obtain c2 w2 where 2: "reset_write c1 w1 = (c2, w2)" by fastforce
  from i1 have "conn_core this h c1 w1" by (simp add: inner_ok_def)
  from inner_reset_write [OF this 2] have i2: "inner_ok this h c1 w1 c2 w2"
    "\<not> reg_valid (c_write c2)" "\<not> reg_valid (c_read c2)"
    using i1 by auto
  note i = inner_ok_trans [OF i1(1) i2(1)]
  then have core2: "conn_core this h c2 w2" by (simp add: inner_ok_def)
  then obtain s where s: "c_socket c2 = Some s" "m_handle s = h" by (rule conn_coreE)
  let ?d = "c2\<lparr>c_state := OPEN\<rparr>"
  have dcore: "conn_core this h ?d w2" using core_restate [OF core2 i2(3,2)] by simp
  obtain c3 w3 where 3: "assign_read h (Cb_incoming this) c2 w2 = (c3, w3)" by fastforce
  have i3: "inner_ok this h ?d w2 (c3\<lparr>c_state := OPEN\<rparr>) w3" "reg_valid (c_read c3)" "\<not> reg_valid (c_write c3)"
    using inner_assign_read [OF dcore _ _ assign_read_state [OF 3]] i2 by auto
  have core3: "conn_core this h (c3\<lparr>c_state := OPEN\<rparr>) w3" using i3(1) by (simp add: inner_ok_def)
  obtain c4 w4 where 4: "(if c_buffer c3 \<noteq> [] then assign_write h (Cb_outgoing this) c3 w3 else (c3, w3)) = (c4, w4)"
    by fastforce
  have i4: "inner_ok this h (c3\<lparr>c_state := OPEN\<rparr>) w3 (c4\<lparr>c_state := OPEN\<rparr>) w4 \<and> reg_valid (c_read c4)"
  proof (cases "c_buffer c3 = []")
    case True
    with 4 i3(2) inner_ok_refl [OF core3] show ?thesis by simp
  next
    case False
    with 4 have a: "assign_write h (Cb_outgoing this) c3 w3 = (c4, w4)" by simp
    show ?thesis
      using inner_assign_write [OF core3 _ _ assign_write_state [OF a]] i3 by simp
  qed
  have e: "open_up this c w = Some (c4\<lparr>c_state := OPEN\<rparr>, w4, Nothing)"
    using s 4 by (auto simp: open_up_def 1 2 3 split: if_splits)
  have "method_ok this h ?d w2 (c4\<lparr>c_state := OPEN\<rparr>, w4, Nothing)"
    using i4 ssl i by (intro method_ok_inner inner_ok_trans [OF i3(1)]) (simp_all add: inner_ok_def kept_def)
  then have "method_ok this h c w (c4\<lparr>c_state := OPEN\<rparr>, w4, Nothing)"
    using i st by - (rule method_ok_from [where ?c1.0 = ?d and ?w1.0 = w2]; simp add: inner_ok_def kept_def)
  with e show ?thesis by blast
qed

lemma method_ok_before:
  "inner_ok this h c w c1 w1 \<Longrightarrow> method_ok this h c1 w1 r \<Longrightarrow> method_ok this h c w r"
  by (rule method_ok_from) (simp_all add: inner_ok_def)

lemma fc_connect_ok:
  assumes core: "conn_core this h c w" and st: "c_state c = CONNECTING"
  shows "\<exists>r. fc_connect env this c w = Some r \<and> method_ok this h c w r"
proof -
  obtain ssl where ssl: "c_connection c = Some ssl" using core_ssl [OF core] ..
  obtain result w1 where r: "ssl_connect env ssl w = (result, w1)" by fastforce
  note ses = ssl_connect_world [OF r]
  note i = core_session [OF core ses]
  then have core1: "conn_core this h c w1" by (simp add: inner_ok_def)
  show ?thesis
  proof (cases result)
    case NEED_READ
    with await_read_ok [OF core1, of "Cb_connect this"] st r ssl has_ssl_called(1) [OF r] show ?thesis
      by (auto simp: fc_connect_def intro!: method_ok_before [OF i] method_ok_inner)
  next
    case NEED_WRITE
    with await_write_ok [OF core1, of "Cb_connect this"] st r ssl has_ssl_called(1) [OF r] show ?thesis
      by (auto simp: fc_connect_def intro!: method_ok_before [OF i] method_ok_inner)
  next
    case SUCCESS
    with open_up_ok [OF core1 st] r ssl has_ssl_called(1) [OF r] show ?thesis
      by (auto simp: fc_connect_def intro: method_ok_before [OF i])
  qed (use fc_close_after [OF core ses] r ssl in \<open>simp_all add: fc_connect_def\<close>)
qed

lemma fc_incoming_ok:
  assumes ok: "conn_ok this h c w"
  shows "\<exists>r. fc_incoming env c w = Some r \<and> method_ok this h c w r"
proof -
  have core: "conn_core this h c w" using ok by (simp add: conn_ok_def)
  obtain ssl where ssl: "c_connection c = Some ssl" using core_ssl [OF core] ..
  obtain result b w1 where r: "ssl_read env ssl w = (result, b, w1)" using prod_cases3 by blast
  note ses = ssl_read_world [OF r]
  note i = core_session [OF core ses]
  have "method_ok this h c w (c, w1, p)" if "p \<noteq> Call_shutdown" for p
    using method_ok_inner [OF i _ that] ok by (simp add: conn_ok_def)
  then show ?thesis
    using fc_close_after [OF core ses] by (cases result) (simp_all add: fc_incoming_def ssl r)
qed

lemma core_buffer: "conn_core this h (c\<lparr>c_buffer := b\<rparr>) w = conn_core this h c w"
  by (simp add: conn_core_def)

text \<open>Writing ends with the read handler alone, so it is only right in a state that keeps one.\<close>

lemma fc_outgoing_ok:
  assumes ok: "conn_ok this h c w" and st: "c_state c = OPEN"
  shows "\<exists>r. fc_outgoing env c w = Some r \<and> method_ok this h c w r"
proof -
  have core: "conn_core this h c w" and rd: "reg_valid (c_read c)" and has: "has_ssl (c_connection c)"
    using ok st by (auto simp: conn_ok_def)
  obtain ssl where ssl: "c_connection c = Some ssl" using core_ssl [OF core] ..
  obtain result w1 where r: "ssl_write env ssl (c_buffer c) w = (result, w1)" by fastforce
  note ses = ssl_write_world [OF r]
  note i = core_session [OF core ses]
  let ?c = "c\<lparr>c_buffer := []\<rparr>"
  obtain c2 w2 where 2: "reset_write ?c w1 = (c2, w2)" by fastforce
  have "conn_core this h ?c w1" using i by (simp add: inner_ok_def core_buffer)
  from inner_reset_write [OF this 2] have i2: "inner_ok this h ?c w1 c2 w2" "reg_valid (c_read c2)"
    using rd by simp_all
  have "method_ok this h ?c w1 (c2, w2, Nothing)" using i2 has by (intro method_ok_inner) simp_all
  then have fin: "method_ok this h c w (c2, w2, Nothing)"
    using i by - (rule method_ok_from [where ?c1.0 = ?c and ?w1.0 = w1]; simp add: inner_ok_def kept_state)
  have "method_ok this h c w (c, w1, Nothing)"
    using method_ok_inner [OF i] rd has by simp
  then show ?thesis
    using fc_close_after [OF core ses] fin by (cases result) (simp_all add: fc_outgoing_def ssl r 2)
qed

lemma fc_do_shutdown_ok:
  assumes core: "conn_core this h (c\<lparr>c_state := SHUTTING_DOWN\<rparr>) w" and st: "c_state c \<noteq> CLOSED"
  shows "\<exists>r. fc_do_shutdown env this c w = Some r \<and> method_ok this h c w r"
proof -
  let ?c = "c\<lparr>c_state := SHUTTING_DOWN\<rparr>"
  obtain ssl where ssl: "c_connection c = Some ssl" using core_ssl [OF core] by auto
  obtain result w1 where r: "ssl_shutdown env ssl w = (result, w1)" by fastforce
  note ses = ssl_shutdown_world [OF r]
  note i = core_session [OF core ses]
  then have core1: "conn_core this h ?c w1" by (simp add: inner_ok_def)
  have lift: "method_ok this h c w x" if "method_ok this h ?c w x" for x
    using that core st by - (rule method_ok_from [where ?c1.0 = ?c and ?w1.0 = w];
      cases "c_state c"; simp add: footprint_refl core_loop kept_state)
  show ?thesis
  proof (cases result)
    case NEED_READ
    with await_read_ok [OF core1, of "Cb_shutdown this"] r ssl has_ssl_called(2) [OF r] show ?thesis
      by (auto simp: fc_do_shutdown_def intro!: lift method_ok_before [OF i] method_ok_inner)
  next
    case NEED_WRITE
    with await_write_ok [OF core1, of "Cb_shutdown this"] r ssl has_ssl_called(2) [OF r] show ?thesis
      by (auto simp: fc_do_shutdown_def intro!: lift method_ok_before [OF i] method_ok_inner)
  qed (use fc_close_after(1) [OF core ses] r ssl in \<open>auto simp: fc_do_shutdown_def intro: lift\<close>)
qed

lemma core_same_state: "c_state c = st \<Longrightarrow> c\<lparr>c_state := st\<rparr> = c"
  by auto

lemma fc_shutdown_ok:
  assumes ok: "conn_ok this h c w"
  shows "\<exists>r. fc_shutdown env this c w = Some r \<and> method_ok this h c w r"
proof (cases "c_state c = CONNECTING \<or> c_state c = OPEN")
  case True
  have core: "conn_core this h c w" using ok by (simp add: conn_ok_def)
  obtain c1 w1 where 1: "reset_read c w = (c1, w1)" by fastforce
  from inner_reset_read [OF core 1] have i1: "inner_ok this h c w c1 w1" "\<not> reg_valid (c_read c1)" by auto
  obtain c2 w2 where 2: "reset_write c1 w1 = (c2, w2)" by fastforce
  from i1 have "conn_core this h c1 w1" by (simp add: inner_ok_def)
  from inner_reset_write [OF this 2] have i2: "inner_ok this h c1 w1 c2 w2"
    "\<not> reg_valid (c_write c2)" "\<not> reg_valid (c_read c2)" using i1 by auto
  note i = inner_ok_trans [OF i1(1) i2(1)]
  then have core2: "conn_core this h c2 w2" by (simp add: inner_ok_def)
  then obtain s where s: "c_socket c2 = Some s" by (rule conn_coreE)
  from core_restate [OF core2 i2(3,2)] have "conn_core this h (c2\<lparr>c_state := SHUTTING_DOWN\<rparr>) w2" by simp
  moreover have "c_state c2 \<noteq> CLOSED" using i True by (auto simp: inner_ok_def)
  ultimately obtain r where r: "fc_do_shutdown env this c2 w2 = Some r"
    "method_ok this h c2 w2 r" using fc_do_shutdown_ok by blast
  have "fc_shutdown env this c w = Some r"
    using True s r(1) by (simp add: fc_shutdown_def 1 2)
  then show ?thesis using method_ok_before [OF i r(2)] by blast
next
  case False
  then show ?thesis
    using ok inner_ok_refl [of this h c w]
    by (auto simp: fc_shutdown_def conn_ok_def intro!: method_ok_inner)
qed

lemma fc_exception_ok:
  assumes "conn_core this h c w"
  shows "\<exists>r. fc_exception c w = Some r \<and> method_ok this h c w r"
  using fc_close_after [OF assms, of w] by (auto simp: fc_exception_def same_but_session_def)

lemma fc_send_ok:
  assumes ok: "conn_ok this h c w" and send: "fc_send this b c w = (ok, c', w')"
  shows "conn_ok this h c' w'" "footprint h w w'" "kept c c'" "w_open w' = w_open w" "c_state c' = c_state c"
proof -
  have core: "conn_core this h c w" using ok by (simp add: conn_ok_def)
  then obtain s where s: "c_socket c = Some s" "m_handle s = h" by (rule conn_coreE)
  obtain c1 w1 where 1: "(if c_state c = OPEN \<and> \<not> reg_valid (c_write c)
      then assign_write h (Cb_outgoing this) c w else (c, w)) = (c1, w1)" by fastforce
  have i: "inner_ok this h c w c1 w1 \<and> (reg_valid (c_read c1) \<or> reg_valid (c_write c1) \<and> c_state c \<noteq> OPEN)"
    using 1 ok inner_assign_write [OF core, of "Cb_outgoing this" c1 w1] inner_ok_refl [OF core]
    by (auto simp: conn_ok_def split: if_splits)
  have cases: "c' = c \<and> w' = w \<or> c' = c1\<lparr>c_buffer := b\<rparr> \<and> w' = w1"
    using send s 1 by (auto simp: fc_send_def split: if_splits)
  show "conn_ok this h c' w'" "footprint h w w'" "kept c c'" "w_open w' = w_open w" "c_state c' = c_state c"
    using cases ok i core_buffer [of this h b c1 w1]
    by (auto simp: conn_ok_def inner_ok_def kept_def footprint_refl core_loop)
qed

subsection \<open>Construction\<close>

text \<open>No handler is registered for a handle that is not open.\<close>

definition handlers_open :: "world \<Rightarrow> bool" where
  "handlers_open w \<longleftrightarrow> loop_ok (w_loop w) \<and> (\<forall>t h. h \<notin> set (w_open w) \<longrightarrow> handler (w_loop w) t h = None)"

text \<open>A new object is either live on a handle that was not open before, or closed with everything as it
  was.\<close>

definition born :: "nat \<Rightarrow> ForwarderConnection \<Rightarrow> world \<Rightarrow> world \<Rightarrow> bool" where
  "born this c w w' \<longleftrightarrow>
     (\<exists>h. h \<notin> set (w_open w) \<and> conn_ok this h c w' \<and> w_open w' = h # w_open w \<and> footprint h w w')
     \<or> (conn_closed c \<and> w_open w' = w_open w \<and> handler (w_loop w') = handler (w_loop w)
        \<and> (\<forall>h. footprint h w w'))"

lemma same_but_session_trans: "same_but_session w w' \<Longrightarrow> same_but_session w' w'' \<Longrightarrow> same_but_session w w''"
  by (simp add: same_but_session_def)

lemma born_closed:
  assumes "same_but_session w w1" and "loop_ok (w_loop w)" and "conn_closed c"
  shows "born this c w w1" "born this c w (config_setBad c' w1)"
  using assms by (auto simp: born_def footprint_def same_but_session_def config_setBad_def setBad_def
      rotate_bad_mset split: option.splits)

text \<open>The last steps, on a socket with a fresh handle.\<close>

lemma connect_fresh:
  assumes opn: "handlers_open w" and sess: "same_but_session w w1"
    and so: "opens (Some s) w1 w2"
    and c: "c_socket c = Some s" "c_connection c \<noteq> None" "c_forwarder c \<noteq> None" "c_state c = CONNECTING"
      "verified (m_handle s) (c_connection c) (c_forwarder c)"
      "c_read c = no_registration" "c_write c = no_registration" "c_exception c = no_registration"
      "c_incoming c = None" "\<not> c_shutdown c"
    and x: "assign_exception (m_handle s) (Cb_exception this) c w2 = (c3, w3)"
  shows "\<exists>c' w' p. fc_connect env this c3 w3 = Some (c', w', p) \<and> c_incoming c' = None \<and> \<not> c_shutdown c'
    \<and> born this c' w w'"
proof -
  let ?h = "m_handle s"
  from so have h: "0 \<le> ?h" "?h \<notin> set (w_open w1)" and w2: "same_but_tick (w1\<lparr>w_open := ?h # w_open w1\<rparr>) w2"
    by (auto simp: opens_def)
  have open1: "handler (w_loop w2) = handler (w_loop w)" "loop_ok (w_loop w2)" "w_open w2 = ?h # w_open w"
    "w_config w2 = w_config w" "w_context w2 = w_context w" "?h \<notin> set (w_open w)"
    using w2 sess h opn by (auto simp: same_but_tick_def same_but_session_def handlers_open_def)
  have none: "handler (w_loop w2) t ?h = None" for t
    using opn open1 by (simp add: handlers_open_def)
  have nx: "\<not> reg_valid (c_exception c)" using c by simp
  from assign_exceptionE [OF x nx none open1(2)] obtain l where
    l: "c3 = c\<lparr>c_exception := \<lparr>r_handle = ?h, r_type = Exception\<rparr>\<rparr>" "w3 = w2\<lparr>w_loop := l\<rparr>" "loop_ok l"
      "handler l = install (w_loop w2) Exception ?h (Some (Cb_exception this, 0))" .
  have "conn_core this ?h c3 w3"
    using c h open1 none l by (simp add: conn_core_def slot_def install_apply)
  moreover have "c_state c3 = CONNECTING" using c l by simp
  ultimately obtain c' w' p where r: "fc_connect env this c3 w3 = Some (c', w', p)"
    and m: "method_ok this ?h c3 w3 (c', w', p)"
    using fc_connect_ok by (metis prod_cases3)
  have fp: "footprint ?h w w3"
    using l open1 by (simp add: footprint_def install_apply)
  have k: "c_incoming c' = None" "\<not> c_shutdown c'" using m c l by (simp_all add: method_ok_def kept_def)
  have o3: "w_open w3 = ?h # w_open w" using l open1 by simp
  have "born this c' w w'"
  proof (cases "c_socket c' = None")
    case True
    with m have cl: "conn_closed c'" "\<And>t. handler (w_loop w') t ?h = None" "w_open w' = remove1 ?h (w_open w3)"
      and f: "footprint ?h w3 w'" by (auto simp: method_ok_def)
    have f': "footprint ?h w w'" using fp f by (rule footprint_trans)
    have "handler (w_loop w') = handler (w_loop w)"
      using f' cl(2) none open1 by (intro ext, rename_tac t j, case_tac "j = ?h") (auto simp: footprint_def)
    with f' cl o3 show ?thesis by (auto simp: born_def footprint_def)
  next
    case False
    with m c l have "conn_ok this ?h c' w'" "w_open w' = w_open w3" "footprint ?h w3 w'"
      by (auto simp: method_ok_def split: if_splits)
    with fp o3 open1(6) show ?thesis
      unfolding born_def by (metis footprint_trans)
  qed
  with r k show ?thesis by blast
qed

lemma new_connection_ok:
  assumes env: "env_ok env" and opn: "handlers_open w"
  shows "\<exists>c w'. new_ForwarderConnection env this w = Some (c, w') \<and> c_incoming c = None \<and> \<not> c_shutdown c
    \<and> born this c w w'"
proof -
  have lok: "loop_ok (w_loop w)" using opn by (simp add: handlers_open_def)
  obtain now w1 where 1: "call (e_time env) w = (now, w1)" by fastforce
  obtain conn w2 where 2: "ssl_create env w1 = (conn, w2)" by fastforce
  have s2: "same_but_session w w2"
    using same_but_session_trans [OF same_but_session_tick [OF same_but_tick_call [OF 1]]] ssl_create_world [OF 2]
    by blast
  have cfg: "w_config w2 = w_config w" using s2 by (simp add: same_but_session_def)
  let ?c = "\<lparr>c_timeout = now + m_timeout (w_config w), c_connection = conn, c_incoming = None,
              c_shutdown = False, c_state = CONNECTING, c_socket = None, c_read = no_registration,
              c_write = no_registration, c_exception = no_registration, c_buffer = [], c_forwarder = None\<rparr>"
  have nof: "new_ForwarderConnection env this w = Some (?c\<lparr>c_state := CLOSED\<rparr>, w2)"
    if "conn = None \<or> get_forwarder (w_config w2) = None"
    using that cfg by (auto simp: new_ForwarderConnection_def 1 2 Let_def split: option.splits)
  show ?thesis
  proof (cases "conn = None \<or> get_forwarder (w_config w2) = None")
    case True
    then show ?thesis using nof born_closed(1) [OF s2 lok, of "?c\<lparr>c_state := CLOSED\<rparr>" this]
      by (simp add: conn_closed_def)
  next
    case False
    then obtain ssl f where sf: "conn = Some ssl" "get_forwarder (w_config w2) = Some f" by auto
    obtain so w3 where 3: "Socket_connect env (remote f) TCP w2 = (so, w3)" by fastforce
    have opens: "opens so w2 w3" using Socket_connect_opens [OF env 3] .
    let ?d = "?c\<lparr>c_forwarder := Some f, c_connection := Some (configureVerifier f ssl)\<rparr>"
    show ?thesis
    proof (cases so)
      case None
      with opens have "same_but_session w2 w3" by (auto simp: opens_def same_but_session_tick)
      with s2 have "same_but_session w w3" by (rule same_but_session_trans)
      from born_closed(2) [OF this lok, of "?d\<lparr>c_state := CLOSED\<rparr>" _ "?d\<lparr>c_state := CLOSED\<rparr>"] None show ?thesis
        using sf cfg by (auto simp: new_ForwarderConnection_def 1 2 3 conn_closed_def config_setBad_def)
    next
      case (Some s)
      let ?e = "?d\<lparr>c_socket := Some s, c_connection := Some (ssl_setSocket (m_handle s) (configureVerifier f ssl))\<rparr>"
      obtain c4 w4 where 4: "assign_exception (m_handle s) (Cb_exception this) ?e w3 = (c4, w4)" by fastforce
      have "verified (m_handle s) (c_connection ?e) (c_forwarder ?e)"
        using verified_configured 2 unfolding sf by simp
      with connect_fresh [OF opn s2, of s w3 ?e this c4 w4 env] opens 4 Some
      obtain c' w' p where "fc_connect env this c4 w4 = Some (c', w', p)" "c_incoming c' = None"
        "\<not> c_shutdown c'" "born this c' w w'" by auto
      then show ?thesis
        using sf cfg Some 4 by (simp add: new_ForwarderConnection_def 1 2 3)
    qed
  qed
qed

subsection \<open>What the loop may call\<close>

lemma handler_read_cb:
  assumes "conn_ok this h c w" and "handler (w_loop w) t h = Some (cb, tm)"
  shows "(t = Read \<and> cb = read_cb (c_state c) this \<or> t = Write \<and> cb = write_cb (c_state c) this)
      \<and> tm = c_timeout c \<or> t = Exception \<and> cb = Cb_exception this"
  using assms by (cases t) (auto simp: conn_ok_def conn_core_def slot_def split: if_splits)

lemma fc_run_ok:
  assumes ok: "conn_ok this h c w" and reg: "handler (w_loop w) t h = Some (cb, tm)"
  shows "\<exists>r. fc_run env this cb c w = Some r \<and> method_ok this h c w r"
proof -
  have core: "conn_core this h c w" and nc: "c_state c \<noteq> CLOSED" using ok by (auto simp: conn_ok_def conn_core_def)
  have shut: "conn_core this h (c\<lparr>c_state := SHUTTING_DOWN\<rparr>) w" if "c_state c = SHUTTING_DOWN"
    using core core_same_state [OF that] by simp
  show ?thesis
    using handler_read_cb [OF ok reg] nc fc_connect_ok [OF core, of env] fc_incoming_ok [OF ok, of env]
      fc_outgoing_ok [OF ok, of env] fc_do_shutdown_ok [OF shut nc, of env] fc_exception_ok [OF core]
    by (cases "c_state c") auto
qed

subsection \<open>Properties of a connection\<close>

text \<open>
  Whatever the environment answers, constructing a connection neither dereferences
  a null pointer nor leaves anything half done: the new object is either live on a handle that was not
  open before, with the handlers of the state it is in and its time-out registered, or it is closed, no
  handle was left open and the loop holds exactly the handlers it held before.
\<close>

lemma new_connection_live_or_clean:
  assumes "env_ok env" and "handlers_open w"
  shows "\<exists>c w'. new_ForwarderConnection env this w = Some (c, w') \<and> born this c w w'"
  using new_connection_ok [OF assms, of this] by blast

definition served_world :: world where
  "served_world = new_world\<lparr>w_config := \<lparr>m_timeout = 5, m_forwarders = [forwarder_at 1, forwarder_at 2]\<rparr>\<rparr>"

lemma handlers_open_served: "handlers_open served_world"
  by (simp add: handlers_open_def served_world_def new_world_def)

text \<open>
  Property C17 (invariant). Any callback the loop holds for the handle of a live connection runs without a
  null dereference and leaves the connection either live (its registrations and the loop in step, waiting
  for a read or a write with its time-out, an open one for the answer), or closed with its handle closed,
  no handler left for it and the owner told exactly when it asked to be; the handlers of other handles
  and the set of forwarders are not touched.
\<close>

theorem callback_keeps_connection:
  assumes "conn_ok this h c w" and "handler (w_loop w) t h = Some (cb, tm)"
  shows "\<exists>c' w' p. fc_run env this cb c w = Some (c', w', p) \<and> footprint h w w'
    \<and> (if p = Call_shutdown \<or> c_socket c' = None
       then conn_closed c' \<and> (\<forall>t. handler (w_loop w') t h = None) \<and> w_open w' = remove1 h (w_open w)
            \<and> (p = Call_shutdown \<longleftrightarrow> c_shutdown c)
       else conn_ok this h c' w' \<and> w_open w' = w_open w)"
  using fc_run_ok [OF assms, of env] unfolding method_ok_def by (fastforce split: if_splits)

definition sample_conn :: ForwarderConnection where
  "sample_conn = \<lparr>c_timeout = 1005,
     c_connection = Some \<lparr>m_ssl = True, ssl_fd = Some 3, ssl_verify = True, ssl_session = None, m_verifier = None\<rparr>,
     c_incoming = None, c_shutdown = True, c_state = OPEN, c_socket = Some \<lparr>m_handle = 3, m_domain = PF_INET\<rparr>,
     c_read = \<lparr>r_handle = 3, r_type = Read\<rparr>, c_write = no_registration,
     c_exception = \<lparr>r_handle = 3, r_type = Exception\<rparr>, c_buffer = [], c_forwarder = Some (forwarder_at 1)\<rparr>"

definition sample_world :: world where
  "sample_world = served_world\<lparr>w_open := [3], w_loop := \<lparr>m_readFunctions = [(3, (Cb_incoming 0, 1005))],
     m_writeFunctions = [], m_exceptFunctions = [(3, Cb_exception 0)]\<rparr>\<rparr>"

lemma conn_ok_sample: "conn_ok 0 3 sample_conn sample_world"
  by (simp add: conn_ok_def conn_core_def sample_conn_def sample_world_def slot_def handler.simps
      loop_ok_def sorted_map_def verified_def has_ssl_def forwarder_at_def)

lemma handler_sample: "handler (w_loop sample_world) Read 3 = Some (Cb_incoming 0, 1005)"
  "handler (w_loop sample_world) Exception 3 = Some (Cb_exception 0, 0)"
  by (simp_all add: sample_world_def handler.simps)

theorem callback_keeps_connection_witness:
  "\<exists>c' w' p. fc_run calm_env 0 (Cb_incoming 0) sample_conn sample_world = Some (c', w', p)
     \<and> footprint 3 sample_world w'"
  using callback_keeps_connection [OF conn_ok_sample handler_sample(1), of calm_env] by blast

text \<open>
  The state of a connection only moves forward (connecting, open, shutting down,
  closed) and the preference order of the forwarders changes only when the connection closes in the same
  step, by giving up its own forwarder.
\<close>

lemma callback_moves_forward:
  assumes "conn_ok this h c w" and "handler (w_loop w) t h = Some (cb, tm)"
    and "fc_run env this cb c w = Some (c', w', p)"
  shows "c_state c \<le> c_state c'
    \<and> (w_config w' = w_config w \<or> c_state c' = CLOSED \<and> (\<exists>f. c_forwarder c = Some f \<and> w_config w' = setBad f (w_config w)))"
proof -
  from fc_run_ok [OF assms(1,2), of env] assms(3) have m: "method_ok this h c w (c', w', p)" by simp
  then have k: "kept c c'"
    and g: "w_config w' = w_config w \<or> c_socket c' = None \<and> w_config w' = w_config (config_setBad c w)"
    by (auto simp: method_ok_def)
  have cl: "c_socket c' = None \<Longrightarrow> c_state c' = CLOSED"
    using m by (auto simp: method_ok_def conn_closed_def split: if_splits)
  from assms(1) obtain f where "c_forwarder c = Some f" by (auto simp: conn_ok_def conn_core_def)
  with g cl k show ?thesis by (auto simp: kept_def config_setBad_def)
qed

end
