(* ===== verification/Client_Forwarders.thy ===== *)
theory Client_Forwarders
  imports Forwarder_Connection Dns_Packet
begin

text \<open>
  \<open>src/src/client_forwarders.cpp\<close>: the pool of connections to forwarders, the queue of the queries
  that wait for room in it, and the answers that go back to the clients.

  The state \<open>system\<close> holds what the program's objects hold at run time: the world, the heap of connection
  objects (an object exists from its construction until its last owner lets it go), the pool
  \<open>m_forwarders\<close> by address, the queue, the sockets of the server and the watch of the configuration.  The three fields at the end are a
  history the code does not keep: the queries in the order they arrived, the queries for which a connection
  was made with the address of the connection, and the datagrams handed to \<open>sendmsg\<close> with the address of the
  connection whose answer they carry.

  \<open>None\<close> is undefined behaviour: a null or dangling pointer, an access outside a packet, or an owner
  called back from the destructor of one of its own objects.
\<close>

record QueuedQuery =
  q_reply :: reply_to
  q_request :: bytes

record datagram =
  d_socket :: int
  d_to :: sockaddr_storage
  d_tolen :: nat
  d_control :: "cmsg option"
  d_data :: bytes

text \<open>The watch of the configuration file (\<open>src/src/vyatta_check.cpp\<close>), an object of \<open>main\<close>.\<close>

record VyattaCheck =
  vc_fd :: int
  vc_dote :: bool
  vc_read :: Registration

record system =
  s_world :: world
  s_heap :: "nat \<rightharpoonup> ForwarderConnection"
  s_next :: nat
  s_forwarders :: "nat list"
  s_max :: nat
  s_queue :: "QueuedQuery list"
  s_servers :: "(Socket \<times> Registration) list"
  s_watch :: "VyattaCheck option"
  s_arrived :: "QueuedQuery list"
  s_started :: "(nat \<times> QueuedQuery) list"
  s_sent :: "(nat \<times> datagram) list"

subsection \<open>Objects\<close>

definition store :: "nat \<Rightarrow> ForwarderConnection \<Rightarrow> world \<Rightarrow> system \<Rightarrow> system" where
  "store this c w s = s\<lparr>s_heap := (s_heap s)(this \<mapsto> c), s_world := w\<rparr>"

text \<open>The destructor closes the connection before the object goes.\<close>

definition destroy :: "nat \<Rightarrow> system \<Rightarrow> system option" where
  "destroy this s = do {
     c \<leftarrow> s_heap s this;
     let (c, w, p) = fc_close c (s_world s);
     (if p = Nothing then Some (s\<lparr>s_heap := (s_heap s)(this := None), s_world := w\<rparr>) else None)
   }"

subsection \<open>Requests\<close>

function (sequential) sendRequest :: "env \<Rightarrow> QueuedQuery \<Rightarrow> system \<Rightarrow> system option"
  and dequeue :: "env \<Rightarrow> system \<Rightarrow> system option" where
  "sendRequest env q s = do {
     let this = s_next s;
     (c, w) \<leftarrow> new_ForwarderConnection env this (s_world s);
     let s = s\<lparr>s_next := Suc this, s_started := s_started s @ [(this, q)]\<rparr>;
     let (sent, c, w) = fc_send this (q_request q) c w;
     (if sent then
        let c = fc_setIncomingCallback (q_reply q) c;
            c = fc_setShutdownCallback c
        in Some ((store this c w s)\<lparr>s_forwarders := s_forwarders s @ [this]\<rparr>)
      else do {
        s' \<leftarrow> dequeue env (store this c w s);
        destroy this s'
      })
   }"
| "dequeue env s =
     (case s_queue s of
        [] \<Rightarrow> Some s
      | q # rest \<Rightarrow> sendRequest env q (s\<lparr>s_queue := rest\<rparr>))"
  by pat_completeness auto
termination
  by (relation "measure (\<lambda>x. case x of Inl (env, q, s) \<Rightarrow> Suc (2 * length (s_queue s))
      | Inr (env, s) \<Rightarrow> 2 * length (s_queue s))") (auto simp: store_def)

declare sendRequest.simps [simp del] dequeue.simps [simp del]

definition handleRequest :: "env \<Rightarrow> QueuedQuery \<Rightarrow> system \<Rightarrow> system option" where
  "handleRequest env q s =
     (let s = s\<lparr>s_arrived := s_arrived s @ [q]\<rparr> in
      if length (s_forwarders s) < s_max s then sendRequest env q s
      else Some (s\<lparr>s_queue := s_queue s @ [q]\<rparr>))"

definition handleShutdown :: "env \<Rightarrow> nat \<Rightarrow> system \<Rightarrow> system option" where
  "handleShutdown env this s = do {
     s \<leftarrow> (if this \<in> set (s_forwarders s)
           then destroy this (s\<lparr>s_forwarders := remove1 this (s_forwarders s)\<rparr>) else Some s);
     dequeue env s
   }"

subsection \<open>Answers\<close>

definition client_length :: "sockaddr_storage \<Rightarrow> nat" where
  "client_length client =
     (if ss_family client = AF_INET then 16 else if ss_family client = AF_INET6 then 28 else 0)"

definition addSourceAddress :: "sockaddr_storage \<Rightarrow> int \<Rightarrow> cmsg option" where
  "addSourceAddress server interface =
     (if ss_family server = AF_INET6 then
        Some \<lparr>cm_level = IPPROTO_IPV6, cm_type = IPV6_PKTINFO, cm_addr4 = 0, cm_addr6 = sin6_addr server,
              cm_ifindex = interface\<rparr>
      else if ss_family server = AF_INET then
        Some \<lparr>cm_level = SOL_IP, cm_type = IP_PKTINFO, cm_addr4 = sin_addr server, cm_addr6 = 0,
              cm_ifindex = interface\<rparr>
      else None)"

definition response_to :: "reply_to \<Rightarrow> bytes \<Rightarrow> datagram" where
  "response_to r payload =
     \<lparr>d_socket = rp_socket r, d_to = rp_client r, d_tolen = client_length (rp_client r),
      d_control = (if rp_interface r \<noteq> -1 then addSourceAddress (rp_server r) (rp_interface r) else None),
      d_data = payload\<rparr>"

text \<open>\<open>this\<close> is for the history only.  \<open>sendmsg\<close> reads \<open>length()\<close> bytes from \<open>data()\<close> on.\<close>

definition handleIncoming :: "env \<Rightarrow> nat \<Rightarrow> reply_to \<Rightarrow> bytes \<Rightarrow> system \<Rightarrow> system option" where
  "handleIncoming env this r buffer s =
     (if \<not> valid buffer then Some s
      else do {
        (_, p) \<leftarrow> removeEdnsPadding (e_char_signed env) buffer;
        (if packet_length p \<le> length (data p) then
           let (_, w) = call (e_sendmsg env) (s_world s)
           in Some (s\<lparr>s_world := w,
                      s_sent := s_sent s @ [(this, response_to r (take (packet_length p) (data p)))]\<rparr>)
         else None)
      })"

subsection \<open>Callbacks\<close>

text \<open>What a method of a connection ends with; \<open>shutdown\<close> after an answer can only end with the shutdown
  callback.\<close>

definition finish :: "env \<Rightarrow> nat \<Rightarrow> ForwarderConnection \<times> world \<times> pending \<Rightarrow> system \<Rightarrow> system option" where
  "finish env this r s =
     (case r of (c, w, p) \<Rightarrow>
        let s = store this c w s in
        (case p of
           Nothing \<Rightarrow> Some s
         | Call_shutdown \<Rightarrow> handleShutdown env this s
         | Call_incoming _ \<Rightarrow> None))"

definition on_incoming :: "env \<Rightarrow> nat \<Rightarrow> bytes \<Rightarrow> system \<Rightarrow> system option" where
  "on_incoming env this buffer s = do {
     c \<leftarrow> s_heap s this;
     reply \<leftarrow> c_incoming c;
     s \<leftarrow> handleIncoming env this reply buffer s;
     c \<leftarrow> s_heap s this;
     r \<leftarrow> fc_shutdown env this c (s_world s);
     finish env this r s
   }"

definition conn_callback :: "env \<Rightarrow> nat \<Rightarrow> callback \<Rightarrow> system \<Rightarrow> system option" where
  "conn_callback env this cb s = do {
     c \<leftarrow> s_heap s this;
     (c, w, p) \<leftarrow> fc_run env this cb c (s_world s);
     (case p of
        Call_incoming buffer \<Rightarrow> on_incoming env this buffer (store this c w s)
      | _ \<Rightarrow> finish env this (c, w, p) s)
   }"

end
