(* ===== verification/Config_Watch.thy ===== *)
theory Config_Watch
  imports Client_Forwarders
begin

text \<open>
  \<open>src/src/vyatta_check.cpp\<close> as a part of the running system: the watch of the configuration file, its handler
  in the loop, and the replacement of the forwarders (\<open>Dote::setForwarders\<close>) that a reload ends with.

  What one call of \<open>handleRead\<close> finds is an answer of the environment: the forwarders of the valid
  configurations that its reads lead to, in their order.  How they come from the file and the store is
  modelled in \<open>Vyatta\<close>.
\<close>

definition setForwarders :: "Forwarder list \<Rightarrow> ForwarderConfig \<Rightarrow> ForwarderConfig" where
  "setForwarders fs c = foldl (\<lambda>c f. addForwarder f c) (clear c) fs"

definition new_VyattaCheck :: "env \<Rightarrow> world \<Rightarrow> VyattaCheck \<times> world" where
  "new_VyattaCheck env w =
     (let (fd, w) = call (\<lambda>n. e_inotify_init env n (w_open w)) w in
      if fd \<ge> 0 then
        let w = w\<lparr>w_open := fd # w_open w\<rparr>;
            (r, w) = call (e_add_watch env) w
        in if r = -1 then (\<lparr>vc_fd = -1, vc_dote = False, vc_read = no_registration\<rparr>, close_handle fd w)
           else (\<lparr>vc_fd = fd, vc_dote = False, vc_read = no_registration\<rparr>, w)
      else (\<lparr>vc_fd = fd, vc_dote = False, vc_read = no_registration\<rparr>, w))"

text \<open>The loop of \<open>dote\<close> is never null.\<close>

definition configure_watch :: "VyattaCheck \<Rightarrow> world \<Rightarrow> VyattaCheck \<times> world" where
  "configure_watch v w =
     (if vc_fd v \<ge> 0 then
        let (r, l) = registerRead (vc_fd v) Cb_config 0 (w_loop w);
            (r, l) = move_assign (vc_read v) r l
        in (v\<lparr>vc_dote := True, vc_read := r\<rparr>, w\<lparr>w_loop := l\<rparr>)
      else (v, w))"

definition watch_configuration :: "env \<Rightarrow> system \<Rightarrow> system" where
  "watch_configuration env s =
     (let (v, w) = new_VyattaCheck env (s_world s);
          (v, w) = configure_watch v w
      in s\<lparr>s_world := w, s_watch := Some v\<rparr>)"

definition reload_all :: "Forwarder list list \<Rightarrow> ForwarderConfig \<Rightarrow> ForwarderConfig" where
  "reload_all configs c = foldl (\<lambda>c fs. setForwarders fs c) c configs"

definition handleConfigRead :: "env \<Rightarrow> system \<Rightarrow> system option" where
  "handleConfigRead env s = do {
     v \<leftarrow> s_watch s;
     let (configs, w) = call (e_reloads env) (s_world s);
     Some (s\<lparr>s_world := (if vc_dote v then w\<lparr>w_config := reload_all configs (w_config w)\<rparr> else w)\<rparr>)
   }"

end
