(* ===== verification/Server.thy ===== *)
theory Server
  imports Config_Watch
begin

text \<open>
  \<open>src/src/server.cpp\<close>: the sockets that listen for DNS queries over UDP, and the step from a received
  datagram to a query in TCP framing with the address to answer from.  What the loop runs for a callback,
  of the server, of a connection or of the watch, is \<open>exec\<close> at the end.
\<close>

definition control_message :: "cmsg \<Rightarrow> sockaddr_storage \<times> int \<Rightarrow> sockaddr_storage \<times> int" where
  "control_message m r = (case r of (dstAddr, ifIndex) \<Rightarrow>
     let r = (if cm_level m = SOL_IP \<and> cm_type m = IP_PKTINFO
              then (dstAddr\<lparr>sin_addr := cm_addr4 m, ss_family := AF_INET\<rparr>, cm_ifindex m)
              else (dstAddr, ifIndex))
     in if cm_level m = IPPROTO_IPV6 \<and> cm_type m = IPV6_RECVPKTINFO
        then ((fst r)\<lparr>sin6_addr := cm_addr6 m, ss_family := AF_INET6\<rparr>, cm_ifindex m)
        else r)"

text \<open>The destination starts as \<open>AF_UNSPEC\<close>; its other fields are not initialised, and not read
  before the family says which was written.\<close>

definition getDestinationAddress :: "cmsg list \<Rightarrow> sockaddr_storage \<times> int" where
  "getDestinationAddress ms = foldl (\<lambda>r m. control_message m r) (unspec_addr, -1) ms"

text \<open>\<open>emplace_back\<close> moves the registration into the vector.\<close>

definition addServer :: "env \<Rightarrow> sockaddr_storage \<Rightarrow> system \<Rightarrow> bool \<times> system" where
  "addServer env addr s =
     (let (so, w) = Socket_bind env addr UDP (s_world s) in
      case so of
        None \<Rightarrow> (False, s\<lparr>s_world := w\<rparr>)
      | Some serverSocket \<Rightarrow>
          let (_, w) = enablePacketInfo env serverSocket w;
              (registration, l) = registerRead (m_handle serverSocket) Cb_server 0 (w_loop w);
              (registration, _) = move_construct registration
          in (True, s\<lparr>s_world := w\<lparr>w_loop := l\<rparr>,
                      s_servers := s_servers s @ [(serverSocket, registration)]\<rparr>))"

definition DNS_BUFFER :: nat where "DNS_BUFFER = 512"

text \<open>Two bytes of length in network order, then the datagram.\<close>

definition frame_request :: "bytes \<Rightarrow> bytes" where
  "frame_request d = [hi8 (of_nat (length d)), lo8 (of_nat (length d))] @ d"

definition handleDnsRequest :: "env \<Rightarrow> int \<Rightarrow> system \<Rightarrow> system option" where
  "handleDnsRequest env handle s =
     (case List.find (\<lambda>e. m_handle (fst e) = handle) (s_servers s) of
        None \<Rightarrow> Some s
      | Some _ \<Rightarrow>
          let (message, w) = call (e_recvmsg env) (s_world s);
              s = s\<lparr>s_world := w\<rparr>
          in case message of
               None \<Rightarrow> Some s
             | Some m \<Rightarrow>
                 if rm_trunc m then Some s
                 else let (dstAddr, ifIndex) = getDestinationAddress (rm_control m) in
                      handleRequest env
                        \<lparr>q_reply = \<lparr>rp_socket = handle, rp_client = rm_from m, rp_server = dstAddr,
                                     rp_interface = ifIndex\<rparr>,
                         q_request = frame_request (rm_data m)\<rparr> s)"

fun exec :: "env \<Rightarrow> callback \<Rightarrow> int \<Rightarrow> system \<Rightarrow> system option" where
  "exec env (Cb_connect this) _ s = conn_callback env this (Cb_connect this) s"
| "exec env (Cb_incoming this) _ s = conn_callback env this (Cb_incoming this) s"
| "exec env (Cb_outgoing this) _ s = conn_callback env this (Cb_outgoing this) s"
| "exec env (Cb_shutdown this) _ s = conn_callback env this (Cb_shutdown this) s"
| "exec env (Cb_exception this) _ s = conn_callback env this (Cb_exception this) s"
| "exec env Cb_server handle s = handleDnsRequest env handle s"
| "exec env Cb_config _ s = handleConfigRead env s"

definition system_loop :: "system \<Rightarrow> callback Loop" where
  "system_loop s = w_loop (s_world s)"

definition new_system :: "ForwarderConfig \<Rightarrow> nat \<Rightarrow> system" where
  "new_system config maxConnections =
     \<lparr>s_world = new_world\<lparr>w_config := config\<rparr>, s_heap = Map.empty, s_next = 0, s_forwarders = [],
      s_max = maxConnections, s_queue = [], s_servers = [], s_watch = None, s_arrived = [], s_started = [], s_sent = []\<rparr>"

end
