(* ===== verification/Pool_Invariant.thy ===== *)
theory Pool_Invariant
  imports Connection_Invariant Server
begin

text \<open>
  The invariant of the pool of connections (\<open>pool_ok\<close>): which objects are live, on which handles, and
  that nothing else is open or registered in the loop; how it survives a change on one handle; and that
  \<open>sendRequest\<close> and \<open>dequeue\<close>, which call each other until a connection comes up or the queue is empty,
  return and keep it (\<open>sends\<close>).
\<close>

subsection \<open>What a new connection can be sent\<close>

lemma slot_ops_keep:
  "c_buffer (fst (reset_read c w)) = c_buffer c" "c_state (fst (reset_read c w)) = c_state c"
  "c_buffer (fst (reset_write c w)) = c_buffer c" "c_state (fst (reset_write c w)) = c_state c"
  "c_buffer (fst (assign_read h cb c w)) = c_buffer c" "c_state (fst (assign_read h cb c w)) = c_state c"
  "c_buffer (fst (assign_write h cb c w)) = c_buffer c" "c_state (fst (assign_write h cb c w)) = c_state c"
  "c_buffer (fst (assign_exception h cb c w)) = c_buffer c" "c_state (fst (assign_exception h cb c w)) = c_state c"
  "c_buffer (fst (reset_exception c w)) = c_buffer c"
  by (simp_all add: reset_read_def reset_write_def reset_exception_def assign_read_def assign_write_def
      assign_exception_def split: prod.splits)

lemma slot_ops_keepD:
  "reset_read c w = (c', w') \<Longrightarrow> c_buffer c' = c_buffer c \<and> c_state c' = c_state c"
  "reset_write c w = (c', w') \<Longrightarrow> c_buffer c' = c_buffer c \<and> c_state c' = c_state c"
  "assign_read h cb c w = (c', w') \<Longrightarrow> c_buffer c' = c_buffer c \<and> c_state c' = c_state c"
  "assign_write h cb c w = (c', w') \<Longrightarrow> c_buffer c' = c_buffer c \<and> c_state c' = c_state c"
  "assign_exception h cb c w = (c', w') \<Longrightarrow> c_buffer c' = c_buffer c \<and> c_state c' = c_state c"
  "reset_exception c w = (c', w') \<Longrightarrow> c_buffer c' = c_buffer c"
  using slot_ops_keep by (metis fst_conv)+

lemma fc_close_buffer: "fc_close c w = (c', w', p) \<Longrightarrow> c_buffer c' = c_buffer c \<and> (c_state c' = c_state c \<or> c_state c' = CLOSED)"
  by (auto simp: fc_close_def dest!: slot_ops_keepD split: option.split_asm prod.split_asm)

lemma await_read_buffer: "await_read cb c w = Some (c', w') \<Longrightarrow> c_buffer c' = c_buffer c \<and> c_state c' = c_state c"
  by (auto simp: await_read_def bind_eq_Some_conv dest!: slot_ops_keepD split: if_split_asm prod.split_asm)

lemma await_write_buffer: "await_write cb c w = Some (c', w') \<Longrightarrow> c_buffer c' = c_buffer c \<and> c_state c' = c_state c"
  by (auto simp: await_write_def bind_eq_Some_conv dest!: slot_ops_keepD split: if_split_asm prod.split_asm)

lemma open_up_buffer:
  assumes "open_up this c w = Some (c', w', p)"
  shows "c_buffer c' = c_buffer c \<and> c_state c' = OPEN \<and> p = Nothing"
proof -
  obtain c1 w1 where 1: "reset_read c w = (c1, w1)" by fastforce
  obtain c2 w2 where 2: "reset_write c1 w1 = (c2, w2)" by fastforce
  from assms obtain s where s: "c_socket c2 = Some s" by (auto simp: open_up_def 1 2 bind_eq_Some_conv)
  obtain c3 w3 where 3: "assign_read (m_handle s) (Cb_incoming this) c2 w2 = (c3, w3)" by fastforce
  obtain c4 w4 where 4: "assign_write (m_handle s) (Cb_outgoing this) c3 w3 = (c4, w4)" by fastforce
  show ?thesis
    using assms slot_ops_keepD(1) [OF 1] slot_ops_keepD(2) [OF 2] slot_ops_keepD(3) [OF 3] slot_ops_keepD(4) [OF 4]
    by (auto simp: open_up_def 1 2 3 4 s split: if_split_asm)
qed

lemma fc_connect_buffer:
  assumes "fc_connect env this c w = Some (c', w', p)" and "c_state c = CONNECTING"
  shows "c_buffer c' = c_buffer c \<and> c_state c' \<noteq> SHUTTING_DOWN"
proof -
  from assms(1) obtain ssl where "c_connection c = Some ssl" by (auto simp: fc_connect_def bind_eq_Some_conv)
  moreover obtain r w1 where "ssl_connect env ssl w = (r, w1)" by fastforce
  ultimately show ?thesis
    using assms await_read_buffer await_write_buffer open_up_buffer
      fc_close_buffer [of c w1 c' w' p] fc_close_buffer [of c "config_setBad c w1" c' w' p]
    by (cases r) (fastforce simp: fc_connect_def bind_eq_Some_conv)+
qed

lemma new_connection_buffer:
  assumes "new_ForwarderConnection env this w = Some (c, w')"
  shows "c_buffer c = [] \<and> c_state c \<noteq> SHUTTING_DOWN"
  using assms
  by (auto simp: new_ForwarderConnection_def Let_def bind_eq_Some_conv
      dest!: fc_connect_buffer slot_ops_keepD split: option.split_asm prod.split_asm)

lemma fc_send_new:
  assumes "conn_ok this h c w" and "c_buffer c = []" and "c_state c \<noteq> SHUTTING_DOWN"
  shows "fst (fc_send this b c w)"
proof -
  from assms(1) obtain s where "c_socket c = Some s" "c_state c \<noteq> CLOSED"
    by (auto simp: conn_ok_def conn_core_def)
  with assms(2,3) show ?thesis by (cases "c_state c") (auto simp: fc_send_def Let_def split: prod.splits)
qed

lemma fc_send_closed: "conn_closed c \<Longrightarrow> fc_send this b c w = (False, c, w)"
  by (simp add: fc_send_def conn_closed_def)

lemma fc_close_closed: "conn_closed c \<Longrightarrow> fc_close c w = (c, w, Nothing)"
  by (simp add: fc_close_def conn_closed_def)

subsection \<open>The invariant of the pool\<close>

definition conn_handle :: "ForwarderConnection \<Rightarrow> int" where
  "conn_handle c = (case c_socket c of None \<Rightarrow> -1 | Some s \<Rightarrow> m_handle s)"

definition live :: "system \<Rightarrow> nat \<Rightarrow> bool" where
  "live s this \<longleftrightarrow> (\<exists>c. s_heap s this = Some c \<and> conn_ok this (conn_handle c) c (s_world s)
     \<and> c_shutdown c \<and> c_incoming c \<noteq> None)"

definition handle_of :: "system \<Rightarrow> nat \<Rightarrow> int" where
  "handle_of s this = (case s_heap s this of None \<Rightarrow> -1 | Some c \<Rightarrow> conn_handle c)"

text \<open>The handles that are not of the pool: those of the server sockets and of the watch.\<close>

definition watch_handles :: "system \<Rightarrow> int list" where
  "watch_handles s = (case s_watch s of None \<Rightarrow> [] | Some v \<Rightarrow> if vc_fd v \<ge> 0 then [vc_fd v] else [])"

definition socket_handles :: "system \<Rightarrow> int list" where
  "socket_handles s = map (\<lambda>e. m_handle (fst e)) (s_servers s)"

definition server_handles :: "system \<Rightarrow> int list" where
  "server_handles s = socket_handles s @ watch_handles s"

lemma server_handles_cong:
  "(s_servers s', s_watch s') = (s_servers s, s_watch s) \<Longrightarrow> server_handles s' = server_handles s \<and> watch_handles s' = watch_handles s"
  by (simp add: server_handles_def socket_handles_def watch_handles_def)

definition server_ok :: "system \<Rightarrow> int \<Rightarrow> bool" where
  "server_ok s h \<longleftrightarrow> h \<in> set (w_open (s_world s)) \<and> handler (system_loop s) Read h = Some (if h \<in> set (watch_handles s) then Cb_config else Cb_server, 0)
     \<and> handler (system_loop s) Write h = None \<and> handler (system_loop s) Exception h = None"

text \<open>The connections \<open>fs\<close> are live on distinct handles, which no server socket has; no other handle is
  open and nothing else is registered in the loop.\<close>

definition pool_ok :: "nat list \<Rightarrow> system \<Rightarrow> bool" where
  "pool_ok fs s \<longleftrightarrow>
     handlers_open (s_world s) \<and> distinct (w_open (s_world s))
     \<and> set (w_open (s_world s)) = handle_of s ` set fs \<union> set (server_handles s)
     \<and> distinct (map (handle_of s) fs @ server_handles s)
     \<and> (\<forall>i \<in> set fs. live s i \<and> i < s_next s) \<and> (\<forall>h \<in> set (server_handles s). server_ok s h)
     \<and> (\<forall>t h. handler (system_loop s) t h \<noteq> None \<longrightarrow> h \<in> handle_of s ` set fs \<union> set (server_handles s))"

lemma conn_ok_frame:
  assumes "conn_ok i k c w" and "\<And>t. handler (w_loop w') t k = handler (w_loop w) t k"
    and "loop_ok (w_loop w')" and "k \<in> set (w_open w')"
  shows "conn_ok i k c w'"
  using assms by (simp add: conn_ok_def conn_core_def slot_def)

lemma conn_ok_handle: "conn_ok this h c w \<Longrightarrow> conn_handle c = h \<and> h \<in> set (w_open w)"
  by (auto simp: conn_ok_def conn_core_def conn_handle_def)

lemma live_open: "live s i \<Longrightarrow> handle_of s i \<in> set (w_open (s_world s))"
  by (auto simp: live_def handle_of_def dest: conn_ok_handle)

lemma pool_open:
  "pool_ok fs s \<Longrightarrow> h \<in> handle_of s ` set fs \<union> set (server_handles s) \<Longrightarrow> h \<in> set (w_open (s_world s))"
  by (auto simp: pool_ok_def server_ok_def dest: live_open)

text \<open>A step on one handle \<open>h\<close> that no connection of \<open>fs\<close> and no server socket has.\<close>

lemma pool_frame:
  assumes pool: "pool_ok fs s" and fp: "footprint h (s_world s) w'"
    and h: "h \<notin> handle_of s ` set fs \<union> set (server_handles s)"
    and opn: "\<forall>k \<in> set (w_open (s_world s)) - {h}. k \<in> set (w_open w')"
    and heap: "\<forall>i \<in> set fs. s_heap s' i = s_heap s i" "s_world s' = w'" "(s_servers s', s_watch s') = (s_servers s, s_watch s)"
  shows "map (handle_of s') fs = map (handle_of s) fs" "server_handles s' = server_handles s"
    and "\<forall>i \<in> set fs. live s' i" and "\<forall>k \<in> set (server_handles s). server_ok s' k"
    and "\<And>t k. handler (w_loop w') t k \<noteq> None \<Longrightarrow> k \<noteq> h \<Longrightarrow> k \<in> handle_of s ` set fs \<union> set (server_handles s)"
proof -
  show "map (handle_of s') fs = map (handle_of s) fs" using heap(1) by (simp add: handle_of_def)
  show "server_handles s' = server_handles s" using server_handles_cong [OF heap(3)] by blast
  have fr: "handler (w_loop w') t k = handler (system_loop s) t k" if "k \<noteq> h" for t k
    using fp that by (simp add: footprint_def system_loop_def)
  have lok: "loop_ok (w_loop w')" using fp by (simp add: footprint_def)
  show "\<forall>i \<in> set fs. live s' i"
  proof
    fix i assume i: "i \<in> set fs"
    from pool i obtain c where c: "s_heap s i = Some c" "conn_ok i (conn_handle c) c (s_world s)"
      "c_shutdown c" "c_incoming c \<noteq> None" by (auto simp: pool_ok_def live_def)
    have k: "conn_handle c \<noteq> h" using h i c(1) by (force simp: handle_of_def)
    have "conn_ok i (conn_handle c) c w'"
      using conn_ok_frame [OF c(2), of w'] fr [OF k] lok opn k conn_ok_handle [OF c(2)]
      by (simp add: system_loop_def)
    then show "live s' i" using c heap(1) i heap(2) by (simp add: live_def)
  qed
  show "\<forall>k \<in> set (server_handles s). server_ok s' k"
  proof
    fix k assume that: "k \<in> set (server_handles s)"
    then have "server_ok s k" "k \<noteq> h" using pool h by (auto simp: pool_ok_def)
    then show "server_ok s' k" using fr opn heap(2) server_handles_cong [OF heap(3)] by (simp add: server_ok_def system_loop_def)
  qed
  show "k \<in> handle_of s ` set fs \<union> set (server_handles s)"
    if "handler (w_loop w') t k \<noteq> None" "k \<noteq> h" for t k
    using that fr pool by (simp add: pool_ok_def)
qed

lemma handlers_openI:
  assumes "loop_ok (w_loop w)" and "\<And>t k. handler (w_loop w) t k \<noteq> None \<Longrightarrow> k \<in> set (w_open w)"
  shows "handlers_open w"
  unfolding handlers_open_def using assms by blast

lemma image_of_map: "map f xs = map g xs \<Longrightarrow> f ` set xs = g ` set xs"
  by (metis list.set_map)

lemma pool_ok_same:
  assumes "pool_ok fs s" and "handler (w_loop w') = handler (w_loop (s_world s))" and "loop_ok (w_loop w')"
    and "w_open w' = w_open (s_world s)"
    and "\<forall>i \<in> set fs. s_heap s' i = s_heap s i" "s_world s' = w'"
      "(s_servers s', s_watch s') = (s_servers s, s_watch s)" "s_next s \<le> s_next s'"
  shows "pool_ok fs s'"
proof -
  have hd: "map (handle_of s') fs = map (handle_of s) fs" using assms(5) by (simp add: handle_of_def)
  have "live s' i" if i: "i \<in> set fs" for i
  proof -
    from assms(1) i obtain c where c: "s_heap s i = Some c" "conn_ok i (conn_handle c) c (s_world s)"
      "c_shutdown c" "c_incoming c \<noteq> None" by (auto simp: pool_ok_def live_def)
    have "conn_ok i (conn_handle c) c w'"
      using conn_ok_frame [OF c(2), of w'] assms(2-4) conn_ok_handle [OF c(2)] by simp
    then show ?thesis using c assms(5) i assms(6) by (simp add: live_def)
  qed
  moreover have "server_handles s' = server_handles s" "watch_handles s' = watch_handles s"
    using server_handles_cong [OF assms(7)] by blast+
  ultimately show ?thesis
    using assms unfolding pool_ok_def hd image_of_map [OF hd]
    by (auto simp: system_loop_def handlers_open_def server_ok_def intro: less_le_trans)
qed

lemma pool_ok_join:
  assumes pool: "pool_ok fs s" and new: "h \<notin> set (w_open (s_world s))" "conn_ok this h c w'"
    "w_open w' = h # w_open (s_world s)" and fp: "footprint h (s_world s) w'"
    and c: "c_shutdown c" "c_incoming c \<noteq> None"
    and nu: "this \<notin> set fs" "this < s_next s'"
    and s': "s_heap s' = (s_heap s)(this \<mapsto> c)" "s_world s' = w'" "(s_servers s', s_watch s') = (s_servers s, s_watch s)" "s_next s \<le> s_next s'"
  shows "pool_ok (fs @ [this]) s'"
proof -
  have h: "h \<notin> handle_of s ` set fs \<union> set (server_handles s)"
    using pool_open [OF pool] new(1) by blast
  have opn: "\<forall>k \<in> set (w_open (s_world s)) - {h}. k \<in> set (w_open w')" using new(3) by simp
  have heap: "\<forall>i \<in> set fs. s_heap s' i = s_heap s i" using nu(1) s'(1) by auto
  note fr = pool_frame [where s' = s', OF pool fp h opn heap s'(2,3)]
  have hn: "handle_of s' this = h" using conn_ok_handle [OF new(2)] s'(1) by (simp add: handle_of_def)
  have ln: "live s' this"
    using new(2) conn_ok_handle [OF new(2)] c s' by (simp add: live_def)
  have owned: "k \<in> insert h (handle_of s ` set fs \<union> set (server_handles s))"
    if "handler (w_loop w') t k \<noteq> None" for t k
    using fr(5) [OF that] by auto
  have "k \<in> set (w_open w')" if "handler (w_loop w') t k \<noteq> None" for t k
    using owned [OF that] pool_open [OF pool] new(3) by auto
  then have "handlers_open w'" using fp by (intro handlers_openI) (auto simp: footprint_def)
  then show ?thesis
    using pool fr(3,4) owned new(1,3) s'(2,4) nu(2) h hn ln
    unfolding pool_ok_def map_append set_append image_Un fr(1,2) image_of_map [OF fr(1)] system_loop_def
    by (auto intro: less_le_trans)
qed

subsection \<open>Sending and dequeuing\<close>

definition same_config :: "world \<Rightarrow> world \<Rightarrow> bool" where
  "same_config w w' \<longleftrightarrow> mset (m_forwarders (w_config w')) = mset (m_forwarders (w_config w))
     \<and> m_timeout (w_config w') = m_timeout (w_config w) \<and> w_context w' = w_context w"

lemma same_config_refl [simp]: "same_config w w"
  by (simp add: same_config_def)

lemma same_config_trans: "same_config w w' \<Longrightarrow> same_config w' w'' \<Longrightarrow> same_config w w''"
  by (simp add: same_config_def)

lemma footprint_config: "footprint h w w' \<Longrightarrow> same_config w w'"
  by (simp add: footprint_def same_config_def)

text \<open>No object is left over where the next ones will be allocated.\<close>

definition heap_fresh :: "system \<Rightarrow> bool" where
  "heap_fresh s \<longleftrightarrow> (\<forall>i \<ge> s_next s. s_heap s i = None)"

text \<open>What a run of \<open>sendRequest\<close> and \<open>dequeue\<close> does that starts with the queries \<open>qs\<close> waiting: a
  prefix of them, in order, gets a connection each; all of these connections but at most one are closed
  and gone again, and the one that is left joins the pool; without one the queue is empty.\<close>

definition sends :: "QueuedQuery list \<Rightarrow> system \<Rightarrow> system \<Rightarrow> bool" where
  "sends qs s s' \<longleftrightarrow>
     pool_ok (s_forwarders s') s' \<and> s_next s \<le> s_next s'
     \<and> (\<forall>i < s_next s. s_heap s' i = s_heap s i)
     \<and> (\<forall>i \<ge> s_next s. s_heap s' i \<noteq> None \<longrightarrow> i \<in> set (s_forwarders s'))
     \<and> (s_forwarders s' = s_forwarders s \<and> s_queue s' = []
        \<or> (\<exists>i \<ge> s_next s. s_forwarders s' = s_forwarders s @ [i]))
     \<and> s_max s' = s_max s \<and> (s_servers s', s_watch s') = (s_servers s, s_watch s) \<and> s_arrived s' = s_arrived s \<and> s_sent s' = s_sent s
     \<and> same_config (s_world s) (s_world s')
     \<and> (\<exists>xs. s_started s' = s_started s @ xs \<and> map snd xs @ s_queue s' = qs
          \<and> map fst xs = [s_next s..<s_next s']
          \<and> (\<forall>(i, q) \<in> set xs. \<forall>c. s_heap s' i = Some c \<longrightarrow> c_incoming c = Some (q_reply q)))"

lemma pool_lt: "pool_ok fs s \<Longrightarrow> i \<in> set fs \<Longrightarrow> i < s_next s"
  by (simp add: pool_ok_def)

text \<open>The connection came up: it joins the pool.\<close>

lemma sends_live:
  assumes pool: "pool_ok (s_forwarders s) s" and fresh: "heap_fresh s"
    and new: "h \<notin> set (w_open (s_world s))" "conn_ok (s_next s) h c w" "w_open w = h # w_open (s_world s)"
      "footprint h (s_world s) w" "c_shutdown c" "c_incoming c = Some (q_reply q)"
  shows "sends (q # s_queue s) s
    ((store (s_next s) c w (s\<lparr>s_next := Suc (s_next s), s_started := s_started s @ [(s_next s, q)]\<rparr>))
       \<lparr>s_forwarders := s_forwarders s @ [s_next s]\<rparr>)" (is "sends _ _ ?s'")
proof -
  have n: "s_next s \<notin> set (s_forwarders s)" using pool_lt [OF pool] by blast
  have "pool_ok (s_forwarders s @ [s_next s]) ?s'"
    using n new by (intro pool_ok_join [OF pool new(1-4)]) (simp_all add: store_def)
  moreover have "s_heap s i = None" if "i \<ge> s_next s" for i using fresh that by (simp add: heap_fresh_def)
  ultimately show ?thesis
    using new footprint_config [OF new(4)]
    by (auto simp: sends_def store_def intro!: exI [of _ "[(s_next s, q)]"])
qed

text \<open>The connection did not come up: what the rest of the queue then does, and its destruction.\<close>

lemma sends_closed:
  fixes q :: QueuedQuery
  assumes pool: "pool_ok (s_forwarders s) s" and fresh: "heap_fresh s"
    and c: "conn_closed c" "w_open w = w_open (s_world s)" "handler (w_loop w) = handler (w_loop (s_world s))"
      "loop_ok (w_loop w)" "same_config (s_world s) w"
  defines "s2 \<equiv> store (s_next s) c w (s\<lparr>s_next := Suc (s_next s), s_started := s_started s @ [(s_next s, q)]\<rparr>)"
  assumes rest: "sends (s_queue s) s2 s3"
  shows "pool_ok (s_forwarders s2) s2" "heap_fresh s2"
    and "\<exists>s'. destroy (s_next s) s3 = Some s' \<and> sends (q # s_queue s) s s'"
proof -
  have n: "s_next s \<notin> set (s_forwarders s)" using pool_lt [OF pool] by blast
  show "pool_ok (s_forwarders s2) s2"
    using pool_ok_same [OF pool c(3,4,2), of s2] n by (simp add: s2_def store_def)
  show "heap_fresh s2" using fresh by (simp add: heap_fresh_def s2_def store_def)
  have h3: "s_heap s3 (s_next s) = Some c" using rest by (simp add: sends_def s2_def store_def)
  let ?s' = "s3\<lparr>s_heap := (s_heap s3)(s_next s := None)\<rparr>"
  have d: "destroy (s_next s) s3 = Some ?s'"
    by (simp add: destroy_def h3 fc_close_closed [OF c(1)])
  have n3: "s_next s \<notin> set (s_forwarders s3)"
    using rest n by (auto simp: sends_def s2_def store_def)
  have p3: "pool_ok (s_forwarders s3) s3" using rest by (simp add: sends_def)
  have lok3: "loop_ok (w_loop (s_world s3))" using p3 by (simp add: pool_ok_def handlers_open_def)
  have pool': "pool_ok (s_forwarders s3) ?s'"
    using n3 lok3 by (intro pool_ok_same [OF p3 refl _ refl]) auto
  have cfg: "same_config (s_world s) (s_world s3)"
    using c(5) rest same_config_trans by (auto simp: sends_def s2_def store_def)
  from rest obtain xs where xs: "s_started s3 = (s_started s @ [(s_next s, q)]) @ xs"
    "map snd xs @ s_queue s3 = s_queue s" "map fst xs = [Suc (s_next s)..<s_next s3]"
    "\<forall>(i, q) \<in> set xs. \<forall>c. s_heap s3 i = Some c \<longrightarrow> c_incoming c = Some (q_reply q)"
    by (auto simp: sends_def s2_def store_def)
  have le: "Suc (s_next s) \<le> s_next s3" using rest by (simp add: sends_def s2_def store_def)
  have up: "map fst ((s_next s, q) # xs) = [s_next s..<s_next s3]"
    using xs(3) le by (simp add: upt_conv_Cons)
  have hist: "\<forall>(i, q) \<in> set ((s_next s, q) # xs). \<forall>c. s_heap ?s' i = Some c \<longrightarrow> c_incoming c = Some (q_reply q)"
    using xs(4) by (fastforce split: if_splits)
  have "sends (q # s_queue s) s ?s'"
    using rest pool' cfg le xs(1,2) up hist n3 fresh
    unfolding sends_def
    by (auto simp: s2_def store_def heap_fresh_def intro!: exI [of _ "(s_next s, q) # xs"] split: if_splits)
  with d show "\<exists>s'. destroy (s_next s) s3 = Some s' \<and> sends (q # s_queue s) s s'" by blast
qed

lemma born_cases:
  assumes "born this c w w'"
  obtains h where "h \<notin> set (w_open w)" "conn_ok this h c w'" "w_open w' = h # w_open w" "footprint h w w'"
  | "conn_closed c" "w_open w' = w_open w" "handler (w_loop w') = handler (w_loop w)" "\<And>h. footprint h w w'"
  using assms by (auto simp: born_def)

lemma live_extend: "conn_ok i h c w \<Longrightarrow> conn_ok i h (c\<lparr>c_incoming := r, c_shutdown := b\<rparr>) w"
  by (simp add: conn_ok_def conn_core_def)

lemma sendRequest_ok:
  assumes env: "env_ok env"
  shows "pool_ok (s_forwarders s) s \<Longrightarrow> heap_fresh s \<Longrightarrow>
    \<exists>s'. sendRequest env q s = Some s' \<and> sends (q # s_queue s) s s'"
proof (induction "length (s_queue s)" arbitrary: s q rule: less_induct)
  case less
  note pool = less.prems(1) and fresh = less.prems(2)
  let ?me = "s_next s"
  have ho: "handlers_open (s_world s)" using pool by (simp add: pool_ok_def)
  from new_connection_ok [OF env ho, of ?me] obtain c w where
    new: "new_ForwarderConnection env ?me (s_world s) = Some (c, w)" and b: "born ?me c (s_world s) w"
    by blast
  note buf = new_connection_buffer [OF new]
  let ?s1 = "s\<lparr>s_next := Suc ?me, s_started := s_started s @ [(?me, q)]\<rparr>"
  from b show ?case
  proof (cases rule: born_cases)
    case (1 h)
    obtain ok c' w' where snd: "fc_send ?me (q_request q) c w = (ok, c', w')" using prod_cases3 by blast
    then have ok using fc_send_new [OF 1(2), of "q_request q"] buf by simp
    note so = fc_send_ok [OF 1(2) snd]
    have fp: "footprint h (s_world s) w'" using footprint_trans [OF 1(4) so(2)] .
    have "sends (q # s_queue s) s ((store ?me (c'\<lparr>c_incoming := Some (q_reply q), c_shutdown := True\<rparr>) w' ?s1)
        \<lparr>s_forwarders := s_forwarders s @ [?me]\<rparr>)"
      using so 1 live_extend [OF so(1)] by (intro sends_live [OF pool fresh 1(1) _ _ fp]) simp_all
    then show ?thesis
      using new snd \<open>ok\<close> by (simp add: sendRequest.simps Let_def store_def)
  next
    case 2
    let ?s2 = "store ?me c w ?s1"
    have lok: "loop_ok (w_loop w)" and cfg: "same_config (s_world s) w"
      using 2(4) [of 0] footprint_config [OF 2(4) [of 0]] by (simp_all add: footprint_def)
    have p2: "pool_ok (s_forwarders s) ?s2"
    proof (rule pool_ok_same [OF pool 2(3) lok 2(2)])
      show "\<forall>i \<in> set (s_forwarders s). s_heap ?s2 i = s_heap s i"
        using pool_lt [OF pool] by (auto simp: store_def)
    qed (simp_all add: store_def)
    have f2: "heap_fresh ?s2" using fresh by (simp add: heap_fresh_def store_def)
    have fw2: "s_forwarders ?s2 = s_forwarders s" "s_queue ?s2 = s_queue s" by (simp_all add: store_def)
    have "\<exists>s3. dequeue env ?s2 = Some s3 \<and> sends (s_queue s) ?s2 s3"
    proof (cases "s_queue s")
      case Nil
      then show ?thesis using p2 f2 fw2
        by (auto simp: dequeue.simps sends_def heap_fresh_def)
    next
      case (Cons q' rest)
      let ?s2' = "?s2\<lparr>s_queue := rest\<rparr>"
      have "pool_ok (s_forwarders ?s2') ?s2'"
        using pool_ok_same [OF p2 refl, of ?s2'] lok fw2 by (simp add: store_def)
      moreover have "heap_fresh ?s2'" using f2 by (simp add: heap_fresh_def)
      ultimately obtain s3 where s3: "sendRequest env q' ?s2' = Some s3" "sends (q' # rest) ?s2' s3"
        using less.hyps [of ?s2' q'] Cons by auto
      then have "sends (s_queue s) ?s2 s3" using Cons by (simp add: sends_def)
      then show ?thesis using s3(1) Cons fw2 by (auto simp: dequeue.simps)
    qed
    then obtain s3 where s3: "dequeue env ?s2 = Some s3" "sends (s_queue s) ?s2 s3" by blast
    from sends_closed(3) [OF pool fresh 2(1,2,3) lok cfg s3(2)] obtain s' where
      "destroy ?me s3 = Some s'" "sends (q # s_queue s) s s'" by blast
    then show ?thesis
      using new s3(1) fc_send_closed [OF 2(1)] by (auto simp: sendRequest.simps Let_def)
  qed
qed

lemma dequeue_ok:
  assumes "env_ok env" and "pool_ok (s_forwarders s) s" and "heap_fresh s"
  shows "\<exists>s'. dequeue env s = Some s' \<and> sends (s_queue s) s s'"
proof (cases "s_queue s")
  case Nil
  then show ?thesis using assms by (auto simp: dequeue.simps sends_def heap_fresh_def)
next
  case (Cons q rest)
  let ?s = "s\<lparr>s_queue := rest\<rparr>"
  have "loop_ok (w_loop (s_world s))" using assms(2) by (simp add: pool_ok_def handlers_open_def)
  then have "pool_ok (s_forwarders ?s) ?s" using pool_ok_same [OF assms(2) refl, of ?s] by simp
  moreover have "heap_fresh ?s" using assms(3) by (simp add: heap_fresh_def)
  ultimately obtain s' where "sendRequest env q ?s = Some s'" "sends (q # rest) ?s s'"
    using sendRequest_ok [OF assms(1), of ?s q] by auto
  then show ?thesis using Cons by (auto simp: dequeue.simps sends_def)
qed

end
