(* ===== verification/System_Invariant.thy ===== *)
theory System_Invariant
  imports Pool_Invariant
begin

text \<open>
  The invariant of the whole system, \<open>sys_ok\<close> with \<open>sent_ok\<close>: the pool, the queue, and the history of
  queries and answers.  Every callback that is in the loop keeps it (\<open>exec_ok\<close>), and without undefined
  behaviour as long as the answers of the forwarders do not drive the packet wrapper into it
  (\<open>answers_clean\<close>).
\<close>

subsection \<open>The history\<close>

text \<open>With the queries \<open>qs\<close> still waiting: the queries that got a connection and those waiting are the
  arrived ones in their order; the connections were numbered in that order and answer to the client of
  their query.\<close>

definition hist_ok :: "QueuedQuery list \<Rightarrow> system \<Rightarrow> bool" where
  "hist_ok qs s \<longleftrightarrow>
     map snd (s_started s) @ qs = s_arrived s \<and> map fst (s_started s) = [0..<s_next s]
     \<and> (\<forall>(i, q) \<in> set (s_started s). \<forall>c. s_heap s i = Some c \<longrightarrow> c_incoming c = Some (q_reply q))"

text \<open>At most one datagram was sent for a connection, to the client of its query, and a connection whose
  answer was sent is past the states in which it reads answers.\<close>

definition sent_ok :: "system \<Rightarrow> bool" where
  "sent_ok s \<longleftrightarrow> distinct (map fst (s_sent s))
     \<and> (\<forall>(i, d) \<in> set (s_sent s). (\<exists>q payload. (i, q) \<in> set (s_started s) \<and> d = response_to (q_reply q) payload)
          \<and> (\<forall>c. s_heap s i = Some c \<longrightarrow> SHUTTING_DOWN \<le> c_state c))"

lemma started_lt: "hist_ok qs s \<Longrightarrow> (i, q) \<in> set (s_started s) \<Longrightarrow> i < s_next s"
proof -
  assume h: "hist_ok qs s" and i: "(i, q) \<in> set (s_started s)"
  then have "i \<in> set (map fst (s_started s))" by force
  with h show "i < s_next s" by (simp only: hist_ok_def set_upt atLeastLessThan_iff)
qed

lemma hist_sends:
  assumes h: "hist_ok qs s" and sn: "sends qs s s'"
  shows "hist_ok (s_queue s') s'"
proof -
  from sn obtain xs where xs: "s_started s' = s_started s @ xs" "map snd xs @ s_queue s' = qs"
    "map fst xs = [s_next s..<s_next s']"
    "\<forall>(i, q) \<in> set xs. \<forall>c. s_heap s' i = Some c \<longrightarrow> c_incoming c = Some (q_reply q)"
    and same: "s_arrived s' = s_arrived s" "s_next s \<le> s_next s'"
    and old: "\<And>i. i < s_next s \<Longrightarrow> s_heap s' i = s_heap s i"
    by (auto simp: sends_def)
  have a: "map snd (s_started s') @ s_queue s' = s_arrived s'"
    using h xs(1,2) same(1) by (simp add: hist_ok_def)
  have b: "map fst (s_started s') = [0..<s_next s']"
    using h xs(1,3) same(2) upt_add_eq_append [of 0 "s_next s" "s_next s' - s_next s"] by (simp add: hist_ok_def)
  have c: "c_incoming c = Some (q_reply q)" if "(i, q) \<in> set (s_started s')" "s_heap s' i = Some c" for i q c
  proof (cases "(i, q) \<in> set (s_started s)")
    case True
    then have "s_heap s i = Some c" using old [OF started_lt [OF h True]] that(2) by simp
    with h True show ?thesis by (auto simp: hist_ok_def)
  next
    case False
    with that xs(1) have "(i, q) \<in> set xs" by auto
    with xs(4) that(2) show ?thesis by auto
  qed
  show ?thesis
    using a b c by (auto simp: hist_ok_def)
qed

lemma hist_heap:
  assumes "hist_ok qs s"
    and "\<And>i c'. s_heap s' i = Some c' \<Longrightarrow> \<exists>c. s_heap s i = Some c \<and> kept c c'"
    and "s_started s' = s_started s" "s_arrived s' = s_arrived s" "s_next s' = s_next s"
  shows "hist_ok qs s'"
proof -
  have c: "c_incoming c' = Some (q_reply q)" if "(i, q) \<in> set (s_started s)" "s_heap s' i = Some c'" for i q c'
    using assms(1) assms(2) [OF that(2)] that(1) by (auto simp: hist_ok_def kept_def)
  show ?thesis using assms(1,3-) c by (fastforce simp: hist_ok_def)
qed

subsection \<open>The invariant of the system\<close>

definition sys_ok :: "system \<Rightarrow> bool" where
  "sys_ok s \<longleftrightarrow> pool_ok (s_forwarders s) s \<and> (\<forall>i. s_heap s i \<noteq> None \<longleftrightarrow> i \<in> set (s_forwarders s))
     \<and> length (s_forwarders s) \<le> s_max s \<and> (s_queue s \<noteq> [] \<longrightarrow> length (s_forwarders s) = s_max s)
     \<and> hist_ok (s_queue s) s"

lemma sys_fresh:
  assumes "sys_ok s" shows "heap_fresh s"
  unfolding heap_fresh_def
proof (intro allI impI)
  fix j assume "s_next s \<le> j"
  then have "j \<notin> set (s_forwarders s)" using assms pool_lt [of "s_forwarders s" s j] by (auto simp: sys_ok_def)
  then show "s_heap s j = None" using assms by (metis sys_ok_def)
qed

text \<open>What no step of the connections changes.\<close>

definition fixed :: "system \<Rightarrow> system \<Rightarrow> bool" where
  "fixed s s' \<longleftrightarrow> s_max s' = s_max s \<and> (s_servers s', s_watch s') = (s_servers s, s_watch s) \<and> same_config (s_world s) (s_world s')
     \<and> s_arrived s' = s_arrived s \<and> s_next s \<le> s_next s' \<and> (\<exists>xs. s_started s' = s_started s @ xs)"

text \<open>Of the objects that were there, \<open>i\<close> alone has changed, to \<open>c\<close>, unless it is gone.\<close>

definition only_changed :: "nat \<Rightarrow> ForwarderConnection \<Rightarrow> system \<Rightarrow> system \<Rightarrow> bool" where
  "only_changed i c s s' \<longleftrightarrow>
     (\<forall>j d. j < s_next s \<longrightarrow> s_heap s' j = Some d \<longrightarrow> (if j = i then d = c else s_heap s j = Some d))"

lemma sends_sys:
  assumes sn: "sends qs s s'" and heap: "\<forall>i. s_heap s i \<noteq> None \<longleftrightarrow> i \<in> set (s_forwarders s)"
    and pool: "pool_ok (s_forwarders s) s" and h: "hist_ok qs s"
    and room: "length (s_forwarders s) < s_max s"
    and full: "length qs > 1 \<longrightarrow> Suc (length (s_forwarders s)) = s_max s"
  shows "sys_ok s'"
proof -
  have fs: "s_forwarders s' = s_forwarders s \<and> s_queue s' = [] \<or> (\<exists>i \<ge> s_next s. s_forwarders s' = s_forwarders s @ [i])"
    and old: "\<And>i. i < s_next s \<Longrightarrow> s_heap s' i = s_heap s i"
    and nw: "\<And>i. i \<ge> s_next s \<Longrightarrow> s_heap s' i \<noteq> None \<Longrightarrow> i \<in> set (s_forwarders s')"
    and pool': "pool_ok (s_forwarders s') s'" and mx: "s_max s' = s_max s"
    using sn by (auto simp: sends_def)
  have heap': "s_heap s' i \<noteq> None \<longleftrightarrow> i \<in> set (s_forwarders s')" for i
  proof
    assume a: "s_heap s' i \<noteq> None"
    show "i \<in> set (s_forwarders s')"
    proof (cases "i < s_next s")
      case True
      then show ?thesis using a old heap fs by auto
    qed (use a nw in simp)
  next
    assume "i \<in> set (s_forwarders s')"
    then show "s_heap s' i \<noteq> None" using pool' by (auto simp: pool_ok_def live_def)
  qed
  have q: "s_queue s' \<noteq> [] \<longrightarrow> length (s_forwarders s') = s_max s'"
  proof
    assume ne: "s_queue s' \<noteq> []"
    with fs obtain i where i: "i \<ge> s_next s" "s_forwarders s' = s_forwarders s @ [i]" by auto
    then have "i < s_next s'" using pool_lt [OF pool'] by simp
    from sn obtain xs where xs: "map snd xs @ s_queue s' = qs" "map fst xs = [s_next s..<s_next s']"
      by (auto simp: sends_def)
    have "length xs = s_next s' - s_next s" using arg_cong [OF xs(2), of length] by simp
    with \<open>i < s_next s'\<close> i have "length xs > 0" by linarith
    with ne xs(1) have "length qs > 1" by (cases xs; cases "s_queue s'") auto
    with full i mx show "length (s_forwarders s') = s_max s'" by simp
  qed
  moreover have "length (s_forwarders s') \<le> s_max s'" using fs room mx by auto
  ultimately show ?thesis
    using pool' heap' q hist_sends [OF h sn] by (simp add: sys_ok_def)
qed

subsection \<open>One connection steps\<close>

text \<open>A step on the handle of one connection leaves the others and the servers as they were.\<close>

lemma others_survive:
  assumes pool: "pool_ok fs s" and i: "i \<in> set fs" and hi: "handle_of s i = h"
    and fp: "footprint h (s_world s) w'"
    and opn: "\<forall>k \<in> set (w_open (s_world s)) - {h}. k \<in> set (w_open w')"
    and s': "\<forall>j \<in> set fs - {i}. s_heap s' j = s_heap s j" "s_world s' = w'" "(s_servers s', s_watch s') = (s_servers s, s_watch s)"
  shows "h \<notin> handle_of s ` (set fs - {i}) \<union> set (server_handles s)"
    and "\<forall>j \<in> set fs - {i}. live s' j \<and> handle_of s' j = handle_of s j"
    and "\<forall>k \<in> set (server_handles s). server_ok s' k"
    and "\<And>t k. handler (w_loop w') t k \<noteq> None \<Longrightarrow> k \<noteq> h \<Longrightarrow>
      k \<in> handle_of s ` (set fs - {i}) \<union> set (server_handles s)"
proof -
  have dist: "distinct (map (handle_of s) fs @ server_handles s)" using pool by (simp add: pool_ok_def)
  show hno: "h \<notin> handle_of s ` (set fs - {i}) \<union> set (server_handles s)"
    using dist i hi by (auto simp: distinct_map inj_on_def)
  have fr: "handler (w_loop w') t k = handler (system_loop s) t k" if "k \<noteq> h" for t k
    using fp that by (simp add: footprint_def system_loop_def)
  have lok: "loop_ok (w_loop w')" using fp by (simp add: footprint_def)
  show "\<forall>j \<in> set fs - {i}. live s' j \<and> handle_of s' j = handle_of s j"
  proof
    fix j assume j: "j \<in> set fs - {i}"
    then obtain d where d: "s_heap s j = Some d" "conn_ok j (conn_handle d) d (s_world s)"
      "c_shutdown d" "c_incoming d \<noteq> None" using pool by (auto simp: pool_ok_def live_def)
    have "handle_of s j \<noteq> h" using hno j by blast
    then have k: "conn_handle d \<noteq> h" using d(1) by (simp add: handle_of_def)
    then have "conn_ok j (conn_handle d) d w'"
      using conn_ok_frame [OF d(2), of w'] fr lok opn conn_ok_handle [OF d(2)] by (simp add: system_loop_def)
    then show "live s' j \<and> handle_of s' j = handle_of s j"
      using d s' j by (simp add: live_def handle_of_def)
  qed
  show "\<forall>k \<in> set (server_handles s). server_ok s' k"
  proof
    fix k assume that: "k \<in> set (server_handles s)"
    then have "server_ok s k" "k \<noteq> h" using pool hno by (auto simp: pool_ok_def)
    then show "server_ok s' k" using fr opn s'(2) server_handles_cong [OF s'(3)] by (simp add: server_ok_def system_loop_def)
  qed
  show "k \<in> handle_of s ` (set fs - {i}) \<union> set (server_handles s)"
    if "handler (w_loop w') t k \<noteq> None" "k \<noteq> h" for t k
  proof -
    have "handler (system_loop s) t k \<noteq> None" using that fr by simp
    then have "k \<in> handle_of s ` set fs \<union> set (server_handles s)" using pool by (simp add: pool_ok_def)
    then show ?thesis using that(2) hi by auto
  qed
qed

text \<open>After a method that keeps its connection, only the object and its handle have changed.\<close>

lemma store_live:
  assumes ok: "sys_ok s" and i: "i \<in> set (s_forwarders s)" and c: "s_heap s i = Some c"
    and h: "conn_handle c = h"
    and m: "conn_ok i h c' w'" "w_open w' = w_open (s_world s)" "footprint h (s_world s) w'" "kept c c'"
  shows "sys_ok (store i c' w' s)" "fixed s (store i c' w' s)" "only_changed i c' s (store i c' w' s)"
proof -
  let ?s' = "store i c' w' s"
  have pool: "pool_ok (s_forwarders s) s" and heap: "\<And>j. s_heap s j \<noteq> None \<longleftrightarrow> j \<in> set (s_forwarders s)"
    using ok by (simp_all add: sys_ok_def)
  have hi: "handle_of s i = h" using c h by (simp add: handle_of_def)
  have opn: "\<forall>k \<in> set (w_open (s_world s)) - {h}. k \<in> set (w_open w')" using m(2) by simp
  have hp: "\<forall>j \<in> set (s_forwarders s) - {i}. s_heap ?s' j = s_heap s j" by (simp add: store_def)
  have wd: "s_world ?s' = w'" "(s_servers ?s', s_watch ?s') = (s_servers s, s_watch s)" by (simp_all add: store_def)
  note o = others_survive [where s' = ?s', OF pool i hi m(3) opn hp wd]
  have hd: "handle_of ?s' j = handle_of s j" for j
    using c h conn_ok_handle [OF m(1)] by (simp add: handle_of_def store_def)
  have ci: "c_shutdown c" "c_incoming c \<noteq> None"
    using pool i c by (auto simp: pool_ok_def live_def)
  have "live ?s' i" using m(1,4) ci conn_ok_handle [OF m(1)] by (auto simp: live_def store_def kept_def)
  with o(2) have live': "live ?s' j" if "j \<in> set (s_forwarders s)" for j using that by (cases "j = i") auto
  have owned: "k \<in> handle_of s ` set (s_forwarders s) \<union> set (server_handles s)"
    if "handler (w_loop w') t k \<noteq> None" for t k
    using o(4) [OF that] hi i by (cases "k = h") auto
  have "k \<in> set (w_open w')" if "handler (w_loop w') t k \<noteq> None" for t k
    using pool_open [OF pool owned [OF that]] m(2) by simp
  then have ho: "handlers_open w'" using m(3) by (intro handlers_openI) (auto simp: footprint_def)
  have srv: "server_handles ?s' = server_handles s" by (rule server_handles_cong [THEN conjunct1]) (simp add: store_def)
  have mp: "map (handle_of ?s') (s_forwarders s) = map (handle_of s) (s_forwarders s)" using hd by simp
  have pool': "pool_ok (s_forwarders s) ?s'"
    using pool live' o(3) owned ho m(2) unfolding pool_ok_def srv mp image_of_map [OF mp] system_loop_def
    by (auto simp: store_def)
  have "hist_ok (s_queue s) ?s'"
  proof (rule hist_heap [of "s_queue s" s])
    show "hist_ok (s_queue s) s" using ok by (simp add: sys_ok_def)
    show "\<exists>d. s_heap s j = Some d \<and> kept d d'" if "s_heap ?s' j = Some d'" for j d'
      using that c m(4) by (auto simp: store_def kept_def split: if_splits)
  qed (simp_all add: store_def)
  then show "sys_ok ?s'" using ok pool' c i by (auto simp: sys_ok_def store_def)
  show "fixed s ?s'" using footprint_config [OF m(3)] by (simp add: fixed_def store_def)
  show "only_changed i c' s ?s'" by (simp add: only_changed_def store_def)
qed

text \<open>A connection that a method has closed tells its owner: it leaves the pool, its object goes, and the
  first query of the queue gets the place.\<close>

lemma store_closed:
  assumes env: "env_ok env" and ok: "sys_ok s" and i: "i \<in> set (s_forwarders s)" and c: "s_heap s i = Some c"
    and h: "conn_handle c = h"
    and m: "conn_closed c'" "\<forall>t. handler (w_loop w') t h = None" "w_open w' = remove1 h (w_open (s_world s))"
      "footprint h (s_world s) w'"
  shows "\<exists>s'. handleShutdown env i (store i c' w' s) = Some s' \<and> sys_ok s' \<and> fixed s s'
    \<and> s_sent s' = s_sent s \<and> only_changed i c' s s'"
proof -
  have pool: "pool_ok (s_forwarders s) s" and heap: "\<forall>j. s_heap s j \<noteq> None \<longleftrightarrow> j \<in> set (s_forwarders s)"
    and hist: "hist_ok (s_queue s) s"
    using ok by (simp_all add: sys_ok_def)
  let ?fs = "remove1 i (s_forwarders s)"
  let ?s1 = "(store i c' w' s)\<lparr>s_forwarders := ?fs\<rparr>"
  let ?s2 = "?s1\<lparr>s_heap := (s_heap s)(i := None)\<rparr>"
  have dfs: "distinct (s_forwarders s)" using pool by (auto simp: pool_ok_def distinct_map)
  then have fset: "set ?fs = set (s_forwarders s) - {i}" by (rule set_remove1_eq)
  have d: "destroy i ?s1 = Some ?s2"
    by (simp add: destroy_def store_def fc_close_closed [OF m(1)])
  have hi: "handle_of s i = h" using c h by (simp add: handle_of_def)
  have do: "distinct (w_open (s_world s))" using pool by (simp add: pool_ok_def)
  have opn: "\<forall>k \<in> set (w_open (s_world s)) - {h}. k \<in> set (w_open w')" using m(3) do by (simp add: set_remove1_eq)
  have hp: "\<forall>j \<in> set (s_forwarders s) - {i}. s_heap ?s2 j = s_heap s j" by simp
  have wd: "s_world ?s2 = w'" "(s_servers ?s2, s_watch ?s2) = (s_servers s, s_watch s)" by (simp_all add: store_def)
  note o = others_survive [where s' = ?s2, OF pool i hi m(4) opn hp wd]
  have owned: "k \<in> handle_of s ` (set (s_forwarders s) - {i}) \<union> set (server_handles s)"
    if "handler (w_loop w') t k \<noteq> None" for t k
    using o(4) [OF that] m(2) that by (cases "k = h") auto
  have "k \<in> set (w_open w')" if "handler (w_loop w') t k \<noteq> None" for t k
  proof -
    have k: "k \<in> handle_of s ` (set (s_forwarders s) - {i}) \<union> set (server_handles s)" using owned [OF that] .
    then have "k \<noteq> h" using o(1) by auto
    moreover have "k \<in> set (w_open (s_world s))" using pool_open [OF pool, of k] k by auto
    ultimately show ?thesis using opn by simp
  qed
  then have ho: "handlers_open w'" using m(4) by (intro handlers_openI) (auto simp: footprint_def)
  have srv: "server_handles ?s2 = server_handles s" by (rule server_handles_cong [THEN conjunct1]) (simp add: store_def)
  have mp: "map (handle_of ?s2) ?fs = map (handle_of s) ?fs" using o(2) fset by simp
  have im: "handle_of ?s2 ` set ?fs = handle_of s ` (set (s_forwarders s) - {i})"
    using image_of_map [OF mp] fset by simp
  have "distinct (map (handle_of s) ?fs @ server_handles s)"
    using pool fset distinct_remove1 [OF dfs] by (auto simp: pool_ok_def distinct_map intro: inj_on_subset)
  moreover have "set (w_open w') = handle_of s ` (set (s_forwarders s) - {i}) \<union> set (server_handles s)"
  proof -
    have "handle_of s ` set (s_forwarders s) = insert h (handle_of s ` (set (s_forwarders s) - {i}))"
      using i hi by auto
    moreover have "set (w_open w') = set (w_open (s_world s)) - {h}" using m(3) do by (simp add: set_remove1_eq)
    moreover have "set (w_open (s_world s)) = handle_of s ` set (s_forwarders s) \<union> set (server_handles s)"
      using pool by (simp add: pool_ok_def)
    ultimately show ?thesis using o(1) by auto
  qed
  moreover have "\<forall>j \<in> set ?fs. j < s_next s" "distinct (w_open w')"
    using pool_lt [OF pool] fset m(3) do by auto
  ultimately have pool2: "pool_ok ?fs ?s2"
    using o(2,3) owned ho fset unfolding pool_ok_def srv mp im system_loop_def
    by (auto simp: store_def)
  have fr2: "heap_fresh ?s2"
    using sys_fresh [OF ok] by (simp add: heap_fresh_def store_def)
  have fs2: "s_forwarders ?s2 = ?fs" "s_queue ?s2 = s_queue s" by (simp_all add: store_def)
  obtain s' where s': "dequeue env ?s2 = Some s'" "sends (s_queue s) ?s2 s'"
    using dequeue_ok [OF env, of ?s2] pool2 fr2 fs2 by auto
  have "handleShutdown env i (store i c' w' s) = Some s'"
    using i d s'(1) by (simp add: handleShutdown_def store_def)
  moreover have "sys_ok s'"
  proof (rule sends_sys [OF s'(2)])
    show "\<forall>j. s_heap ?s2 j \<noteq> None \<longleftrightarrow> j \<in> set (s_forwarders ?s2)" using heap fset fs2 by simp
    show "pool_ok (s_forwarders ?s2) ?s2" using pool2 fs2 by simp
    show "hist_ok (s_queue s) ?s2"
      by (rule hist_heap [OF hist]) (auto simp: store_def kept_def split: if_splits)
    have l: "Suc (length ?fs) = length (s_forwarders s)" using i by (metis One_nat_def Suc_pred length_pos_if_in_set length_remove1)
    show "length (s_forwarders ?s2) < s_max ?s2"
      using ok l by (simp add: sys_ok_def store_def)
    show "length (s_queue s) > 1 \<longrightarrow> Suc (length (s_forwarders ?s2)) = s_max ?s2"
      using ok l by (auto simp: sys_ok_def store_def)
  qed
  moreover have "fixed s s' \<and> s_sent s' = s_sent s"
    using s'(2) footprint_config [OF m(4)] by (auto simp: fixed_def sends_def store_def intro: same_config_trans)
  moreover have "only_changed i c' s s'"
    using s'(2) by (auto simp: only_changed_def sends_def store_def split: if_splits)
  ultimately show ?thesis by blast
qed

text \<open>Storing the result of a method and running what it ends with, when that is not an answer.\<close>

lemma finish_ok:
  assumes env: "env_ok env" and ok: "sys_ok s" and i: "i \<in> set (s_forwarders s)" and c: "s_heap s i = Some c"
    and m: "method_ok i (conn_handle c) c (s_world s) (c', w', p)" and p: "\<nexists>b. p = Call_incoming b"
  shows "\<exists>s'. finish env i (c', w', p) s = Some s' \<and> sys_ok s' \<and> fixed s s' \<and> s_sent s' = s_sent s
    \<and> only_changed i c' s s'"
proof -
  have sh: "c_shutdown c" using ok i c by (auto simp: sys_ok_def pool_ok_def live_def)
  show ?thesis
  proof (cases "p = Call_shutdown \<or> c_socket c' = None")
    case True
    with m sh have cl: "conn_closed c'" "\<forall>t. handler (w_loop w') t (conn_handle c) = None"
      "w_open w' = remove1 (conn_handle c) (w_open (s_world s))" "footprint (conn_handle c) (s_world s) w'"
      "p = Call_shutdown" by (auto simp: method_ok_def)
    from store_closed [OF env ok i c refl cl(1-4)] cl(5) show ?thesis by (simp add: finish_def)
  next
    case False
    with m have lv: "conn_ok i (conn_handle c) c' w'" "w_open w' = w_open (s_world s)"
      "footprint (conn_handle c) (s_world s) w'" "kept c c'" by (auto simp: method_ok_def)
    have "p = Nothing" using False p by (cases p) auto
    with store_live [OF ok i c refl lv] show ?thesis by (simp add: finish_def store_def)
  qed
qed

subsection \<open>Answers\<close>

lemma fc_close_pending: "snd (snd (fc_close c w)) \<noteq> Call_incoming b"
  by (simp add: fc_close_def Let_def split: option.splits prod.splits)

lemma fc_close_state: "c_socket c \<noteq> None \<Longrightarrow> c_state (fst (fc_close c w)) = CLOSED"
  by (auto simp: fc_close_def split: option.splits prod.splits)

lemma fc_shutdown_state:
  assumes ok: "conn_ok i h c w" and r: "fc_shutdown env i c w = Some (c', w', p)"
  shows "SHUTTING_DOWN \<le> c_state c' \<and> (\<nexists>b. p = Call_incoming b)"
proof (cases "c_state c = CONNECTING \<or> c_state c = OPEN")
  case True
  obtain c1 w1 where 1: "reset_read c w = (c1, w1)" by fastforce
  obtain c2 w2 where 2: "reset_write c1 w1 = (c2, w2)" by fastforce
  from r True have r': "fc_do_shutdown env i c2 w2 = Some (c', w', p)" and so: "c_socket c2 \<noteq> None"
    by (auto simp: fc_shutdown_def 1 2 bind_eq_Some_conv)
  from r' obtain ssl where ssl: "c_connection c2 = Some ssl" by (auto simp: fc_do_shutdown_def Let_def bind_eq_Some_conv)
  obtain x w3 where x: "ssl_shutdown env ssl w2 = (x, w3)" by fastforce
  let ?c = "c2\<lparr>c_state := SHUTTING_DOWN\<rparr>"
  note cl = fc_close_state [of ?c w3] fc_close_pending [of ?c w3]
  show ?thesis
    using r' ssl so cl await_read_buffer [of _ ?c w3] await_write_buffer [of _ ?c w3]
    by (cases x) (fastforce simp: fc_do_shutdown_def x bind_eq_Some_conv)+
next
  case False
  with r ok have "c' = c" "p = Nothing" by (auto simp: fc_shutdown_def)
  with False show ?thesis by (cases "c_state c") auto
qed

lemma handleIncoming_ok:
  assumes "handleIncoming env i r b s = Some s'"
  shows "s' = s \<or> (\<exists>w payload. same_but_tick (s_world s) w \<and>
    s' = s\<lparr>s_world := w, s_sent := s_sent s @ [(i, response_to r payload)]\<rparr>)"
  using assms same_but_tick_call
  by (fastforce simp: handleIncoming_def bind_eq_Some_conv split: if_splits prod.splits)

text \<open>What a forwarder may answer without driving the packet wrapper into undefined behaviour; every
  well-formed message is such an answer.\<close>

definition read_buffer :: "env \<Rightarrow> nat \<Rightarrow> bytes" where
  "read_buffer env n = take (nat (fst (e_ssl_read env n))) (snd (e_ssl_read env n))"

definition answers_clean :: "env \<Rightarrow> bool" where
  "answers_clean env \<longleftrightarrow>
     (\<forall>n. valid (read_buffer env n) \<longrightarrow> removeEdnsPadding (e_char_signed env) (read_buffer env n) \<noteq> None)"

lemma handleIncoming_defined:
  assumes "valid b \<longrightarrow> removeEdnsPadding (e_char_signed env) b \<noteq> None"
  shows "\<exists>s'. handleIncoming env i r b s = Some s'"
proof (cases "valid b")
  case True
  with assms obtain e p where p: "removeEdnsPadding (e_char_signed env) b = Some (e, p)" by auto
  then have "valid p" using removeEdnsPadding_frame True by blast
  then have "packet_length p \<le> length (data p)" by (simp add: packet_length_valid data_def)
  with True p show ?thesis by (simp add: handleIncoming_def split: prod.splits)
qed (simp add: handleIncoming_def)

lemma sys_ok_call:
  assumes "sys_ok s" and "same_but_tick (s_world s) w"
  shows "sys_ok (s\<lparr>s_world := w, s_sent := x\<rparr>)"
proof -
  have p: "pool_ok (s_forwarders s) s" using assms(1) by (simp add: sys_ok_def)
  then have "loop_ok (w_loop (s_world s))" by (simp add: pool_ok_def handlers_open_def)
  then have "pool_ok (s_forwarders s) (s\<lparr>s_world := w, s_sent := x\<rparr>)"
    using pool_ok_same [OF p, of w "s\<lparr>s_world := w, s_sent := x\<rparr>"] assms(2) by (simp add: same_but_tick_def)
  then show ?thesis using assms(1) by (simp add: sys_ok_def hist_ok_def)
qed

text \<open>The forwarders are those there were, in another order, or those of a configuration that was read in between.\<close>

definition config_step :: "env \<Rightarrow> world \<Rightarrow> world \<Rightarrow> bool" where
  "config_step env w w' \<longleftrightarrow> m_timeout (w_config w') = m_timeout (w_config w) \<and> w_context w' = w_context w
     \<and> (mset (m_forwarders (w_config w')) = mset (m_forwarders (w_config w))
        \<or> (\<exists>n. \<exists>fs \<in> set (e_reloads env n). mset (m_forwarders (w_config w')) = mset fs))"

lemma config_step_trans: "config_step env w w' \<Longrightarrow> config_step env w' w'' \<Longrightarrow> config_step env w w''"
  unfolding config_step_def by metis

lemma same_config_step: "same_config w w' \<Longrightarrow> config_step env w w'"
  by (simp add: same_config_def config_step_def)

lemma tick_config_step: "same_but_tick w w' \<Longrightarrow> config_step env w w'"
  by (simp add: same_but_tick_def config_step_def)

text \<open>What every step of the system keeps and leaves behind.\<close>

definition step_ok :: "env \<Rightarrow> system \<Rightarrow> system \<Rightarrow> bool" where
  "step_ok env s s' \<longleftrightarrow> sys_ok s' \<and> sent_ok s' \<and> s_max s' = s_max s \<and> (s_servers s', s_watch s') = (s_servers s, s_watch s)
     \<and> config_step env (s_world s) (s_world s') \<and> s_next s \<le> s_next s'
     \<and> (\<exists>xs. s_started s' = s_started s @ xs) \<and> (\<exists>xs. s_sent s' = s_sent s @ xs)
     \<and> (\<exists>xs. s_arrived s' = s_arrived s @ xs)"

lemma step_ok_refl: "sys_ok s \<Longrightarrow> sent_ok s \<Longrightarrow> step_ok env s s"
  by (simp add: step_ok_def same_config_step)

lemma step_ok_trans: "step_ok env s s' \<Longrightarrow> step_ok env s' s'' \<Longrightarrow> step_ok env s s''"
  by (auto simp: step_ok_def intro: config_step_trans)

lemma sent_lt:
  assumes "sys_ok s" and "sent_ok s" and "(i, d) \<in> set (s_sent s)"
  shows "i < s_next s"
proof -
  from assms(2,3) obtain q where q: "(i, q) \<in> set (s_started s)" by (auto simp: sent_ok_def)
  have "hist_ok (s_queue s) s" using assms(1) by (simp add: sys_ok_def)
  then show ?thesis using q by (rule started_lt)
qed

lemma sent_ok_step:
  assumes "sys_ok s" "sent_ok s" "fixed s s'" "s_sent s' = s_sent s" "only_changed i c' s s'"
    and "s_heap s i = Some c" "c_state c \<le> c_state c'"
  shows "sent_ok s'"
proof -
  have r: "SHUTTING_DOWN \<le> c_state d'" if "(j, d) \<in> set (s_sent s)" "s_heap s' j = Some d'" for j d d'
  proof (cases "j = i")
    case True
    have "SHUTTING_DOWN \<le> c_state c" using that(1) True assms(2,6) by (auto simp: sent_ok_def)
    moreover have "d' = c'"
      using that True sent_lt [OF assms(1,2) that(1)] assms(5) by (auto simp: only_changed_def)
    ultimately show ?thesis using assms(7) by simp
  next
    case False
    then have "s_heap s j = Some d'"
      using that sent_lt [OF assms(1,2) that(1)] assms(5) by (auto simp: only_changed_def)
    then show ?thesis using that(1) assms(2) by (auto simp: sent_ok_def)
  qed
  from assms(3) obtain xs where "s_started s' = s_started s @ xs" by (auto simp: fixed_def)
  then show ?thesis using assms(2,4) r by (fastforce simp: sent_ok_def)
qed

lemma on_incoming_ok:
  assumes env: "env_ok env" and ok: "sys_ok s" "sent_ok s" and i: "i \<in> set (s_forwarders s)"
    and c: "s_heap s i = Some c" and st: "c_state c < SHUTTING_DOWN"
  shows "(\<forall>s'. on_incoming env i b s = Some s' \<longrightarrow> step_ok env s s')
    \<and> ((valid b \<longrightarrow> removeEdnsPadding (e_char_signed env) b \<noteq> None) \<longrightarrow> on_incoming env i b s \<noteq> None)"
proof -
  from ok(1) i c obtain r where lv: "conn_ok i (conn_handle c) c (s_world s)" and r: "c_incoming c = Some r"
    by (auto simp: sys_ok_def pool_ok_def live_def)
  have main: "\<exists>s'. on_incoming env i b s = Some s' \<and> step_ok env s s'"
    if inc: "handleIncoming env i r b s = Some s1" for s1
  proof -
    from handleIncoming_ok [OF inc] obtain w new where w: "same_but_tick (s_world s) w"
      and s1: "s1 = s\<lparr>s_world := w, s_sent := s_sent s @ new\<rparr>"
      and new: "new = [] \<or> (\<exists>payload. new = [(i, response_to r payload)])"
    proof
      assume "s1 = s"
      then show ?thesis using that [of "s_world s" "[]"] by simp
    next
      assume "\<exists>w payload. same_but_tick (s_world s) w \<and>
          s1 = s\<lparr>s_world := w, s_sent := s_sent s @ [(i, response_to r payload)]\<rparr>"
      then show ?thesis using that by blast
    qed
    have ok1: "sys_ok s1" unfolding s1 using ok(1) w by (rule sys_ok_call)
    have c1: "s_heap s1 i = Some c" "i \<in> set (s_forwarders s1)" using c i by (simp_all add: s1)
    have lv1: "conn_ok i (conn_handle c) c (s_world s1)"
      using ok1 c1 by (auto simp: sys_ok_def pool_ok_def live_def)
    from fc_shutdown_ok [OF lv1] obtain c' w' p where
      sd: "fc_shutdown env i c (s_world s1) = Some (c', w', p)" and m: "method_ok i (conn_handle c) c (s_world s1) (c', w', p)"
      by (metis prod_cases3)
    note late = fc_shutdown_state [OF lv1 sd]
    from finish_ok [OF env ok1 c1(2,1) m] late obtain s' where
      s': "finish env i (c', w', p) s1 = Some s'" "sys_ok s'" "fixed s1 s'" "s_sent s' = s_sent s1"
        "only_changed i c' s1 s'" by auto
    have run: "on_incoming env i b s = Some s'"
      using inc c1(1) sd s'(1) by (simp add: on_incoming_def c r)
    from ok(1) have "i < s_next s" using i pool_lt by (auto simp: sys_ok_def)
    then have "i \<in> set (map fst (s_started s))" using ok(1) by (simp add: sys_ok_def hist_ok_def del: set_map)
    then obtain q where q: "(i, q) \<in> set (s_started s)" by auto
    then have rq: "r = q_reply q" using ok(1) c r by (auto simp: sys_ok_def hist_ok_def)
    have unsent: "i \<notin> fst ` set (s_sent s)"
      using ok(2) c st by (fastforce simp: sent_ok_def)
    from s'(3) obtain xs where xs: "s_started s' = s_started s @ xs" by (auto simp: fixed_def s1)
    have "SHUTTING_DOWN \<le> c_state d'" if m: "(j, d) \<in> set (s_sent s')" "s_heap s' j = Some d'" for j d d'
    proof (cases "j = i")
      case True
      then have "d' = c'" using m(2) s'(5) \<open>i < s_next s\<close> by (auto simp: only_changed_def s1)
      then show ?thesis using late by simp
    next
      case False
      then have old: "(j, d) \<in> set (s_sent s)" using m(1) new by (auto simp: s'(4) s1)
      then have "j < s_next s1" using sent_lt [OF ok] by (simp add: s1)
      then have "s_heap s j = Some d'" using m(2) s'(5) False by (auto simp: only_changed_def s1)
      then show ?thesis using old ok(2) by (auto simp: sent_ok_def)
    qed
    then have "sent_ok s'"
      using ok(2) new q rq unsent xs unfolding sent_ok_def s'(4) by (fastforce simp: s1)
    then have "step_ok env s s'"
      using s'(2-4) w by (auto simp: step_ok_def fixed_def s1 same_config_def same_but_tick_def config_step_def)
    with run show ?thesis by blast
  qed
  show ?thesis
  proof (cases "handleIncoming env i r b s")
    case None
    then show ?thesis using handleIncoming_defined [of b env i r s] by (auto simp: on_incoming_def c r)
  next
    case (Some s1)
    from main [OF Some] show ?thesis by auto
  qed
qed

subsection \<open>Every callback of the loop\<close>

lemma pool_owned:
  "pool_ok fs s \<Longrightarrow> handler (system_loop s) t h \<noteq> None \<Longrightarrow> h \<in> handle_of s ` set fs \<union> set (server_handles s)"
  by (simp add: pool_ok_def)

text \<open>A handler in the loop is the server's, the watch's or the one of a live connection in the right state.\<close>

lemma handler_owner:
  assumes ok: "sys_ok s" and reg: "handler (system_loop s) t h = Some (cb, tm)"
  obtains "h \<in> set (server_handles s)" "cb = (if h \<in> set (watch_handles s) then Cb_config else Cb_server)" "t = Read" "tm = 0"
  | i c where "i \<in> set (s_forwarders s)" "s_heap s i = Some c" "conn_ok i h c (s_world s)"
      "t = Read \<and> cb = read_cb (c_state c) i \<and> tm = c_timeout c
       \<or> t = Write \<and> cb = write_cb (c_state c) i \<and> tm = c_timeout c
       \<or> t = Exception \<and> cb = Cb_exception i"
proof -
  have pool: "pool_ok (s_forwarders s) s" using ok by (simp add: sys_ok_def)
  then have "h \<in> handle_of s ` set (s_forwarders s) \<union> set (server_handles s)"
    using reg pool_owned [of "s_forwarders s" s t h] by simp
  then consider i where "i \<in> set (s_forwarders s)" "handle_of s i = h" | "h \<in> set (server_handles s)" by auto
  then show ?thesis
  proof cases
    case 1
    then obtain c where c: "s_heap s i = Some c" "conn_ok i h c (s_world s)"
      using pool by (auto simp: pool_ok_def live_def handle_of_def)
    with handler_read_cb [OF c(2), of t cb tm] reg 1 show ?thesis
      by (intro that(2)) (auto simp: system_loop_def)
  next
    case 2
    then have "server_ok s h" using pool by (simp add: pool_ok_def)
    with reg have "t = Read" "(cb, tm) = (if h \<in> set (watch_handles s) then Cb_config else Cb_server, 0)"
      by (cases t; simp add: server_ok_def)+
    with 2 that(1) show ?thesis by simp
  qed
qed

lemma cb_of_state:
  assumes "t = Read \<and> cb = read_cb (c_state c) i \<and> tm = c_timeout c
       \<or> t = Write \<and> cb = write_cb (c_state c) i \<and> tm = c_timeout c
       \<or> t = Exception \<and> cb = Cb_exception i"
  shows "exec env cb h s = conn_callback env i cb s"
  using assms by (cases "c_state c") auto

lemma fc_close_not_incoming: "fc_close c w \<noteq> (c', w', Call_incoming b)"
  using fc_close_pending [of c w b] by (metis snd_conv)

lemma fc_connect_not_incoming: "fc_connect env i c w \<noteq> Some (c', w', Call_incoming b)"
proof
  assume a: "fc_connect env i c w = Some (c', w', Call_incoming b)"
  then obtain ssl where ssl: "c_connection c = Some ssl" by (auto simp: fc_connect_def bind_eq_Some_conv)
  obtain r w1 where r: "ssl_connect env ssl w = (r, w1)" by fastforce
  show False
  proof (cases r)
    case SUCCESS
    with a ssl r have u: "open_up i c w1 = Some (c', w', Call_incoming b)" by (simp add: fc_connect_def)
    from open_up_buffer [OF u] show False by simp
  qed (use a ssl r fc_close_not_incoming in \<open>auto simp: fc_connect_def bind_eq_Some_conv\<close>)
qed

lemma fc_outgoing_not_incoming: "fc_outgoing env c w \<noteq> Some (c', w', Call_incoming b)"
proof
  assume a: "fc_outgoing env c w = Some (c', w', Call_incoming b)"
  then obtain ssl where ssl: "c_connection c = Some ssl" by (auto simp: fc_outgoing_def bind_eq_Some_conv)
  obtain r w1 where r: "ssl_write env ssl (c_buffer c) w = (r, w1)" by fastforce
  show False
    using a ssl r fc_close_not_incoming by (cases r) (auto simp: fc_outgoing_def split: prod.split_asm)
qed

lemma fc_do_shutdown_not_incoming: "fc_do_shutdown env i c w \<noteq> Some (c', w', Call_incoming b)"
proof
  assume a: "fc_do_shutdown env i c w = Some (c', w', Call_incoming b)"
  then obtain ssl where ssl: "c_connection c = Some ssl" by (auto simp: fc_do_shutdown_def Let_def bind_eq_Some_conv)
  obtain r w1 where r: "ssl_shutdown env ssl w = (r, w1)" by fastforce
  show False
    using a ssl r fc_close_not_incoming by (cases r) (auto simp: fc_do_shutdown_def Let_def bind_eq_Some_conv)
qed

lemma fc_run_incoming:
  assumes a: "fc_run env i cb c w = Some (c', w', Call_incoming b)"
  shows "(\<exists>j. cb = Cb_incoming j) \<and> c' = c \<and> b = read_buffer env (w_tick w)"
proof (cases cb)
  case (Cb_incoming j)
  with a obtain ssl where ssl: "c_connection c = Some ssl" by (auto simp: fc_incoming_def bind_eq_Some_conv)
  obtain r buf w1 where r: "ssl_read env ssl w = (r, buf, w1)" using prod_cases3 by blast
  have "buf = (if r = SUCCESS then read_buffer env (w_tick w) else [])"
    using r by (auto simp: ssl_read_def read_buffer_def Let_def split: prod.splits)
  then show ?thesis
    using a ssl r Cb_incoming fc_close_not_incoming by (cases r) (auto simp: fc_incoming_def split: if_splits)
qed (use a fc_connect_not_incoming fc_outgoing_not_incoming fc_do_shutdown_not_incoming fc_close_not_incoming
     in \<open>auto simp: fc_exception_def\<close>)

lemma conn_callback_ok:
  assumes env: "env_ok env" and ok: "sys_ok s" "sent_ok s" and i: "i \<in> set (s_forwarders s)"
    and c: "s_heap s i = Some c" "conn_ok i h c (s_world s)"
    and reg: "handler (system_loop s) t h = Some (cb, tm)"
  shows "(\<forall>s'. conn_callback env i cb s = Some s' \<longrightarrow> step_ok env s s')
    \<and> (answers_clean env \<longrightarrow> conn_callback env i cb s \<noteq> None)"
proof -
  have h: "conn_handle c = h" using conn_ok_handle [OF c(2)] by simp
  from fc_run_ok [OF c(2), of t cb tm env] reg obtain c' w' p where
    run: "fc_run env i cb c (s_world s) = Some (c', w', p)" and m: "method_ok i (conn_handle c) c (s_world s) (c', w', p)"
    unfolding h system_loop_def by (metis prod_cases3)
  have kp: "kept c c'" using m by (simp add: method_ok_def)
  show ?thesis
  proof (cases "\<exists>b. p = Call_incoming b")
    case True
    then obtain b where p: "p = Call_incoming b" by blast
    from fc_run_incoming [OF run [unfolded p]] obtain j where j: "cb = Cb_incoming j" "c' = c"
      and b: "b = read_buffer env (w_tick (s_world s))" by blast
    have op: "c_state c = OPEN"
      using handler_read_cb [OF c(2), of t cb tm] reg j
      by (cases "c_state c") (auto simp: system_loop_def)
    have lv: "conn_ok i (conn_handle c) c' w'" "w_open w' = w_open (s_world s)"
      "footprint (conn_handle c) (s_world s) w'" "kept c c'"
      using m p by (auto simp: method_ok_def conn_closed_def split: if_splits)
    note st = store_live [OF ok(1) i c(1) refl lv]
    let ?s1 = "store i c' w' s"
    have st1: "c_state c' = OPEN" using op j by simp
    have sn: "sent_ok ?s1"
      using sent_ok_step [OF ok st(2) _ st(3) c(1)] kp by (simp add: kept_def store_def)
    have in1: "i \<in> set (s_forwarders ?s1)" "s_heap ?s1 i = Some c'" using i by (simp_all add: store_def)
    from on_incoming_ok [OF env st(1) sn in1, of b] st1 have o:
      "\<forall>s'. on_incoming env i b ?s1 = Some s' \<longrightarrow> step_ok env ?s1 s'"
      "(valid b \<longrightarrow> removeEdnsPadding (e_char_signed env) b \<noteq> None) \<longrightarrow> on_incoming env i b ?s1 \<noteq> None" by auto
    have e: "conn_callback env i cb s = on_incoming env i b ?s1"
      using c(1) run p by (simp add: conn_callback_def)
    have s1: "step_ok env s ?s1" using st sn by (auto simp: step_ok_def fixed_def store_def same_config_step)
    show ?thesis
      using o e b step_ok_trans [OF s1] by (auto simp: answers_clean_def)
  next
    case False
    from finish_ok [OF env ok(1) i c(1) m False] obtain s' where
      s': "finish env i (c', w', p) s = Some s'" "sys_ok s'" "fixed s s'" "s_sent s' = s_sent s"
        "only_changed i c' s s'" by blast
    have e: "conn_callback env i cb s = Some s'"
      using c(1) run False s'(1) by (cases p) (simp_all add: conn_callback_def)
    have "sent_ok s'" using sent_ok_step [OF ok s'(3-5) c(1)] kp by (simp add: kept_def)
    then have "step_ok env s s'" using s' by (auto simp: step_ok_def fixed_def same_config_step)
    with e show ?thesis by simp
  qed
qed

subsection \<open>Queries from the clients\<close>

lemma pool_ok_fields:
  assumes "pool_ok fs s" and "s_world s' = s_world s" "s_heap s' = s_heap s" "(s_servers s', s_watch s') = (s_servers s, s_watch s)"
    "s_next s' = s_next s"
  shows "pool_ok fs s'"
proof -
  have "loop_ok (w_loop (s_world s))" using assms(1) by (simp add: pool_ok_def handlers_open_def)
  then show ?thesis using pool_ok_same [OF assms(1) refl, of s'] assms(2-) by simp
qed

lemma sent_ok_sends:
  assumes "sends qs s s'" and "sys_ok s\<^sub>0" "sent_ok s\<^sub>0"
    and "s_sent s = s_sent s\<^sub>0" "s_next s = s_next s\<^sub>0" "s_started s = s_started s\<^sub>0" "s_heap s = s_heap s\<^sub>0"
  shows "sent_ok s'"
proof -
  have r: "SHUTTING_DOWN \<le> c_state c" if "(i, d) \<in> set (s_sent s\<^sub>0)" "s_heap s' i = Some c" for i d c
  proof -
    have "i < s_next s\<^sub>0" using sent_lt [OF assms(2,3) that(1)] .
    then have "s_heap s\<^sub>0 i = Some c" using that(2) assms(1,5,7) by (simp add: sends_def)
    then show ?thesis using that(1) assms(3) by (auto simp: sent_ok_def)
  qed
  from assms(1,6) obtain xs where "s_started s' = s_started s\<^sub>0 @ xs" by (auto simp: sends_def)
  moreover have "s_sent s' = s_sent s\<^sub>0" using assms(1,4) by (simp add: sends_def)
  ultimately show ?thesis using assms(3) r by (fastforce simp: sent_ok_def)
qed

lemma handleRequest_ok:
  assumes env: "env_ok env" and ok: "sys_ok s" "sent_ok s"
  shows "\<exists>s'. handleRequest env q s = Some s' \<and> step_ok env s s' \<and> s_arrived s' = s_arrived s @ [q]"
proof -
  let ?s1 = "s\<lparr>s_arrived := s_arrived s @ [q]\<rparr>"
  have pool: "pool_ok (s_forwarders s) s" and heap: "\<forall>i. s_heap s i \<noteq> None \<longleftrightarrow> i \<in> set (s_forwarders s)"
    and hist: "hist_ok (s_queue s) s" using ok(1) by (simp_all add: sys_ok_def)
  have pool1: "pool_ok (s_forwarders ?s1) ?s1" using pool_ok_fields [OF pool, of ?s1] by simp
  show ?thesis
  proof (cases "length (s_forwarders s) < s_max s")
    case True
    then have q0: "s_queue s = []" using ok(1) by (auto simp: sys_ok_def)
    have "heap_fresh ?s1" using sys_fresh [OF ok(1)] by (simp add: heap_fresh_def)
    from sendRequest_ok [OF env pool1 this, of q] q0 obtain s' where
      s': "sendRequest env q ?s1 = Some s'" "sends [q] ?s1 s'" by auto
    have h1: "hist_ok [q] ?s1" using hist q0 by (simp add: hist_ok_def)
    have "sys_ok s'" using heap pool1 h1 True by (intro sends_sys [OF s'(2)]) simp_all
    moreover have "sent_ok s'" by (rule sent_ok_sends [OF s'(2) ok]) simp_all
    ultimately have "step_ok env s s' \<and> s_arrived s' = s_arrived s @ [q]"
      using s'(2) by (auto simp: step_ok_def sends_def same_config_step)
    with s'(1) True show ?thesis by (auto simp: handleRequest_def)
  next
    case False
    let ?s' = "?s1\<lparr>s_queue := s_queue s @ [q]\<rparr>"
    have "pool_ok (s_forwarders s) ?s'" using pool_ok_fields [OF pool, of ?s'] by simp
    then have "sys_ok ?s'" using ok(1) False heap hist by (simp add: sys_ok_def hist_ok_def flip: append_assoc)
    moreover have "sent_ok ?s'" using ok(2) by (simp add: sent_ok_def)
    ultimately have "step_ok env s ?s'" by (simp add: step_ok_def same_config_step)
    with False show ?thesis by (simp add: handleRequest_def)
  qed
qed

lemma handleDnsRequest_ok:
  assumes env: "env_ok env" and ok: "sys_ok s" "sent_ok s"
  shows "\<exists>s'. handleDnsRequest env h s = Some s' \<and> step_ok env s s'"
proof -
  obtain m w where call: "call (e_recvmsg env) (s_world s) = (m, w)" by fastforce
  let ?s1 = "s\<lparr>s_world := w\<rparr>"
  have tick: "same_but_tick (s_world s) w" using same_but_tick_call [OF call] .
  have ok1: "sys_ok ?s1" using sys_ok_call [OF ok(1) tick, of "s_sent s"] by simp
  have sn1: "sent_ok ?s1" using ok(2) by (simp add: sent_ok_def)
  have st: "step_ok env s ?s1" using ok1 sn1 tick by (simp add: step_ok_def tick_config_step)
  show ?thesis
  proof (cases "List.find (\<lambda>e. m_handle (fst e) = h) (s_servers s)")
    case None
    then show ?thesis using step_ok_refl [OF ok] by (simp add: handleDnsRequest_def)
  next
    case (Some e)
    show ?thesis
    proof (cases "m = None \<or> rm_trunc (the m)")
      case True
      with Some st show ?thesis by (cases m) (auto simp: handleDnsRequest_def call Let_def)
    next
      case False
      obtain dst ifx where d: "getDestinationAddress (rm_control (the m)) = (dst, ifx)" by fastforce
      from handleRequest_ok [OF env ok1 sn1] step_ok_trans [OF st] obtain s' where
        "handleRequest env \<lparr>q_reply = \<lparr>rp_socket = h, rp_client = rm_from (the m), rp_server = dst,
           rp_interface = ifx\<rparr>, q_request = frame_request (rm_data (the m))\<rparr> ?s1 = Some s'" "step_ok env s s'"
        by blast
      with False Some d show ?thesis by (auto simp: handleDnsRequest_def call)
    qed
  qed
qed

subsection \<open>A new configuration\<close>

lemma setForwarders_eq: "setForwarders fs c = c\<lparr>m_forwarders := fs\<rparr>"
proof -
  have "foldl (\<lambda>c f. addForwarder f c) c fs = c\<lparr>m_forwarders := m_forwarders c @ fs\<rparr>" for c
    by (induction fs arbitrary: c) (simp_all add: addForwarder_def)
  then show ?thesis by (simp add: setForwarders_def clear_def)
qed

lemma reload_all_eq: "reload_all cs c = c\<lparr>m_forwarders := last (m_forwarders c # cs)\<rparr>"
  by (induction cs arbitrary: c) (simp_all add: reload_all_def setForwarders_eq)

lemma handleConfigRead_ok:
  assumes ok: "sys_ok s" "sent_ok s" and w: "watch_handles s \<noteq> []"
  shows "\<exists>s'. handleConfigRead env s = Some s' \<and> step_ok env s s'"
proof -
  obtain v where v: "s_watch s = Some v" using w by (auto simp: watch_handles_def split: option.splits)
  obtain cs w1 where c: "call (e_reloads env) (s_world s) = (cs, w1)" by fastforce
  note t = same_but_tick_call [OF c]
  let ?w = "if vc_dote v then w1\<lparr>w_config := reload_all cs (w_config w1)\<rparr> else w1"
  let ?s = "s\<lparr>s_world := ?w\<rparr>"
  have p: "pool_ok (s_forwarders s) s" using ok(1) by (simp add: sys_ok_def)
  then have "loop_ok (w_loop (s_world s))" by (simp add: pool_ok_def handlers_open_def)
  then have "pool_ok (s_forwarders s) ?s"
    using t by (intro pool_ok_same [OF p, of ?w ?s]) (simp_all add: same_but_tick_def)
  then have "sys_ok ?s" using ok(1) by (simp add: sys_ok_def hist_ok_def)
  moreover have "sent_ok ?s" using ok(2) by (simp add: sent_ok_def)
  moreover have "config_step env (s_world s) ?w"
  proof (cases "vc_dote v \<and> cs \<noteq> []")
    case True
    then have "last cs \<in> set (e_reloads env (w_tick (s_world s)))" using c by (auto simp: call_def)
    with True t show ?thesis by (auto simp: config_step_def reload_all_eq same_but_tick_def)
  next
    case False
    with t show ?thesis by (auto simp: config_step_def reload_all_eq same_but_tick_def)
  qed
  ultimately have "step_ok env s ?s" by (simp add: step_ok_def)
  moreover have "handleConfigRead env s = Some ?s" by (simp add: handleConfigRead_def v c)
  ultimately show ?thesis by blast
qed

lemma exec_ok:
  assumes env: "env_ok env" and ok: "sys_ok s" "sent_ok s"
    and reg: "handler (system_loop s) t h = Some (cb, tm)"
  shows "(\<forall>s'. exec env cb h s = Some s' \<longrightarrow> step_ok env s s')
    \<and> (answers_clean env \<longrightarrow> exec env cb h s \<noteq> None)"
proof (rule handler_owner [OF ok(1) reg])
  assume "cb = (if h \<in> set (watch_handles s) then Cb_config else Cb_server)"
  moreover have "watch_handles s \<noteq> []" if "h \<in> set (watch_handles s)" using that by auto
  ultimately show ?thesis
    using handleDnsRequest_ok [OF env ok, of h] handleConfigRead_ok [OF ok, of env]
    by (cases "h \<in> set (watch_handles s)") fastforce+
next
  fix i c assume o: "i \<in> set (s_forwarders s)" "s_heap s i = Some c" "conn_ok i h c (s_world s)"
    "t = Read \<and> cb = read_cb (c_state c) i \<and> tm = c_timeout c
       \<or> t = Write \<and> cb = write_cb (c_state c) i \<and> tm = c_timeout c \<or> t = Exception \<and> cb = Cb_exception i"
  show ?thesis
    using conn_callback_ok [OF env ok o(1-3) reg] unfolding cb_of_state [OF o(4), of env h s] .
qed

end
