(* ===== verification/Loop_Steps.thy ===== *)
theory Loop_Steps
  imports Event_Loop
begin

unbundle bit_operations_syntax

text \<open>
  What a client of the loop has to show about its callbacks and gets for whole turns of the loop: the
  locale \<open>callbacks_within\<close> (a relation every registered callback stays within) and its extension
  \<open>callbacks_defined\<close> (no registered callback is undefined).
\<close>

subsection \<open>The handlers of a loop as a step relation\<close>

text \<open>Whatever relation every registered callback stays within, a whole turn of the loop stays within.\<close>

locale callbacks_within =
  fixes L :: "'s \<Rightarrow> 'cb Loop"
    and exec :: "'cb \<Rightarrow> int \<Rightarrow> 's \<Rightarrow> 's option"
    and I :: "'s \<Rightarrow> bool"
    and R :: "'s \<Rightarrow> 's \<Rightarrow> bool"
  assumes R_refl: "I s \<Longrightarrow> R s s"
    and R_trans: "R s s' \<Longrightarrow> R s' s'' \<Longrightarrow> R s s''"
    and R_inv: "R s s' \<Longrightarrow> I s'"
    and within: "I s \<Longrightarrow> handler (L s) t h = Some (cb, tm) \<Longrightarrow> exec cb h s = Some s' \<Longrightarrow> R s s'"
begin

lemma read_within: "I s \<Longrightarrow> callCallback exec (m_readFunctions (L s)) h s = Some s' \<Longrightarrow> R s s'"
  using within [of s Read h] R_refl [of s]
  by (auto simp: callCallback_def handler.simps split: option.split_asm)

lemma write_within: "I s \<Longrightarrow> callCallback exec (m_writeFunctions (L s)) h s = Some s' \<Longrightarrow> R s s'"
  using within [of s Write h] R_refl [of s]
  by (auto simp: callCallback_def handler.simps split: option.split_asm)

lemma raise_within: "I s \<Longrightarrow> raiseException L exec h s = Some (b, s') \<Longrightarrow> R s s'"
  using within [of s Exception h] R_refl [of s]
  by (auto simp: raiseException_def handler.simps split: option.split_asm)

lemma dispatch_fd_within:
  assumes "I s" and "dispatch_fd L exec fd s = Some s'"
  shows "R s s'"
proof -
  from assms(2) obtain s1 s2 where
    1: "(if p_revents fd AND POLLIN \<noteq> 0 then callCallback exec (m_readFunctions (L s)) (p_fd fd) s else Some s) = Some s1"
    and 2: "(if p_revents fd AND POLLOUT \<noteq> 0 then callCallback exec (m_writeFunctions (L s1)) (p_fd fd) s1
            else Some s1) = Some s2"
    and 3: "(if p_revents fd AND (POLLERR OR POLLHUP OR POLLNVAL) \<noteq> 0
            then map_option snd (raiseException L exec (p_fd fd) s2) else Some s2) = Some s'"
    by (auto simp: dispatch_fd_def bind_eq_Some_conv)
  have r1: "R s s1" using 1 read_within [OF assms(1)] R_refl [OF assms(1)] by (auto split: if_splits)
  note i1 = R_inv [OF r1]
  have r2: "R s1 s2" using 2 write_within [OF i1] R_refl [OF i1] by (auto split: if_splits)
  note i2 = R_inv [OF r2]
  have "R s2 s'" using 3 raise_within [OF i2] R_refl [OF i2] by (auto split: if_splits)
  then show ?thesis using R_trans r1 r2 by blast
qed

lemma dispatch_within: "I s \<Longrightarrow> dispatch L exec fds s = Some s' \<Longrightarrow> R s s'"
proof (induction fds arbitrary: s)
  case (Cons fd fds)
  then obtain s1 where "dispatch_fd L exec fd s = Some s1" "dispatch L exec fds s1 = Some s'"
    by (auto simp: bind_eq_Some_conv)
  with Cons dispatch_fd_within R_inv R_trans show ?case by meson
qed (simp add: R_refl)

lemma scan_within_step:
  assumes "timeout_scan L' exec' sel now ex e rest s = Some r"
  shows "L' = L \<longrightarrow> exec' = exec \<longrightarrow> I s \<longrightarrow> R s (snd r)"
proof (rule timeout_scan.raw_induct [where P = "\<lambda>L' exec' sel now ex e rest s r.
    L' = L \<longrightarrow> exec' = exec \<longrightarrow> I s \<longrightarrow> R s (snd r)", OF _ assms], goal_cases)
  case (1 scan L' exec' sel now ex e rest s r)
  show ?case
  proof (intro impI)
    assume eq: "L' = L" "exec' = exec" and i: "I s"
    show "R s (snd r)"
    proof (cases rest)
      case Nil
      with 1(2) i show ?thesis by (auto simp: R_refl)
    next
      case (Cons x rest')
      obtain h cb t where x: "x = (h, cb, t)" by (cases x)
      show ?thesis
      proof (cases "t \<noteq> 0 \<and> t \<le> now \<and> h \<notin> set ex \<and> map_of (m_exceptFunctions (L s)) h \<noteq> None")
        case True
        with 1(2) Cons x eq obtain b s1 where
          s1: "raiseException L exec h s = Some (b, s1)"
          and go: "scan L' exec' sel now (ex @ [h]) e (sel (L s1)) s1 = Some r"
          by (auto simp: bind_eq_Some_conv)
        have "R s s1" using raise_within [OF i s1] .
        then show ?thesis using 1(1) [OF go] eq R_inv R_trans by blast
      next
        case False
        with 1(2) Cons x eq have "\<exists>e'. scan L' exec' sel now ex e' rest' s = Some r"
          by (auto split: if_splits)
        then show ?thesis using 1(1) eq i by blast
      qed
    qed
  qed
qed

lemma timeout_within:
  assumes "I s" and "timeout L exec now s = Some (tmo, s')"
  shows "R s s'"
proof -
  from assms(2) obtain e1 s1 e2 where
    1: "timeout_map L exec m_readFunctions now s = Some (e1, s1)"
    and 2: "timeout_map L exec m_writeFunctions now s1 = Some (e2, s')"
    by (auto simp: timeout_def bind_eq_Some_conv)
  have r1: "R s s1" using scan_within_step [OF 1 [unfolded timeout_map_def]] assms(1) by simp
  have "R s1 s'" using scan_within_step [OF 2 [unfolded timeout_map_def]] R_inv [OF r1] by simp
  with r1 show ?thesis by (rule R_trans)
qed

lemma run_enter_within: "I s \<Longrightarrow> run_enter L exec now s = Some (fds, tmo, s') \<Longrightarrow> R s s'"
  using timeout_within by (auto simp: run_enter_def bind_eq_Some_conv)

lemma run_body_within: "I s \<Longrightarrow> run_body L exec now revents fds s = Some (fds', tmo, s') \<Longrightarrow> R s s'"
proof -
  assume i: "I s" and b: "run_body L exec now revents fds s = Some (fds', tmo, s')"
  let ?fds = "map2 (\<lambda>fd r. fd\<lparr>p_revents := r\<rparr>) fds revents"
  from b obtain s1 where 1: "dispatch L exec ?fds s = Some s1" and 2: "timeout L exec now s1 = Some (tmo, s')"
    by (auto simp: run_body_def Let_def bind_eq_Some_conv)
  have r: "R s s1" using dispatch_within [OF i 1] .
  from timeout_within [OF R_inv [OF r] 2] show "R s s'" by (rule R_trans [OF r])
qed

end

text \<open>When moreover no registered callback is undefined, no dispatch is.\<close>

locale callbacks_defined = callbacks_within +
  assumes defined: "I s \<Longrightarrow> handler (L s) t h = Some (cb, tm) \<Longrightarrow> exec cb h s \<noteq> None"
begin

lemma dispatch_fd_defined:
  assumes "I s" shows "\<exists>s'. dispatch_fd L exec fd s = Some s'"
proof -
  have rd: "callCallback exec (m_readFunctions (L s)) h s \<noteq> None" if "I s" for h s
    using defined [OF that, of Read h] by (auto simp: callCallback_def handler.simps split: option.splits)
  have wr: "callCallback exec (m_writeFunctions (L s)) h s \<noteq> None" if "I s" for h s
    using defined [OF that, of Write h] by (auto simp: callCallback_def handler.simps split: option.splits)
  have ra: "raiseException L exec h s \<noteq> None" if "I s" for h s
    using defined [OF that, of Exception h] by (auto simp: raiseException_def handler.simps split: option.splits)
  obtain s1 where 1: "(if p_revents fd AND POLLIN \<noteq> 0
      then callCallback exec (m_readFunctions (L s)) (p_fd fd) s else Some s) = Some s1"
    using rd [OF assms] by fastforce
  have i1: "I s1" using 1 read_within [OF assms] assms R_inv by (auto split: if_splits)
  obtain s2 where 2: "(if p_revents fd AND POLLOUT \<noteq> 0
      then callCallback exec (m_writeFunctions (L s1)) (p_fd fd) s1 else Some s1) = Some s2"
    using wr [OF i1] by fastforce
  have i2: "I s2" using 2 write_within [OF i1] i1 R_inv by (auto split: if_splits)
  show ?thesis
    using ra [OF i2, of "p_fd fd"] by (auto simp: dispatch_fd_def 1 2)
qed

lemma dispatch_defined: "I s \<Longrightarrow> \<exists>s'. dispatch L exec fds s = Some s'"
proof (induction fds arbitrary: s)
  case (Cons fd fds)
  from dispatch_fd_defined [OF Cons.prems] obtain s1 where s1: "dispatch_fd L exec fd s = Some s1" by blast
  then have "I s1" using dispatch_fd_within Cons.prems R_inv by blast
  with Cons.IH s1 show ?case by auto
qed simp

end

end
