(* ===== verification/Dote.thy ===== *)
theory Dote
  imports Server
begin

text \<open>
  \<open>src/src/dote.cpp\<close>: building the system from the configuration and binding the servers.  The values of
  the \<open>ConfigParser\<close> that it reads are arguments.  The log lines are left out.
\<close>

definition new_dote :: "Forwarder list \<Rightarrow> int \<Rightarrow> nat \<Rightarrow> system" where
  "new_dote forwarders seconds maxConnections =
     new_system (setTimeout seconds (setForwarders forwarders new_config)) maxConnections"

text \<open>The destructor of the server destroys its pairs: the registration, then the socket.  At this point no
  query holds a socket.\<close>

fun drop_servers :: "(Socket \<times> Registration) list \<Rightarrow> world \<Rightarrow> world" where
  "drop_servers [] w = w"
| "drop_servers ((s, r) # rest) w =
     (let w = w\<lparr>w_loop := snd (reset r (w_loop w))\<rparr>;
          (_, w) = socket_close s w
      in drop_servers rest w)"

fun listen_all :: "env \<Rightarrow> sockaddr_storage list \<Rightarrow> system \<Rightarrow> bool \<times> system" where
  "listen_all env [] s = (True, s)"
| "listen_all env (a # as) s =
     (let (ok, s) = addServer env a s; (result, s) = listen_all env as s in (ok \<and> result, s))"

definition listen :: "env \<Rightarrow> sockaddr_storage list \<Rightarrow> system \<Rightarrow> bool \<times> system" where
  "listen env servers s =
     (let (result, s) = listen_all env servers s in
      if result then (True, s)
      else (False, s\<lparr>s_world := drop_servers (s_servers s) (s_world s), s_servers := []\<rparr>))"

end
