(* ===== verification/Running.thy ===== *)
theory Running
  imports System_Invariant Loop_Steps Dote
begin

text \<open>
  The running program: the locales of \<open>Loop_Steps\<close> interpreted on the system and its callbacks, the
  states after start-up (\<open>started\<close>), and the states in which the loop polls (\<open>reachable\<close>), all of which
  satisfy the invariant.
\<close>

subsection \<open>The loop of the program\<close>

text \<open>The invariant of the running program in an environment that is as documented; with \<open>inv_clean\<close> the
  answers of the forwarders are such that the packet wrapper is defined on them.\<close>

definition inv :: "env \<Rightarrow> system \<Rightarrow> bool" where
  "inv env s \<longleftrightarrow> env_ok env \<and> sys_ok s \<and> sent_ok s"

definition inv_clean :: "env \<Rightarrow> system \<Rightarrow> bool" where
  "inv_clean env s \<longleftrightarrow> inv env s \<and> answers_clean env"

interpretation turn: callbacks_within system_loop "exec env" "inv env" "\<lambda>s s'. inv env s' \<and> step_ok env s s'" for env
proof unfold_locales
  fix s t h cb tm s'
  assume "inv env s" "handler (system_loop s) t h = Some (cb, tm)" "exec env cb h s = Some s'"
  then show "inv env s' \<and> step_ok env s s'"
    using exec_ok [of env s t h cb tm] by (auto simp: inv_def step_ok_def)
qed (auto simp: inv_def step_ok_refl intro: step_ok_trans)

interpretation clean: callbacks_defined system_loop "exec env" "inv_clean env"
  "\<lambda>s s'. inv_clean env s' \<and> step_ok env s s'" for env
proof unfold_locales
  fix s t h cb tm
  assume a: "inv_clean env s" "handler (system_loop s) t h = Some (cb, tm)"
  then show "exec env cb h s \<noteq> None"
    using exec_ok [of env s t h cb tm] by (auto simp: inv_def inv_clean_def)
  fix s' assume "exec env cb h s = Some s'"
  with a show "inv_clean env s' \<and> step_ok env s s'"
    using exec_ok [of env s t h cb tm] by (auto simp: inv_def inv_clean_def step_ok_def)
qed (auto simp: inv_def inv_clean_def step_ok_refl intro: step_ok_trans)

subsection \<open>Starting up\<close>

lemma new_dote_ok: "sys_ok (new_dote fs t m) \<and> sent_ok (new_dote fs t m)"
  by (simp add: new_dote_def new_system_def sys_ok_def pool_ok_def hist_ok_def sent_ok_def handlers_open_def
      new_world_def server_handles_def socket_handles_def watch_handles_def system_loop_def)

text \<open>A handle of its own, a server socket's or the watch's, is opened and read from.\<close>

lemma pool_ok_serve:
  assumes pool: "pool_ok fs s" and h: "h \<notin> set (w_open (s_world s))" "0 \<le> h"
    and w: "w_open w' = h # w_open (s_world s)" "loop_ok (w_loop w')"
      "handler (w_loop w') = install (w_loop (s_world s)) Read h (Some (cb, 0))"
      "w_config w' = w_config (s_world s)" "w_context w' = w_context (s_world s)"
    and s': "s_world s' = w'" "s_heap s' = s_heap s" "s_next s' = s_next s"
    and srv: "mset (server_handles s') = add_mset h (mset (server_handles s))"
      "\<And>k. k \<noteq> h \<Longrightarrow> k \<in> set (watch_handles s') \<longleftrightarrow> k \<in> set (watch_handles s)"
      "cb = (if h \<in> set (watch_handles s') then Cb_config else Cb_server)"
  shows "pool_ok fs s'"
proof -
  have ho: "handlers_open (s_world s)" using pool by (simp add: pool_ok_def)
  have none: "handler (w_loop (s_world s)) t h = None" for t using ho h by (simp add: handlers_open_def)
  have sset: "set (server_handles s') = insert h (set (server_handles s))"
    using srv(1) by (metis set_mset_add_mset_insert set_mset_mset)
  have sdist: "distinct (server_handles s') \<longleftrightarrow> h \<notin> set (server_handles s) \<and> distinct (server_handles s)"
    using mset_eq_imp_distinct_iff [of "server_handles s'" "h # server_handles s"] srv(1) by simp
  have hno: "h \<notin> handle_of s ` set fs \<union> set (server_handles s)" using pool_open [OF pool] h(1) by blast
  have fp: "footprint h (s_world s) w'" using w by (simp add: footprint_def install_apply)
  have opn: "\<forall>k \<in> set (w_open (s_world s)) - {h}. k \<in> set (w_open w')" using w(1) by simp
  let ?s1 = "s\<lparr>s_world := w'\<rparr>"
  note fr = pool_frame [where s' = ?s1, OF pool fp hno opn _ _ _, simplified]
  have hd: "handle_of s' = handle_of s" by (rule ext) (simp add: handle_of_def s')
  have lv: "live s' i" if "i \<in> set fs" for i using fr(3) that by (simp add: live_def s')
  have sv: "server_ok s' k" if "k \<in> set (server_handles s)" for k
  proof -
    have "server_ok ?s1 k" "k \<noteq> h" using fr(4) that hno by auto
    then show ?thesis using srv(2) [of k] by (simp add: server_ok_def system_loop_def s' watch_handles_def)
  qed
  have new: "server_ok s' h"
    using none w srv(3) by (simp add: server_ok_def system_loop_def s' install_apply)
  have owned: "k \<in> insert h (handle_of s ` set fs \<union> set (server_handles s))"
    if "handler (w_loop w') t k \<noteq> None" for t k
    using fr(5) [of t k] that by auto
  have "k \<in> set (w_open w')" if "handler (w_loop w') t k \<noteq> None" for t k
    using owned [OF that] pool_open [OF pool] w(1) by auto
  then have ho': "handlers_open w'" using w(2) by (intro handlers_openI) auto
  have eq: "set (w_open (s_world s)) = handle_of s ` set fs \<union> set (server_handles s)"
    using pool by (simp add: pool_ok_def)
  have d: "distinct (map (handle_of s) fs @ server_handles s')"
    using pool hno sset sdist by (simp add: pool_ok_def)
  show ?thesis
    using pool lv sv new owned ho' w(1) h(1) eq d
    unfolding pool_ok_def hd s' sset system_loop_def by (auto simp: system_loop_def)
qed

lemma sys_ok_serve:
  assumes ok: "sys_ok s" "sent_ok s" and pool: "pool_ok (s_forwarders s) s'"
    and same: "s_heap s' = s_heap s" "s_next s' = s_next s" "s_forwarders s' = s_forwarders s" "s_max s' = s_max s"
      "s_queue s' = s_queue s" "s_arrived s' = s_arrived s" "s_started s' = s_started s" "s_sent s' = s_sent s"
  shows "sys_ok s' \<and> sent_ok s'"
  using ok pool same by (simp add: sys_ok_def hist_ok_def sent_ok_def)

lemma addServer_ok:
  assumes env: "env_ok env" and ok: "sys_ok s" "sent_ok s" and none: "s_watch s = None" and add: "addServer env a s = (b, s')"
  shows "sys_ok s' \<and> sent_ok s' \<and> s_max s' = s_max s \<and> s_watch s' = None \<and> same_config (s_world s) (s_world s')"
proof -
  have pool: "pool_ok (s_forwarders s) s" and ho: "handlers_open (s_world s)"
    using ok(1) by (simp_all add: sys_ok_def pool_ok_def)
  obtain so w where bind: "Socket_bind env a UDP (s_world s) = (so, w)" by fastforce
  note op = Socket_bind_opens [OF env bind]
  show ?thesis
  proof (cases so)
    case None
    with op have t: "same_but_tick (s_world s) w" by (simp add: opens_def)
    have "s' = s\<lparr>s_world := w\<rparr>" using add None by (simp add: addServer_def bind)
    then show ?thesis
      using sys_ok_call [OF ok(1) t, of "s_sent s"] ok(2) t none
      by (simp add: sent_ok_def same_config_def same_but_tick_def)
  next
    case (Some k)
    let ?h = "m_handle k"
    obtain e w1 where en: "enablePacketInfo env k w = (e, w1)" by fastforce
    have t1: "same_but_tick w w1" using en
      by (auto simp: enablePacketInfo_def call_def same_but_tick_def split: if_splits option.splits)
    from op Some have h: "?h \<notin> set (w_open (s_world s))" "0 \<le> ?h"
      and w: "w_loop w1 = w_loop (s_world s)" "w_open w1 = ?h # w_open (s_world s)"
        "w_config w1 = w_config (s_world s)" "w_context w1 = w_context (s_world s)"
      using t1 by (auto simp: opens_def same_but_tick_def)
    have fresh: "handler (w_loop w1) t ?h = None" for t using ho h w by (simp add: handlers_open_def)
    have lok: "loop_ok (w_loop w1)" using ho w by (simp add: handlers_open_def)
    obtain r l where rg: "registerRead ?h Cb_server 0 (w_loop w1) = (r, l)" by fastforce
    from registerRead_fresh [OF lok fresh, of Cb_server 0] rg have l: "loop_ok l"
      "handler l = install (w_loop w1) Read ?h (Some (Cb_server, 0))" by simp_all
    let ?w = "w1\<lparr>w_loop := l\<rparr>"
    have s': "s' = s\<lparr>s_world := ?w, s_servers := s_servers s @ [(k, fst (move_construct r))]\<rparr>"
      using add Some by (simp add: addServer_def bind en rg Let_def split: prod.splits)
    have "pool_ok (s_forwarders s) s'"
      using l w none
      by (intro pool_ok_serve [OF pool h, of ?w Cb_server s'])
        (simp_all add: s' server_handles_def socket_handles_def watch_handles_def)
    from sys_ok_serve [OF ok this] show ?thesis using w none by (simp add: s' same_config_def)
  qed
qed

lemma watch_configuration_ok:
  assumes env: "env_ok env" and ok: "sys_ok s" "sent_ok s" and none: "s_watch s = None"
  shows "sys_ok (watch_configuration env s) \<and> sent_ok (watch_configuration env s)
    \<and> s_max (watch_configuration env s) = s_max s \<and> s_servers (watch_configuration env s) = s_servers s
    \<and> same_config (s_world s) (s_world (watch_configuration env s))"
proof -
  have pool: "pool_ok (s_forwarders s) s" and ho: "handlers_open (s_world s)"
    using ok(1) by (simp_all add: sys_ok_def pool_ok_def)
  obtain v w where n: "new_VyattaCheck env (s_world s) = (v, w)" by fastforce
  have h: "e_inotify_init env t hs = -1 \<or> 0 \<le> e_inotify_init env t hs \<and> e_inotify_init env t hs \<notin> set hs" for t hs
    using env by (simp add: env_ok_def)
  consider "vc_fd v < 0" "same_but_tick (s_world s) w"
    | "0 \<le> vc_fd v" "vc_fd v \<notin> set (w_open (s_world s))" "w_open w = vc_fd v # w_open (s_world s)" "w_loop w = w_loop (s_world s)"
      "w_config w = w_config (s_world s)" "w_context w = w_context (s_world s)" "vc_read v = no_registration"
    using n h [of "w_tick (s_world s)" "w_open (s_world s)"]
    by (auto simp: new_VyattaCheck_def call_def close_handle_def same_but_tick_def Let_def split: if_splits)
  then show ?thesis
  proof cases
    case 1
    let ?s = "s\<lparr>s_world := w, s_watch := Some v\<rparr>"
    have e: "watch_configuration env s = ?s" using 1 by (simp add: watch_configuration_def n configure_watch_def)
    have "loop_ok (w_loop (s_world s))" using ho by (simp add: handlers_open_def)
    then have "pool_ok (s_forwarders s) (s\<lparr>s_world := w\<rparr>)"
      using 1(2) by (intro pool_ok_same [OF pool, of w]) (simp_all add: same_but_tick_def)
    moreover have "server_handles ?s = server_handles (s\<lparr>s_world := w\<rparr>)" "watch_handles ?s = watch_handles (s\<lparr>s_world := w\<rparr>)"
      using 1(1) none by (simp_all add: server_handles_def socket_handles_def watch_handles_def)
    moreover have "handle_of ?s = handle_of (s\<lparr>s_world := w\<rparr>)" "live ?s = live (s\<lparr>s_world := w\<rparr>)"
      by (intro ext, simp add: handle_of_def live_def)+
    ultimately have "pool_ok (s_forwarders s) ?s"
      by (simp add: pool_ok_def server_ok_def system_loop_def)
    from sys_ok_serve [OF ok this] 1(2) show ?thesis by (simp add: e same_config_def same_but_tick_def)
  next
    case 2
    let ?h = "vc_fd v"
    have fresh: "handler (w_loop w) t ?h = None" for t using ho 2 by (simp add: handlers_open_def)
    have lok: "loop_ok (w_loop w)" using ho 2 by (simp add: handlers_open_def)
    obtain r l where rg: "registerRead ?h Cb_config 0 (w_loop w) = (r, l)" by fastforce
    from registerRead_fresh [OF lok fresh, of Cb_config 0] rg have l: "loop_ok l"
      "handler l = install (w_loop w) Read ?h (Some (Cb_config, 0))" by simp_all
    let ?s = "s\<lparr>s_world := w\<lparr>w_loop := l\<rparr>, s_watch := Some (v\<lparr>vc_dote := True, vc_read := r\<rparr>)\<rparr>"
    have e: "watch_configuration env s = ?s"
      using 2(1,7) by (simp add: watch_configuration_def n configure_watch_def rg move_assign_def reset_def no_registration_def)
    have "pool_ok (s_forwarders s) ?s"
      using l 2 none
      by (intro pool_ok_serve [OF pool 2(2,1), of "w\<lparr>w_loop := l\<rparr>" Cb_config ?s])
        (simp_all add: server_handles_def socket_handles_def watch_handles_def)
    from sys_ok_serve [OF ok this] 2 show ?thesis by (simp add: e same_config_def)
  qed
qed

lemma listen_all_ok:
  "env_ok env \<Longrightarrow> sys_ok s \<Longrightarrow> sent_ok s \<Longrightarrow> s_watch s = None \<Longrightarrow> listen_all env as s = (b, s') \<Longrightarrow>
   sys_ok s' \<and> sent_ok s' \<and> s_max s' = s_max s \<and> s_watch s' = None \<and> same_config (s_world s) (s_world s')"
proof (induction as arbitrary: s b)
  case (Cons a as)
  obtain b1 s1 where 1: "addServer env a s = (b1, s1)" by fastforce
  note a = addServer_ok [OF Cons.prems(1-4) 1]
  obtain b2 s2 where 2: "listen_all env as s1 = (b2, s2)" by fastforce
  with Cons.prems(5) 1 have 2: "listen_all env as s1 = (b2, s')" by simp
  from a Cons.IH [OF Cons.prems(1) _ _ _ 2] same_config_trans [of "s_world s" "s_world s1" "s_world s'"]
  show ?case by simp
qed simp

text \<open>A program that has bound its servers and watches its configuration.\<close>

definition started :: "env \<Rightarrow> Forwarder list \<Rightarrow> int \<Rightarrow> nat \<Rightarrow> sockaddr_storage list \<Rightarrow> system \<Rightarrow> bool" where
  "started env fs t m servers s \<longleftrightarrow>
     (case listen env servers (new_dote fs t m) of (ok, s1) \<Rightarrow> ok \<and> s = watch_configuration env s1)"

lemma new_dote_fields: "m_forwarders (w_config (s_world (new_dote fs t m))) = fs"
  "s_max (new_dote fs t m) = m" "s_watch (new_dote fs t m) = None"
  by (simp_all add: new_dote_def new_system_def setTimeout_def setForwarders_eq)

lemma started_inv:
  assumes env: "env_ok env" and "started env fs t m servers s"
  shows "inv env s \<and> s_max s = m \<and> mset (m_forwarders (w_config (s_world s))) = mset fs"
proof -
  obtain b s1 where l: "listen_all env servers (new_dote fs t m) = (b, s1)" by fastforce
  with assms(2) have s: "s = watch_configuration env s1" by (auto simp: started_def listen_def split: if_splits)
  have 1: "sys_ok s1" "sent_ok s1" "s_watch s1 = None" "s_max s1 = m" "mset (m_forwarders (w_config (s_world s1))) = mset fs"
    using listen_all_ok [OF env _ _ _ l] new_dote_ok [of fs t m] new_dote_fields [of fs t m]
    by (simp_all add: same_config_def)
  show ?thesis using watch_configuration_ok [OF env 1(1-3)] 1 env by (simp add: s inv_def same_config_def)
qed

text \<open>The states the loop is in when it polls, after any number of turns with any answers of \<open>poll\<close> and at
  any times.\<close>

inductive reachable :: "env \<Rightarrow> system \<Rightarrow> pollfd list \<Rightarrow> int \<Rightarrow> system \<Rightarrow> bool" for env s0 where
  enter: "run_enter system_loop (exec env) now s0 = Some (fds, tmo, s) \<Longrightarrow> reachable env s0 fds tmo s"
| iterate: "reachable env s0 fds tmo s \<Longrightarrow> fds \<noteq> [] \<Longrightarrow> length revents = length fds \<Longrightarrow>
    run_body system_loop (exec env) now revents fds s = Some (fds', tmo', s') \<Longrightarrow>
    reachable env s0 fds' tmo' s'"

lemma reachable_step_ok:
  assumes "reachable env s0 fds tmo s" and "inv env s0"
  shows "inv env s \<and> step_ok env s0 s"
  using assms(1)
proof (induction rule: reachable.induct)
  case (enter now fds tmo s)
  then show ?case using turn.run_enter_within [OF assms(2)] by blast
next
  case (iterate fds tmo s revents now fds' tmo' s')
  then have "inv env s' \<and> step_ok env s s'" using turn.run_body_within by blast
  with iterate.IH show ?case using step_ok_trans by blast
qed

text \<open>Any number of turns on any poll vectors, for what holds however the loop goes on.\<close>

inductive runs_on :: "env \<Rightarrow> system \<Rightarrow> system \<Rightarrow> bool" for env s0 where
  here: "runs_on env s0 s0"
| turn: "runs_on env s0 s \<Longrightarrow> run_body system_loop (exec env) now revents fds s = Some (fds', tmo, s') \<Longrightarrow> runs_on env s0 s'"

lemma runs_on_trans: "runs_on env s1 s2 \<Longrightarrow> runs_on env s0 s1 \<Longrightarrow> runs_on env s0 s2"
  by (induction rule: runs_on.induct) (auto intro: runs_on.turn)

end
