(* ===== verification/Sample_Run.thy ===== *)
theory Sample_Run
  imports Running
begin

text \<open>
  One concrete run of the program, for the witnesses of the root theory: a started program with one server
  socket, two forwarders and a pool of one, the two turns of the loop in which two queries arrive, and the
  callbacks that run when the forwarder of the first one hangs up.
\<close>

unbundle bit_operations_syntax

subsection \<open>A concrete program for the witnesses\<close>

text \<open>An environment in which every \<open>recvmsg\<close> delivers a query, no handshake makes progress but wants to
  write, and the forwarder hangs up at call 18.\<close>

definition busy_env :: env where
  "busy_env = calm_env\<lparr>e_ssl_connect := \<lambda>n. if n = 18 then 0 else -1, e_ssl_error := \<lambda>n. SSL_ERROR_WANT_WRITE,
     e_recvmsg := \<lambda>n. Some \<lparr>rm_from = inet_addr 0x0A000001 4000, rm_control = [], rm_trunc = False,
       rm_data = [0, 7, 1, 0, 0, 1, 0, 0, 0, 0, 0, 0]\<rparr>\<rparr>"

lemma env_ok_busy: "env_ok busy_env"
  using env_ok_calm by (simp add: env_ok_def busy_env_def)

definition sample_servers :: "sockaddr_storage list" where
  "sample_servers = [inet_addr 0x7F000001 53]"

definition sample_config :: ForwarderConfig where
  "sample_config = \<lparr>m_timeout = 5, m_forwarders = [forwarder_at 1, forwarder_at 2]\<rparr>"

definition sample_server_entry :: "Socket \<times> Registration" where
  "sample_server_entry = (\<lparr>m_handle = 3, m_domain = PF_INET\<rparr>, \<lparr>r_handle = 3, r_type = Read\<rparr>)"

definition sample_started :: system where
  "sample_started =
     \<lparr>s_world = \<lparr>w_tick = 7, w_open = [3],
        w_loop = \<lparr>m_readFunctions = [(3, Cb_server, 0)], m_writeFunctions = [], m_exceptFunctions = []\<rparr>,
        w_config = sample_config, w_context = True, w_session = None\<rparr>,
      s_heap = Map.empty, s_next = 0, s_forwarders = [], s_max = 1, s_queue = [],
      s_servers = [sample_server_entry],
      s_watch = Some \<lparr>vc_fd = -1, vc_dote = False, vc_read = no_registration\<rparr>, s_arrived = [], s_started = [], s_sent = []\<rparr>"

lemma started_calm:
  "started (calm_env\<lparr>e_ssl_connect := a, e_ssl_error := b, e_recvmsg := c, e_ssl_read := d, e_time := e\<rparr>) [forwarder_at 1, forwarder_at 2] 5 1 sample_servers sample_started"
proof -
  have "setTimeout 5 (setForwarders [forwarder_at 1, forwarder_at 2] new_config) = sample_config"
    by (simp add: setTimeout_def setForwarders_eq new_config_def sample_config_def)
  then have "new_dote [forwarder_at 1, forwarder_at 2] 5 1 = new_system sample_config 1"
    by (simp add: new_dote_def)
  then show ?thesis
    by (simp add: started_def sample_started_def listen_def sample_servers_def addServer_def Socket_bind_def new_socket_def
      socket_bind_def socket_of_handle_def call_def calm_env_def Let_def new_system_def new_world_def
      inet_addr_def enablePacketInfo_def packet_info_option_def registerRead_def empty_loop_def
      PF_INET_def PF_INET6_def move_construct_def sample_server_entry_def watch_configuration_def
      new_VyattaCheck_def configure_watch_def)
qed

lemma started_sample: "started busy_env [forwarder_at 1, forwarder_at 2] 5 1 sample_servers sample_started"
  using started_calm [where d = "e_ssl_read calm_env" and e = "e_time calm_env"] by (simp add: busy_env_def)

lemmas run_defs = handleDnsRequest_def call_def handleRequest_def sendRequest.simps new_ForwarderConnection_def
  ssl_create_def new_SslConnection_def get_forwarder_def configureVerifier_def Socket_connect_def new_socket_def
  socket_of_handle_def socket_connect_def assign_exception_def registerException_def move_assign_def
  fc_connect_def ssl_connect_def doFunction_def await_write_def assign_write_def registerWrite_def
  reset_read_def reset_write_def reset_exception_def reset_def no_registration_def reg_valid_def fc_send_def store_def

definition busy_query :: QueuedQuery where
  "busy_query = \<lparr>q_reply = \<lparr>rp_socket = 3, rp_client = inet_addr 0x0A000001 4000, rp_server = unspec_addr, rp_interface = -1\<rparr>,
     q_request = frame_request [0, 7, 1, 0, 0, 1, 0, 0, 0, 0, 0, 0]\<rparr>"

definition busy_conn :: "nat \<Rightarrow> ForwarderConnection" where
  "busy_conn i = \<lparr>c_timeout = 1005,
     c_connection = Some \<lparr>m_ssl = True, ssl_fd = Some 4, ssl_verify = True, ssl_session = None, m_verifier = None\<rparr>,
     c_incoming = Some (q_reply busy_query), c_shutdown = True, c_state = CONNECTING,
     c_socket = Some \<lparr>m_handle = 4, m_domain = PF_INET\<rparr>, c_read = no_registration,
     c_write = \<lparr>r_handle = 4, r_type = Write\<rparr>, c_exception = \<lparr>r_handle = 4, r_type = Exception\<rparr>,
     c_buffer = q_request busy_query, c_forwarder = Some (forwarder_at 1)\<rparr>"

definition busy_loop :: "nat \<Rightarrow> callback Loop" where
  "busy_loop i = \<lparr>m_readFunctions = [(3, Cb_server, 0)], m_writeFunctions = [(4, Cb_connect i, 1005)],
     m_exceptFunctions = [(4, Cb_exception i)]\<rparr>"

definition busy_one :: system where
  "busy_one = sample_started\<lparr>s_world := \<lparr>w_tick = 17, w_open = [4, 3], w_loop = busy_loop 0,
        w_config = sample_config, w_context = True, w_session = None\<rparr>,
      s_heap := [0 \<mapsto> busy_conn 0], s_next := 1, s_forwarders := [0],
      s_arrived := [busy_query], s_started := [(0, busy_query)]\<rparr>"

lemma busy_turn_one: "handleDnsRequest busy_env 3 sample_started = Some busy_one"
  by (simp add: run_defs busy_env_def calm_env_def sample_started_def sample_server_entry_def busy_one_def
      busy_query_def getDestinationAddress_def sample_config_def forwarder_at_def inet_addr_def
      busy_loop_def busy_conn_def frame_request_def SSL_ERROR_WANT_READ_def SSL_ERROR_WANT_WRITE_def
      configureVerifier_def ssl_setSocket_def)

definition busy_two :: system where
  "busy_two = busy_one\<lparr>s_world := (s_world busy_one)\<lparr>w_tick := 18\<rparr>, s_queue := [busy_query],
     s_arrived := [busy_query, busy_query]\<rparr>"

lemma busy_turn_two: "handleDnsRequest busy_env 3 busy_one = Some busy_two"
  by (simp add: handleDnsRequest_def handleRequest_def call_def busy_env_def sample_started_def
      sample_server_entry_def busy_two_def busy_one_def busy_query_def getDestinationAddress_def)

text \<open>The forwarder hangs up while the poll vector still holds the old events of handle 4.\<close>

definition busy_three :: system where
  "busy_three = busy_two\<lparr>s_world := (s_world busy_two)\<lparr>w_tick := 28, w_loop := busy_loop 1\<rparr>,
     s_heap := [1 \<mapsto> busy_conn 1], s_next := 2, s_forwarders := [1], s_queue := [],
     s_started := [(0, busy_query), (1, busy_query)]\<rparr>"

lemmas close_defs = conn_callback_def fc_close_def socket_close_def close_handle_def removeRead_def removeWrite_def
  removeException_def map_erase_def finish_def handleShutdown_def destroy_def dequeue.simps

lemma busy_hangup: "conn_callback busy_env 0 (Cb_connect 0) busy_two = Some busy_three"
  by (simp add: run_defs close_defs busy_env_def calm_env_def sample_started_def busy_two_def busy_one_def
      busy_three_def busy_query_def sample_config_def forwarder_at_def inet_addr_def
      busy_loop_def busy_conn_def frame_request_def SSL_ERROR_WANT_READ_def SSL_ERROR_WANT_WRITE_def
      ssl_setSocket_def fun_eq_iff)

definition busy_four :: system where
  "busy_four = busy_three\<lparr>s_world := (s_world busy_three)\<lparr>w_open := [3],
       w_loop := w_loop (s_world sample_started),
       w_config := \<lparr>m_timeout = 5, m_forwarders = [forwarder_at 2, forwarder_at 1]\<rparr>\<rparr>,
     s_heap := Map.empty, s_forwarders := []\<rparr>"

lemma busy_stale: "conn_callback busy_env 1 (Cb_exception 1) busy_three = Some busy_four"
  by (simp add: run_defs close_defs fc_exception_def config_setBad_def setBad_def busy_four_def sample_started_def
      busy_two_def busy_one_def busy_three_def sample_config_def forwarder_at_def inet_addr_def
      busy_loop_def busy_conn_def fun_eq_iff)

lemmas poll_defs = populateFds_def clearFds_def popluateFds_def add_event_def removeFds_def POLLIN_def POLLOUT_def
  POLLERR_def POLLHUP_def POLLNVAL_def

lemma loop_samples:
  "system_loop sample_started = \<lparr>m_readFunctions = [(3, Cb_server, 0)], m_writeFunctions = [], m_exceptFunctions = []\<rparr>"
  "system_loop busy_one = busy_loop 0" "system_loop busy_two = busy_loop 0" "system_loop busy_three = busy_loop 1"
  by (simp_all add: system_loop_def sample_started_def busy_one_def busy_two_def busy_three_def)

lemma poll_samples:
  "populateFds (system_loop sample_started) [] = [\<lparr>p_fd = 3, p_events = 1, p_revents = 0\<rparr>]"
  "populateFds (busy_loop 0) [\<lparr>p_fd = 3, p_events = 1, p_revents = 1\<rparr>]
     = [\<lparr>p_fd = 3, p_events = 1, p_revents = 1\<rparr>, \<lparr>p_fd = 4, p_events = 4, p_revents = 0\<rparr>]"
  "populateFds (busy_loop 0) [\<lparr>p_fd = 3, p_events = 1, p_revents = 1\<rparr>, \<lparr>p_fd = 4, p_events = 4, p_revents = 0\<rparr>]
     = [\<lparr>p_fd = 3, p_events = 1, p_revents = 1\<rparr>, \<lparr>p_fd = 4, p_events = 4, p_revents = 0\<rparr>]"
  by (simp_all add: loop_samples poll_defs busy_loop_def)

lemma quiet_turn:
  assumes "dispatch system_loop (exec env) (map2 (\<lambda>fd r. fd\<lparr>p_revents := r\<rparr>) fds revents) s = Some s'"
    and "overdue 0 m_readFunctions (system_loop s') = {}" "overdue 0 m_writeFunctions (system_loop s') = {}"
  shows "\<exists>tmo. run_body system_loop (exec env) 0 revents fds s
    = Some (populateFds (system_loop s') (map2 (\<lambda>fd r. fd\<lparr>p_revents := r\<rparr>) fds revents), tmo, s')"
  using assms by (simp add: run_body_def Let_def timeout_def timeout_map_quiet)

lemma quiet_samples: "overdue 0 m_readFunctions (busy_loop i) = {}" "overdue 0 m_writeFunctions (busy_loop i) = {}"
  "overdue 0 m_readFunctions (system_loop sample_started) = {}" "overdue 0 m_writeFunctions (system_loop sample_started) = {}"
  by (auto simp: overdue_def busy_loop_def loop_samples)

lemma dispatch_server:
  assumes "map_of (m_readFunctions (system_loop s)) 3 = Some (Cb_server, 0)" and "handleDnsRequest env 3 s = Some s'"
  shows "dispatch_fd system_loop (exec env) \<lparr>p_fd = 3, p_events = 1, p_revents = 1\<rparr> s = Some s'"
  using assms by (simp add: dispatch_fd_def callCallback_def POLLIN_def POLLOUT_def POLLERR_def POLLHUP_def POLLNVAL_def)

lemma dispatch_nothing: "dispatch_fd L ex \<lparr>p_fd = h, p_events = e, p_revents = 0\<rparr> s = Some s"
  by (simp add: dispatch_fd_def)

lemma first_turn:
  assumes "handleDnsRequest env 3 sample_started = Some s'"
    and "overdue 0 m_readFunctions (system_loop s') = {}" "overdue 0 m_writeFunctions (system_loop s') = {}"
  shows "\<exists>tmo. reachable env sample_started
    (populateFds (system_loop s') [\<lparr>p_fd = 3, p_events = 1, p_revents = 1\<rparr>]) tmo s'"
proof -
  have e: "\<exists>tmo. run_enter system_loop (exec env) 0 sample_started
      = Some ([\<lparr>p_fd = 3, p_events = 1, p_revents = 0\<rparr>], tmo, sample_started)"
    by (simp add: run_enter_def timeout_def timeout_map_quiet quiet_samples poll_samples)
  have d: "dispatch_fd system_loop (exec env) \<lparr>p_fd = 3, p_events = 1, p_revents = 1\<rparr> sample_started = Some s'"
    by (rule dispatch_server [OF _ assms(1)]) (simp add: loop_samples)
  obtain t2 where b: "run_body system_loop (exec env) 0 [1] [\<lparr>p_fd = 3, p_events = 1, p_revents = 0\<rparr>] sample_started
      = Some (populateFds (system_loop s') [\<lparr>p_fd = 3, p_events = 1, p_revents = 1\<rparr>], t2, s')"
    using quiet_turn [of env "[\<lparr>p_fd = 3, p_events = 1, p_revents = 0\<rparr>]" "[1]" sample_started s'] d assms(2,3)
    by auto
  from e obtain t1 where "reachable env sample_started [\<lparr>p_fd = 3, p_events = 1, p_revents = 0\<rparr>] t1 sample_started"
    using reachable.enter by blast
  from reachable.iterate [OF this _ _ b] show ?thesis by (intro exI) simp
qed

text \<open>Two queries that arrive in two turns: the first one gets the connection, the second one waits.\<close>

lemma reachable_queued:
  assumes "handleDnsRequest env 3 sample_started = Some busy_one" and "handleDnsRequest env 3 busy_one = Some busy_two"
  shows "\<exists>tmo. reachable env sample_started
    [\<lparr>p_fd = 3, p_events = 1, p_revents = 1\<rparr>, \<lparr>p_fd = 4, p_events = 4, p_revents = 0\<rparr>] tmo busy_two"
proof -
  let ?fds = "[\<lparr>p_fd = 3, p_events = 1, p_revents = 1\<rparr>, \<lparr>p_fd = 4, p_events = 4, p_revents = 0\<rparr>]"
  obtain tmo where r: "reachable env sample_started ?fds tmo busy_one"
    using first_turn [OF assms(1)] by (auto simp: loop_samples quiet_samples poll_samples)
  have d: "dispatch_fd system_loop (exec env) \<lparr>p_fd = 3, p_events = 1, p_revents = 1\<rparr> busy_one = Some busy_two"
    by (rule dispatch_server [OF _ assms(2)]) (simp add: loop_samples busy_loop_def)
  have "\<exists>tmo. run_body system_loop (exec env) 0 [1, 0] ?fds busy_one = Some (?fds, tmo, busy_two)"
    using quiet_turn [of env ?fds "[1, 0]" busy_one busy_two] d
    by (simp add: dispatch_nothing loop_samples quiet_samples poll_samples)
  then obtain t2 where b: "run_body system_loop (exec env) 0 [1, 0] ?fds busy_one = Some (?fds, t2, busy_two)" ..
  from reachable.iterate [OF r _ _ b] show ?thesis by (intro exI) simp
qed

lemmas reachable_two = reachable_queued [OF busy_turn_one busy_turn_two]

lemma dispatch_stale:
  "dispatch_fd system_loop (exec busy_env) \<lparr>p_fd = 4, p_events = POLLOUT, p_revents = POLLOUT OR POLLHUP\<rparr> busy_two
   = Some busy_four"
  by (auto simp: dispatch_fd_def POLLIN_def POLLOUT_def POLLERR_def POLLHUP_def POLLNVAL_def callCallback_def
      raiseException_def loop_samples busy_loop_def busy_hangup busy_stale [unfolded One_nat_def])

subsection \<open>A forwarder that answers\<close>

text \<open>The handshake succeeds at once and every read gives the same answer to the query.\<close>

definition answer_bytes :: bytes where
  "answer_bytes = [0, 12, 0, 7, 0x81, 0x80, 0, 0, 0, 0, 0, 0, 0, 0]"

definition open_env :: env where
  "open_env = calm_env\<lparr>e_recvmsg := e_recvmsg busy_env, e_ssl_read := \<lambda>n. (14, answer_bytes)\<rparr>"

lemma env_ok_open: "env_ok open_env"
  using env_ok_busy env_ok_calm by (simp add: env_ok_def open_env_def answer_bytes_def)

lemma started_open: "started open_env [forwarder_at 1, forwarder_at 2] 5 1 sample_servers sample_started"
  using started_calm [where a = "e_ssl_connect calm_env" and b = "e_ssl_error calm_env" and e = "e_time calm_env"] by (simp add: open_env_def)

definition open_conn :: ForwarderConnection where
  "open_conn = (busy_conn 0)\<lparr>c_state := OPEN, c_read := \<lparr>r_handle = 4, r_type = Read\<rparr>\<rparr>"

definition open_one :: system where
  "open_one = sample_started\<lparr>s_world := \<lparr>w_tick = 17, w_open = [4, 3],
        w_loop = \<lparr>m_readFunctions = [(3, Cb_server, 0), (4, Cb_incoming 0, 1005)],
          m_writeFunctions = [(4, Cb_outgoing 0, 1005)], m_exceptFunctions = [(4, Cb_exception 0)]\<rparr>,
        w_config = sample_config, w_context = True, w_session = None\<rparr>,
      s_heap := [0 \<mapsto> open_conn], s_next := 1, s_forwarders := [0],
      s_arrived := [busy_query], s_started := [(0, busy_query)]\<rparr>"

lemma open_turn: "handleDnsRequest open_env 3 sample_started = Some open_one"
  by (simp add: run_defs open_env_def busy_env_def calm_env_def sample_started_def sample_server_entry_def open_one_def
      busy_query_def getDestinationAddress_def sample_config_def forwarder_at_def inet_addr_def open_conn_def
      busy_conn_def frame_request_def open_up_def assign_read_def registerRead_def
      configureVerifier_def ssl_setSocket_def cacheSession_def)

lemma reachable_open: "\<exists>fds tmo. reachable open_env sample_started fds tmo open_one"
proof -
  have "overdue 0 m_readFunctions (system_loop open_one) = {}" "overdue 0 m_writeFunctions (system_loop open_one) = {}"
    by (auto simp: overdue_def system_loop_def open_one_def)
  from first_turn [OF open_turn this] show ?thesis by blast
qed

subsection \<open>A configuration that changes\<close>

text \<open>The watch gets handle 9; its first event brings a configuration with another forwarder.\<close>

definition watch_env :: env where
  "watch_env = calm_env\<lparr>e_inotify_init := \<lambda>n hs. if 9 \<in> set hs then -1 else 9, e_reloads := \<lambda>n. [[forwarder_at 3]]\<rparr>"

lemma env_ok_watch: "env_ok watch_env"
  using env_ok_calm by (simp add: env_ok_def watch_env_def)

definition sample_watched :: system where
  "sample_watched = sample_started\<lparr>s_world := \<lparr>w_tick = 8, w_open = [9, 3],
        w_loop = \<lparr>m_readFunctions = [(3, Cb_server, 0), (9, Cb_config, 0)], m_writeFunctions = [], m_exceptFunctions = []\<rparr>,
        w_config = sample_config, w_context = True, w_session = None\<rparr>,
      s_watch := Some \<lparr>vc_fd = 9, vc_dote = True, vc_read = \<lparr>r_handle = 9, r_type = Read\<rparr>\<rparr>\<rparr>"

lemma started_watched: "started watch_env [forwarder_at 1, forwarder_at 2] 5 1 sample_servers sample_watched"
proof -
  have "setTimeout 5 (setForwarders [forwarder_at 1, forwarder_at 2] new_config) = sample_config"
    by (simp add: setTimeout_def setForwarders_eq new_config_def sample_config_def)
  then have "new_dote [forwarder_at 1, forwarder_at 2] 5 1 = new_system sample_config 1"
    by (simp add: new_dote_def)
  then show ?thesis
    by (simp add: started_def sample_started_def sample_watched_def listen_def sample_servers_def addServer_def Socket_bind_def new_socket_def
      socket_bind_def socket_of_handle_def call_def watch_env_def calm_env_def Let_def new_system_def new_world_def
      inet_addr_def enablePacketInfo_def packet_info_option_def registerRead_def empty_loop_def move_assign_def reset_def no_registration_def
      PF_INET_def PF_INET6_def move_construct_def sample_server_entry_def watch_configuration_def
      new_VyattaCheck_def configure_watch_def)
qed

definition sample_reloaded :: system where
  "sample_reloaded = sample_watched\<lparr>s_world := (s_world sample_watched)\<lparr>w_tick := 9,
     w_config := \<lparr>m_timeout = 5, m_forwarders = [forwarder_at 3]\<rparr>\<rparr>\<rparr>"

lemma reload_turn: "exec watch_env Cb_config 9 sample_watched = Some sample_reloaded"
  by (simp add: handleConfigRead_def sample_watched_def sample_reloaded_def call_def watch_env_def reload_all_eq sample_config_def)

lemma reachable_reloaded: "\<exists>fds tmo. reachable watch_env sample_watched fds tmo sample_reloaded"
proof -
  let ?fds = "[\<lparr>p_fd = 3, p_events = 1, p_revents = 0\<rparr>, \<lparr>p_fd = 9, p_events = 1, p_revents = 0\<rparr>]"
  have q: "overdue 0 sel (system_loop s) = {}"
    if "s \<in> {sample_watched, sample_reloaded}" "sel \<in> {m_readFunctions, m_writeFunctions}" for s sel
    using that by (auto simp: overdue_def system_loop_def sample_watched_def sample_reloaded_def)
  have p: "populateFds (system_loop sample_watched) [] = ?fds"
    by (simp add: poll_defs system_loop_def sample_watched_def)
  obtain t1 where e: "run_enter system_loop (exec watch_env) 0 sample_watched = Some (?fds, t1, sample_watched)"
    by (simp add: run_enter_def timeout_def timeout_map_quiet q p)
  have "map_of (m_readFunctions (system_loop sample_watched)) 9 = Some (Cb_config, 0)"
    by (simp add: system_loop_def sample_watched_def)
  then have d: "dispatch system_loop (exec watch_env) (map2 (\<lambda>fd r. fd\<lparr>p_revents := r\<rparr>) ?fds [0, 1]) sample_watched = Some sample_reloaded"
    using reload_turn
    by (simp add: dispatch_nothing dispatch_fd_def callCallback_def POLLIN_def POLLOUT_def POLLERR_def POLLHUP_def POLLNVAL_def)
  obtain t2 where "run_body system_loop (exec watch_env) 0 [0, 1] ?fds sample_watched
      = Some (populateFds (system_loop sample_reloaded) (map2 (\<lambda>fd r. fd\<lparr>p_revents := r\<rparr>) ?fds [0, 1]), t2, sample_reloaded)"
    using quiet_turn [OF d] q by blast
  from reachable.iterate [OF reachable.enter [OF e] _ _ this] show ?thesis by auto
qed

end
