(* ===== verification/Proxy_Spec.thy ===== *)
theory Proxy_Spec
  imports Sample_Run
begin

text \<open>
  What the program promises, as an abstract machine: queries arrive and wait, are taken up in their order while fewer
  than \<open>m\<close> are active, are answered at most once, to the client they came from, while they are active, and end.  The
  program refines it: every turn of the loop is a sequence of these steps on the \<open>view\<close> of the state.
\<close>

subsection \<open>The abstract machine\<close>

record proxy =
  px_waiting :: "QueuedQuery list"
  px_active :: "(nat \<times> QueuedQuery) list"
  px_answers :: "(nat \<times> datagram) list"
  px_next :: nat

inductive proxy_step :: "nat \<Rightarrow> proxy \<Rightarrow> proxy \<Rightarrow> bool" for m where
  arrive: "proxy_step m p (p\<lparr>px_waiting := px_waiting p @ [q]\<rparr>)"
| take_up: "px_waiting p = q # rest \<Longrightarrow> length (px_active p) < m \<Longrightarrow>
    proxy_step m p (p\<lparr>px_waiting := rest, px_active := px_active p @ [(px_next p, q)], px_next := Suc (px_next p)\<rparr>)"
| answer: "(i, q) \<in> set (px_active p) \<Longrightarrow> i \<notin> fst ` set (px_answers p) \<Longrightarrow>
    proxy_step m p (p\<lparr>px_answers := px_answers p @ [(i, response_to (q_reply q) payload)]\<rparr>)"
| leave: "e \<in> set (px_active p) \<Longrightarrow> proxy_step m p (p\<lparr>px_active := remove1 e (px_active p)\<rparr>)"

abbreviation proxy_steps :: "nat \<Rightarrow> proxy \<Rightarrow> proxy \<Rightarrow> bool" where
  "proxy_steps m \<equiv> (proxy_step m)\<^sup>*\<^sup>*"

definition idle_proxy :: proxy where
  "idle_proxy = \<lparr>px_waiting = [], px_active = [], px_answers = [], px_next = 0\<rparr>"

inductive_cases proxy_stepE: "proxy_step m p p'"

text \<open>What the machine keeps to.\<close>

lemma proxy_keeps:
  assumes "proxy_steps m idle_proxy p"
  shows "length (px_active p) \<le> m \<and> distinct (map fst (px_answers p)) \<and> (\<forall>(i, q) \<in> set (px_active p). i < px_next p)"
  using assms
proof (induction rule: rtranclp_induct)
  case (step p p')
  from step.hyps(2) step.IH show ?case
    by cases (auto simp: length_remove1 dest!: set_mp [OF set_remove1_subset])
qed (simp add: idle_proxy_def)

subsection \<open>The view of a state\<close>

definition view :: "system \<Rightarrow> proxy" where
  "view s = \<lparr>px_waiting = s_queue s, px_active = map (\<lambda>i. (i, snd (s_started s ! i))) (s_forwarders s),
     px_answers = s_sent s, px_next = s_next s\<rparr>"

lemma view_fields:
  "s_queue s' = s_queue s \<Longrightarrow> s_forwarders s' = s_forwarders s \<Longrightarrow> s_started s' = s_started s \<Longrightarrow> s_sent s' = s_sent s \<Longrightarrow>
   s_next s' = s_next s \<Longrightarrow> view s' = view s"
  by (simp add: view_def)

text \<open>The connections of the pool are distinct and have numbers that were given.\<close>

definition numbered :: "system \<Rightarrow> bool" where
  "numbered s \<longleftrightarrow> length (s_started s) = s_next s \<and> distinct (s_forwarders s) \<and> (\<forall>i \<in> set (s_forwarders s). i < s_next s)"

lemma numbered_fields:
  "s_forwarders s' = s_forwarders s \<Longrightarrow> s_started s' = s_started s \<Longrightarrow> s_next s' = s_next s \<Longrightarrow> numbered s' = numbered s"
  by (simp add: numbered_def)

lemma sys_numbered: "sys_ok s \<Longrightarrow> numbered s"
  by (auto simp: numbered_def sys_ok_def hist_ok_def pool_ok_def distinct_map dest: arg_cong [of _ _ length])

lemma remove1_pair: "remove1 (i, f i) (map (\<lambda>i. (i, f i)) is) = map (\<lambda>i. (i, f i)) (remove1 i is)"
  by (induction "is") auto

lemma destroy_fields:
  assumes "destroy this s = Some s'"
  shows "view s' = view s \<and> numbered s' = numbered s \<and> s_forwarders s' = s_forwarders s"
proof -
  from assms obtain c where c: "s_heap s this = Some c" by (auto simp: destroy_def bind_eq_Some_conv)
  obtain c' w p where "fc_close c (s_world s) = (c', w, p)" using prod_cases3 by blast
  with assms c have "s' = s\<lparr>s_heap := (s_heap s)(this := None), s_world := w\<rparr>" by (simp add: destroy_def split: if_splits)
  then show ?thesis by (simp add: view_def numbered_def)
qed

lemma store_fields: "view (store this c w s) = view s" "numbered (store this c w s) = numbered s" "s_forwarders (store this c w s) = s_forwarders s"
    "s_queue (store this c w s) = s_queue s"
  by (simp_all add: store_def view_def numbered_def)

subsection \<open>Every operation is a sequence of steps\<close>

lemma sends_refine:
  "sendRequest env q s = Some s' \<Longrightarrow> numbered s \<Longrightarrow> length (s_forwarders s) < m \<Longrightarrow>
     proxy_steps m (view (s\<lparr>s_queue := q # s_queue s\<rparr>)) (view s')"
  "dequeue env s1 = Some s' \<Longrightarrow> numbered s1 \<Longrightarrow> length (s_forwarders s1) < m \<Longrightarrow> proxy_steps m (view s1) (view s')"
proof (induction env q s and env s1 arbitrary: s' and s' rule: sendRequest_dequeue.induct)
  case (1 env q s)
  let ?me = "s_next s"
  from 1(2) obtain c w where new: "new_ForwarderConnection env ?me (s_world s) = Some (c, w)"
    by (auto simp: sendRequest.simps bind_eq_Some_conv Let_def)
  let ?s = "s\<lparr>s_next := Suc ?me, s_started := s_started s @ [(?me, q)]\<rparr>"
  let ?up = "?s\<lparr>s_forwarders := s_forwarders s @ [?me]\<rparr>"
  have n: "\<forall>i \<in> set (s_forwarders s). i < length (s_started s)" "length (s_started s) = ?me" using 1(3) by (simp_all add: numbered_def)
  then have act: "map (\<lambda>i. (i, snd ((s_started s @ [(?me, q)]) ! i))) (s_forwarders s) = map (\<lambda>i. (i, snd (s_started s ! i))) (s_forwarders s)"
    by (simp add: nth_append)
  have me: "(s_started s @ [(?me, q)]) ! ?me = (?me, q)" using n(2) nth_append_length by metis
  have up: "proxy_step m (view (s\<lparr>s_queue := q # s_queue s\<rparr>)) (view ?up)"
    using proxy_step.take_up [of "view (s\<lparr>s_queue := q # s_queue s\<rparr>)" q "s_queue s" m] 1(4)
    by (simp add: view_def act me)
  obtain ok c' w' where snd: "fc_send ?me (q_request q) c w = (ok, c', w')" using prod_cases3 by blast
  show ?case
  proof (cases ok)
    case True
    then have "view s' = view ?up"
      using 1(2) new snd by (auto simp: sendRequest.simps Let_def view_def store_def)
    with up show ?thesis by simp
  next
    case False
    then obtain s2 where s2: "dequeue env (store ?me c' w' ?s) = Some s2" "destroy ?me s2 = Some s'"
      using 1(2) new snd by (auto simp: sendRequest.simps Let_def bind_eq_Some_conv)
    have "numbered ?s" using 1(3) by (auto simp: numbered_def)
    then have "proxy_steps m (view (store ?me c' w' ?s)) (view s2)"
      using 1(1) [OF refl new refl refl refl snd [symmetric] refl False s2(1)] 1(4)
      by (simp add: store_fields)
    moreover have "(?me, q) \<notin> set (map (\<lambda>i. (i, snd (s_started s ! i))) (s_forwarders s))" using n by auto
    then have "proxy_step m (view ?up) (view ?s)"
      using proxy_step.leave [of "(?me, q)" "view ?up" m] by (simp add: view_def act me remove1_append)
    ultimately show ?thesis using up destroy_fields [OF s2(2)] by (simp add: store_fields)
  qed
next
  case (2 env s)
  show ?case
  proof (cases "s_queue s")
    case Nil
    with 2(2) show ?thesis by (simp add: dequeue.simps)
  next
    case (Cons q rest)
    with 2(2) have "sendRequest env q (s\<lparr>s_queue := rest\<rparr>) = Some s'" by (simp add: dequeue.simps)
    from 2(1) [OF Cons this] 2(3,4) Cons show ?thesis by (simp add: numbered_def view_def)
  qed
qed

lemma handleShutdown_refines:
  assumes "handleShutdown env this s = Some s'" and "numbered s" "this \<in> set (s_forwarders s)" "length (s_forwarders s) \<le> m"
  shows "proxy_steps m (view s) (view s')"
proof -
  let ?s = "s\<lparr>s_forwarders := remove1 this (s_forwarders s)\<rparr>"
  from assms(1,3) obtain s1 where 1: "destroy this ?s = Some s1" "dequeue env s1 = Some s'"
    by (auto simp: handleShutdown_def bind_eq_Some_conv)
  have "proxy_step m (view s) (view ?s)"
    using proxy_step.leave [of "(this, snd (s_started s ! this))" "view s" m] assms(3)
    by (simp add: view_def remove1_pair [where f = "\<lambda>i. snd (s_started s ! i)"])
  moreover have "numbered ?s" using assms(2) by (auto simp: numbered_def dest: notin_set_remove1)
  moreover have "length (s_forwarders ?s) < m" using assms(3,4) length_pos_if_in_set [OF assms(3)] by (simp add: length_remove1 del: length_greater_0_conv)
  ultimately show ?thesis
    using sends_refine(2) [OF 1(2)] destroy_fields [OF 1(1)] by (auto intro: converse_rtranclp_into_rtranclp)
qed

lemma finish_refines:
  assumes "finish env this (c, w, p) s = Some s'" and "numbered s" "this \<in> set (s_forwarders s)" "length (s_forwarders s) \<le> m"
  shows "proxy_steps m (view s) (view s')"
  using assms handleShutdown_refines [of env this "store this c w s" s' m]
  by (cases p) (auto simp: finish_def store_fields)

lemma on_incoming_refines:
  assumes "on_incoming env this b s = Some s'" and ok: "sys_ok s" and i: "this \<in> set (s_forwarders s)"
    and fresh: "this \<notin> fst ` set (s_sent s)" and m: "length (s_forwarders s) \<le> m"
  shows "proxy_steps m (view s) (view s')"
proof -
  from assms(1) obtain c r s1 c1 res where 1: "s_heap s this = Some c" "c_incoming c = Some r"
    "handleIncoming env this r b s = Some s1" and 2: "finish env this res s1 = Some s'"
    by (auto simp: on_incoming_def bind_eq_Some_conv)
  have n: "numbered s" using sys_numbered [OF ok] .
  then have lt: "this < length (s_started s)" using i by (simp add: numbered_def)
  have "map fst (s_started s) = [0..<s_next s]" using ok by (simp add: sys_ok_def hist_ok_def)
  then have "fst (s_started s ! this) = this" using lt n by (metis numbered_def nth_map nth_upt add_0)
  then have q: "(this, snd (s_started s ! this)) \<in> set (s_started s)" using lt by (metis nth_mem prod.collapse)
  then have r: "r = q_reply (snd (s_started s ! this))" using ok 1(1,2) by (fastforce simp: sys_ok_def hist_ok_def)
  have s1: "proxy_steps m (view s) (view s1) \<and> numbered s1 \<and> s_forwarders s1 = s_forwarders s"
  proof -
    from handleIncoming_ok [OF 1(3)] consider "s1 = s"
      | w payload where "s1 = s\<lparr>s_world := w, s_sent := s_sent s @ [(this, response_to r payload)]\<rparr>" by blast
    then show ?thesis
    proof cases
      case 2
      have "(this, snd (s_started s ! this)) \<in> set (px_active (view s))" "this \<notin> fst ` set (px_answers (view s))"
        using i fresh by (simp_all add: view_def)
      from proxy_step.answer [OF this, of m payload] have "proxy_step m (view s) (view s1)" by (simp add: 2 view_def r)
      then show ?thesis using n by (simp add: 2 numbered_def r_into_rtranclp)
    qed (use n in simp)
  qed
  obtain c' w' p where res: "res = (c', w', p)" using prod_cases3 by blast
  from finish_refines [OF 2 [unfolded res]] s1 i m show ?thesis by (auto intro: rtranclp_trans)
qed

lemma conn_callback_refines:
  assumes e: "conn_callback env i cb s = Some s'" and ok: "sys_ok s" "sent_ok s" and i: "i \<in> set (s_forwarders s)"
    and c: "s_heap s i = Some c" "conn_ok i h c (s_world s)" and reg: "handler (system_loop s) t h = Some (cb, tm)"
    and m: "length (s_forwarders s) \<le> m"
  shows "proxy_steps m (view s) (view s')"
proof -
  have h: "conn_handle c = h" using conn_ok_handle [OF c(2)] by simp
  from fc_run_ok [OF c(2), of t cb tm env] reg obtain c' w' p where
    run: "fc_run env i cb c (s_world s) = Some (c', w', p)" and mo: "method_ok i (conn_handle c) c (s_world s) (c', w', p)"
    unfolding h system_loop_def by (metis prod_cases3)
  show ?thesis
  proof (cases "\<exists>b. p = Call_incoming b")
    case True
    then obtain b where p: "p = Call_incoming b" by blast
    from fc_run_incoming [OF run [unfolded p]] obtain j where j: "cb = Cb_incoming j" "c' = c" by blast
    have op: "c_state c = OPEN"
      using handler_read_cb [OF c(2), of t cb tm] reg j by (cases "c_state c") (auto simp: system_loop_def)
    have "\<not> SHUTTING_DOWN \<le> c_state c" using op by simp
    then have fresh: "i \<notin> fst ` set (s_sent s)" using ok(2) c(1) unfolding sent_ok_def by fastforce
    have lv: "conn_ok i (conn_handle c) c' w'" "w_open w' = w_open (s_world s)"
      "footprint (conn_handle c) (s_world s) w'" "kept c c'"
      using mo p by (auto simp: method_ok_def conn_closed_def split: if_splits)
    note st = store_live [OF ok(1) i c(1) refl lv]
    have "on_incoming env i b (store i c' w' s) = Some s'" using e c(1) run p by (simp add: conn_callback_def)
    from on_incoming_refines [OF this st(1)] i fresh m show ?thesis by (simp add: store_fields) (simp add: store_def)
  next
    case False
    then have "finish env i (c', w', p) s = Some s'" using e c(1) run by (cases p) (simp_all add: conn_callback_def)
    from finish_refines [OF this sys_numbered [OF ok(1)] i m] show ?thesis .
  qed
qed

lemma handleDnsRequest_refines:
  assumes "handleDnsRequest env h s = Some s'" and ok: "sys_ok s" and m: "s_max s = m"
  shows "proxy_steps m (view s) (view s')"
proof -
  have r: "proxy_steps m (view s) (view s')" if "handleRequest env q (s\<lparr>s_world := w\<rparr>) = Some s'" for q w
  proof -
    have a: "proxy_step m (view s) ((view s)\<lparr>px_waiting := s_queue s @ [q]\<rparr>)"
      using proxy_step.arrive [of m "view s" q] by (simp add: view_def)
    show ?thesis
    proof (cases "length (s_forwarders s) < m")
      case True
      then have "s_queue s = []" using ok m by (auto simp: sys_ok_def)
      moreover have "numbered (s\<lparr>s_world := w, s_arrived := s_arrived s @ [q]\<rparr>)" using sys_numbered [OF ok] by (simp add: numbered_def)
      ultimately have "proxy_steps m ((view s)\<lparr>px_waiting := s_queue s @ [q]\<rparr>) (view s')"
        using sends_refine(1) [of env q "s\<lparr>s_world := w, s_arrived := s_arrived s @ [q]\<rparr>" s' m] that True m
        by (simp add: handleRequest_def view_def)
      with a show ?thesis by (rule converse_rtranclp_into_rtranclp)
    next
      case False
      with that m have "view s' = (view s)\<lparr>px_waiting := s_queue s @ [q]\<rparr>" by (auto simp: handleRequest_def view_def)
      with a show ?thesis by simp
    qed
  qed
  obtain mg w where c: "call (e_recvmsg env) (s_world s) = (mg, w)" by fastforce
  show ?thesis
    using assms(1) r view_fields [of "s\<lparr>s_world := w\<rparr>" s]
    by (auto simp: handleDnsRequest_def c Let_def split: option.split_asm if_split_asm prod.split_asm)
qed

lemma exec_refines:
  assumes inv: "inv env s" and reg: "handler (system_loop s) t h = Some (cb, tm)" and e: "exec env cb h s = Some s'" and m: "s_max s = m"
  shows "proxy_steps m (view s) (view s')"
proof -
  have ok: "sys_ok s" "sent_ok s" using inv by (simp_all add: inv_def)
  show ?thesis
  proof (rule handler_owner [OF ok(1) reg])
    assume "cb = (if h \<in> set (watch_handles s) then Cb_config else Cb_server)"
    moreover have "view s' = view s" if "handleConfigRead env s = Some s'"
      using that by (intro view_fields) (auto simp: handleConfigRead_def bind_eq_Some_conv call_def)
    ultimately show ?thesis
      using e handleDnsRequest_refines [OF _ ok(1) m] by (cases "h \<in> set (watch_handles s)") auto
  next
    fix i c assume o: "i \<in> set (s_forwarders s)" "s_heap s i = Some c" "conn_ok i h c (s_world s)"
      "t = Read \<and> cb = read_cb (c_state c) i \<and> tm = c_timeout c
       \<or> t = Write \<and> cb = write_cb (c_state c) i \<and> tm = c_timeout c \<or> t = Exception \<and> cb = Cb_exception i"
    have "length (s_forwarders s) \<le> m" using ok(1) m by (simp add: sys_ok_def)
    from conn_callback_refines [OF _ ok o(1-3) reg this] e show ?thesis unfolding cb_of_state [OF o(4), of env h s] by blast
  qed
qed

subsection \<open>Turns\<close>

interpretation refined: callbacks_within system_loop "exec env" "inv env"
  "\<lambda>s s'. inv env s' \<and> step_ok env s s' \<and> proxy_steps (s_max s) (view s) (view s')" for env
proof unfold_locales
  fix s t h cb tm s'
  assume "inv env s" "handler (system_loop s) t h = Some (cb, tm)" "exec env cb h s = Some s'"
  then show "inv env s' \<and> step_ok env s s' \<and> proxy_steps (s_max s) (view s) (view s')" using turn.within exec_refines by blast
next
  fix s s' s''
  assume a: "inv env s' \<and> step_ok env s s' \<and> proxy_steps (s_max s) (view s) (view s')"
    and b: "inv env s'' \<and> step_ok env s' s'' \<and> proxy_steps (s_max s') (view s') (view s'')"
  then have "s_max s' = s_max s" by (simp add: step_ok_def)
  with a b show "inv env s'' \<and> step_ok env s s'' \<and> proxy_steps (s_max s) (view s) (view s'')"
    using step_ok_trans by (metis rtranclp_trans)
qed (auto simp: inv_def step_ok_refl)

lemma reachable_refines:
  assumes "reachable env s0 fds tmo s" and i: "inv env s0"
  shows "inv env s \<and> step_ok env s0 s \<and> proxy_steps (s_max s0) (view s0) (view s)"
  using assms(1)
proof (induction rule: reachable.induct)
  case (enter now fds tmo s)
  then show ?case using refined.run_enter_within [OF i] by blast
next
  case (iterate fds tmo s revents now fds' tmo' s')
  then have "inv env s' \<and> step_ok env s s' \<and> proxy_steps (s_max s) (view s) (view s')" using refined.run_body_within by blast
  with iterate.IH show ?case by (rule refined.R_trans)
qed

lemma listen_all_view: "listen_all env as s = (b, s') \<Longrightarrow> view s' = view s"
proof (induction as arbitrary: s b)
  case (Cons a as)
  obtain b1 s1 where 1: "addServer env a s = (b1, s1)" by fastforce
  then have "view s1 = view s" by (auto simp: addServer_def Let_def view_def split: option.split_asm prod.split_asm)
  moreover obtain b2 s2 where "listen_all env as s1 = (b2, s2)" by fastforce
  ultimately show ?case using Cons 1 by simp
qed simp

lemma started_view:
  assumes "started env fs t m servers s"
  shows "view s = idle_proxy"
proof -
  obtain b s1 where l: "listen_all env servers (new_dote fs t m) = (b, s1)" by fastforce
  with assms have s: "s = watch_configuration env s1" by (auto simp: started_def listen_def split: if_splits)
  have "view s = view s1" by (simp add: s watch_configuration_def view_def split: prod.split)
  also have "\<dots> = idle_proxy" using listen_all_view [OF l] by (simp add: new_dote_def new_system_def view_def idle_proxy_def)
  finally show ?thesis .
qed

text \<open>
  Property C1 (refinement). The program is a FIFO proxy: what is visible of its states, the waiting queries, the active ones, the answers,
  is from the start on, and over every turn of the loop, a run of the abstract machine, in which queries are taken up in
  their order while fewer than \<open>m\<close> are active and each is answered at most once, while it is active, to its own client.
\<close>

theorem program_refines_proxy:
  assumes "env_ok env" and "started env fs t m servers s0" and "reachable env s0 fds tmo s"
    and "run_body system_loop (exec env) now revents fds s = Some (fds', tmo', s')"
  shows "proxy_steps m idle_proxy (view s) \<and> proxy_steps m (view s) (view s')"
proof -
  have i: "inv env s0" "s_max s0 = m" using started_inv [OF assms(1,2)] by simp_all
  note r = reachable_refines [OF assms(3) i(1)]
  then have "proxy_steps (s_max s) (view s) (view s')" "s_max s = m"
    using refined.run_body_within assms(4) i(2) by (blast, simp add: step_ok_def)
  with r i(2) started_view [OF assms(2)] show ?thesis by simp
qed

theorem program_refines_proxy_witness:
  "proxy_steps 1 idle_proxy \<lparr>px_waiting = [busy_query], px_active = [(0, busy_query)], px_answers = [], px_next = 1\<rparr>"
proof -
  obtain fds tmo where r: "reachable busy_env sample_started fds tmo busy_two" using reachable_two by blast
  have q: "overdue 0 m_readFunctions (system_loop busy_two) = {}" "overdue 0 m_writeFunctions (system_loop busy_two) = {}"
    by (simp_all add: loop_samples quiet_samples)
  obtain t where "run_body system_loop (exec busy_env) 0 [] fds busy_two = Some (populateFds (system_loop busy_two) [], t, busy_two)"
    by (simp add: run_body_def timeout_def timeout_map_quiet q)
  from program_refines_proxy [OF env_ok_busy started_sample r this] show ?thesis
    by (simp add: view_def busy_two_def busy_one_def sample_started_def)
qed

end
