(* ===== verification/Turn.thy ===== *)
theory Turn
  imports Sample_Run
begin

text \<open>
  A whole turn of the loop returns: the clock and the calls only move forward (\<open>later\<close>), a connection that is
  told its time has come is gone, and the connections that take its place have their time still ahead.
\<close>

subsection \<open>Calls and clock\<close>

definition later :: "world \<Rightarrow> world \<Rightarrow> bool" where
  "later w w' \<longleftrightarrow> w_tick w \<le> w_tick w' \<and> m_timeout (w_config w') = m_timeout (w_config w)"

lemma later_refl [simp]: "later w w"
  by (simp add: later_def)

lemma later_trans [trans]: "later w w' \<Longrightarrow> later w' w'' \<Longrightarrow> later w w''"
  by (auto simp: later_def)

lemma setBad_timeout: "m_timeout (setBad f c) = m_timeout c"
  by (simp add: setBad_def)

lemma later_call: "call f w = (r, w') \<Longrightarrow> later w w'"
  by (auto simp: call_def later_def)

lemma later_socket: "socket_close s w = (s', w') \<Longrightarrow> later w w'"
  by (auto simp: socket_close_def close_handle_def later_def split: if_splits)

lemma later_regs:
  "reset_read c w = (c', w') \<Longrightarrow> later w w' \<and> c_timeout c' = c_timeout c"
  "reset_write c w = (c', w') \<Longrightarrow> later w w' \<and> c_timeout c' = c_timeout c"
  "reset_exception c w = (c', w') \<Longrightarrow> later w w' \<and> c_timeout c' = c_timeout c"
  "assign_read h cb c w = (c', w') \<Longrightarrow> later w w' \<and> c_timeout c' = c_timeout c"
  "assign_write h cb c w = (c', w') \<Longrightarrow> later w w' \<and> c_timeout c' = c_timeout c"
  "assign_exception h cb c w = (c', w') \<Longrightarrow> later w w' \<and> c_timeout c' = c_timeout c"
  by (auto simp: reset_read_def reset_write_def reset_exception_def assign_read_def assign_write_def assign_exception_def later_def
      split: prod.splits)

lemma later_awaits:
  "await_read cb c w = Some (c', w') \<Longrightarrow> later w w' \<and> c_timeout c' = c_timeout c"
  "await_write cb c w = Some (c', w') \<Longrightarrow> later w w' \<and> c_timeout c' = c_timeout c"
  by (auto simp: await_read_def await_write_def bind_eq_Some_conv later_def dest!: later_regs split: if_split_asm prod.split_asm)

lemma later_setBad: "later w (config_setBad c w)"
  by (auto simp: config_setBad_def later_def setBad_timeout split: option.splits)

lemma later_fc_close: "fc_close c w = (c', w', p) \<Longrightarrow> later w w' \<and> c_timeout c' = c_timeout c"
  by (auto simp: fc_close_def later_def dest!: later_regs later_socket split: option.split_asm prod.split_asm)

lemma later_ssl:
  "doFunction env ssl f w = (r, w') \<Longrightarrow> later w w'"
  by (auto simp: doFunction_def call_def later_def Let_def split: if_splits)

lemma later_ssl_calls:
  "ssl_connect env ssl w = (r, w') \<Longrightarrow> later w w'" "ssl_shutdown env ssl w = (r, w') \<Longrightarrow> later w w'"
  "ssl_write env ssl b w = (r, w') \<Longrightarrow> later w w'" "ssl_read env ssl w = (r, b, w') \<Longrightarrow> later w w'"
  "ssl_create env w = (so, w') \<Longrightarrow> later w w'"
  by (auto simp: ssl_connect_def ssl_shutdown_def ssl_write_def ssl_read_def ssl_create_def new_SslConnection_def cacheSession_def
      call_def later_def Let_def dest!: later_ssl split: prod.split_asm if_split_asm)

lemma later_open_up:
  assumes "open_up this c w = Some (c', w', p)"
  shows "later w w' \<and> c_timeout c' = c_timeout c"
proof -
  obtain c1 w1 where 1: "reset_read c w = (c1, w1)" by fastforce
  obtain c2 w2 where 2: "reset_write c1 w1 = (c2, w2)" by fastforce
  from assms obtain s where s: "c_socket c2 = Some s" by (auto simp: open_up_def 1 2 bind_eq_Some_conv)
  obtain c3 w3 where 3: "assign_read (m_handle s) (Cb_incoming this) c2 w2 = (c3, w3)" by fastforce
  obtain c4 w4 where 4: "assign_write (m_handle s) (Cb_outgoing this) c3 w3 = (c4, w4)" by fastforce
  from later_regs(1) [OF 1] later_regs(2) [OF 2] later_regs(4) [OF 3] later_regs(5) [OF 4]
  show ?thesis using assms by (auto simp: open_up_def 1 2 3 4 s later_def split: if_split_asm)
qed

lemma later_fc_connect:
  assumes "fc_connect env this c w = Some (c', w', p)"
  shows "later w w' \<and> c_timeout c' = c_timeout c"
proof -
  from assms obtain ssl where ssl: "c_connection c = Some ssl" by (auto simp: fc_connect_def bind_eq_Some_conv)
  obtain r w1 where r: "ssl_connect env ssl w = (r, w1)" by fastforce
  note w1 = later_ssl_calls(1) [OF r]
  have "later w1 w' \<and> c_timeout c' = c_timeout c"
    using assms later_awaits later_open_up later_fc_close [of c w1 c' w' p] later_fc_close [of c "config_setBad c w1" c' w' p]
      later_setBad [of w1 c]
    by (cases r) (auto simp: fc_connect_def ssl r bind_eq_Some_conv intro: later_trans)
  with w1 show ?thesis by (blast intro: later_trans)
qed

lemma later_fc_exception: "fc_exception c w = Some (c', w', p) \<Longrightarrow> later w w' \<and> c_timeout c' = c_timeout c"
  using later_setBad [of w c] by (auto simp: fc_exception_def dest!: later_fc_close split: if_splits intro: later_trans)

lemma later_fc_incoming:
  assumes "fc_incoming env c w = Some (c', w', p)"
  shows "later w w' \<and> c_timeout c' = c_timeout c"
proof -
  from assms obtain ssl where ssl: "c_connection c = Some ssl" by (auto simp: fc_incoming_def bind_eq_Some_conv)
  obtain r b w1 where r: "ssl_read env ssl w = (r, b, w1)" using prod_cases3 by blast
  note w1 = later_ssl_calls(4) [OF r]
  have "later w1 w' \<and> c_timeout c' = c_timeout c"
    using assms later_fc_close [of c w1 c' w' p] later_fc_close [of c "config_setBad c w1" c' w' p] later_setBad [of w1 c]
    by (cases r) (auto simp: fc_incoming_def ssl r intro: later_trans)
  with w1 show ?thesis by (blast intro: later_trans)
qed

lemma later_fc_outgoing:
  assumes "fc_outgoing env c w = Some (c', w', p)"
  shows "later w w' \<and> c_timeout c' = c_timeout c"
proof -
  from assms obtain ssl where ssl: "c_connection c = Some ssl" by (auto simp: fc_outgoing_def bind_eq_Some_conv)
  obtain r w1 where r: "ssl_write env ssl (c_buffer c) w = (r, w1)" by fastforce
  note w1 = later_ssl_calls(3) [OF r]
  have "later w1 w' \<and> c_timeout c' = c_timeout c"
    using assms later_fc_close [of c w1 c' w' p] later_fc_close [of c "config_setBad c w1" c' w' p] later_setBad [of w1 c]
    by (cases r) (auto simp: fc_outgoing_def ssl r dest!: later_regs(2) split: prod.split_asm intro: later_trans)
  with w1 show ?thesis by (blast intro: later_trans)
qed

lemma later_fc_do_shutdown:
  assumes "fc_do_shutdown env this c w = Some (c', w', p)"
  shows "later w w' \<and> c_timeout c' = c_timeout c"
proof -
  from assms obtain ssl where ssl: "c_connection c = Some ssl" by (auto simp: fc_do_shutdown_def Let_def bind_eq_Some_conv)
  obtain r w1 where r: "ssl_shutdown env ssl w = (r, w1)" by fastforce
  note w1 = later_ssl_calls(2) [OF r]
  let ?c = "c\<lparr>c_state := SHUTTING_DOWN\<rparr>"
  have "later w1 w' \<and> c_timeout c' = c_timeout ?c"
    using assms later_awaits [of _ ?c w1] later_fc_close [of ?c w1 c' w' p]
    by (cases r) (auto simp: fc_do_shutdown_def Let_def ssl r bind_eq_Some_conv)
  with w1 show ?thesis by (auto intro: later_trans)
qed

lemma later_fc_shutdown:
  assumes "fc_shutdown env this c w = Some (c', w', p)"
  shows "later w w' \<and> c_timeout c' = c_timeout c"
proof -
  obtain c1 w1 where 1: "reset_read c w = (c1, w1)" by fastforce
  obtain c2 w2 where 2: "reset_write c1 w1 = (c2, w2)" by fastforce
  from later_regs(1) [OF 1] later_regs(2) [OF 2] show ?thesis
    using assms later_fc_do_shutdown [of env this c2 w2]
    by (auto simp: fc_shutdown_def 1 2 bind_eq_Some_conv split: if_splits intro: later_trans)
qed

lemma later_fc_run: "fc_run env this cb c w = Some (c', w', p) \<Longrightarrow> later w w' \<and> c_timeout c' = c_timeout c"
  by (cases cb) (simp_all add: later_fc_connect later_fc_incoming later_fc_outgoing later_fc_do_shutdown later_fc_exception)

lemma later_fc_send: "fc_send this b c w = (ok, c', w') \<Longrightarrow> later w w' \<and> c_timeout c' = c_timeout c"
  by (auto simp: fc_send_def Let_def dest!: later_regs split: option.split_asm if_split_asm prod.split_asm)

lemma later_Socket_connect:
  assumes "Socket_connect env a ty w = (so, w')"
  shows "later w w'"
  using assms
  by (auto simp: Socket_connect_def new_socket_def socket_of_handle_def socket_connect_def call_def Let_def later_def
      socket_close_def close_handle_def split: if_split_asm prod.split_asm)

lemma new_connection_time:
  assumes "new_ForwarderConnection env this w = Some (c, w')"
  shows "later w w' \<and> (\<exists>n \<in> {w_tick w..<w_tick w'}. c_timeout c = e_time env n + m_timeout (w_config w))"
proof -
  obtain now w1 where 1: "call (e_time env) w = (now, w1)" by fastforce
  have now: "now = e_time env (w_tick w)" "later w w1" "w_tick w1 = Suc (w_tick w)" using 1 later_call [OF 1] by (auto simp: call_def)
  obtain co w2 where 2: "ssl_create env w1 = (co, w2)" by fastforce
  note w2 = later_ssl_calls(5) [OF 2] later_trans [OF now(2) later_ssl_calls(5) [OF 2]]
  then have to: "m_timeout (w_config w2) = m_timeout (w_config w)" by (simp add: later_def)
  have "later w2 w' \<and> c_timeout c = now + m_timeout (w_config w)"
  proof (cases "co = None \<or> get_forwarder (w_config w2) = None")
    case True
    then show ?thesis using assms to by (cases co) (auto simp: new_ForwarderConnection_def 1 2 Let_def split: option.split_asm)
  next
    case False
    then obtain ssl f where f: "co = Some ssl" "get_forwarder (w_config w2) = Some f" by auto
    obtain so w3 where 3: "Socket_connect env (remote f) TCP w2 = (so, w3)" by fastforce
    note w3 = later_Socket_connect [OF 3]
    show ?thesis
      using assms to w3
      by (auto simp: new_ForwarderConnection_def 1 2 3 f Let_def bind_eq_Some_conv dest!: later_fc_connect later_regs(6)
          split: option.split_asm prod.split_asm intro: later_trans later_setBad)
  qed
  moreover from this have "w_tick w < w_tick w'" using w2(1) now(3) by (auto simp: later_def)
  ultimately show ?thesis using w2(2) now(1) by (auto intro: later_trans)
qed

subsection \<open>The system\<close>

text \<open>The objects that a step leaves are among those there were, with their times, or are new and have a time that a later
  call of the clock gave them.\<close>

definition times_from :: "env \<Rightarrow> system \<Rightarrow> system \<Rightarrow> bool" where
  "times_from env s s' \<longleftrightarrow> later (s_world s) (s_world s') \<and> s_next s \<le> s_next s'
     \<and> (\<forall>j d. s_heap s' j = Some d \<longrightarrow> (\<exists>d0. s_heap s j = Some d0 \<and> c_timeout d = c_timeout d0)
          \<or> s_next s \<le> j \<and> (\<exists>n \<in> {w_tick (s_world s)..<w_tick (s_world s')}. c_timeout d = e_time env n + m_timeout (w_config (s_world s))))"

lemma times_from_refl [simp]: "times_from env s s"
  by (simp add: times_from_def)

lemma times_from_trans:
  assumes 1: "times_from env s s'" and 2: "times_from env s' s''"
  shows "times_from env s s''"
proof -
  have m: "m_timeout (w_config (s_world s')) = m_timeout (w_config (s_world s))" "w_tick (s_world s) \<le> w_tick (s_world s')"
    "w_tick (s_world s') \<le> w_tick (s_world s'')" "s_next s \<le> s_next s'" using 1 2 by (simp_all add: times_from_def later_def)
  let ?made = "\<lambda>j d a b. s_next s \<le> j \<and> (\<exists>n \<in> {w_tick (s_world a)..<w_tick (s_world b)}. c_timeout d = e_time env n + m_timeout (w_config (s_world s)))"
  have "(\<exists>d0. s_heap s j = Some d0 \<and> c_timeout d = c_timeout d0) \<or> ?made j d s s''" if d: "s_heap s'' j = Some d" for j d
  proof (cases "\<exists>d1. s_heap s' j = Some d1 \<and> c_timeout d = c_timeout d1")
    case True
    then have "(\<exists>d0. s_heap s j = Some d0 \<and> c_timeout d = c_timeout d0) \<or> ?made j d s s'"
      using 1 by (fastforce simp: times_from_def)
    with m(3) show ?thesis by auto
  next
    case False
    then have "s_next s' \<le> j" "?made j d s' s''" using 2 d m(1,4) unfolding times_from_def by (metis, metis order_trans)
    with m(2) show ?thesis by auto
  qed
  moreover have "later (s_world s) (s_world s'')" using 1 2 by (auto simp: times_from_def intro: later_trans)
  moreover have "s_next s \<le> s_next s''" using 1 2 by (auto simp: times_from_def)
  ultimately show ?thesis by (simp add: times_from_def)
qed

lemma times_from_fields:
  "s_heap s' = s_heap s \<Longrightarrow> s_next s' = s_next s \<Longrightarrow> later (s_world s) (s_world s') \<Longrightarrow> times_from env s s'"
  by (simp add: times_from_def)

lemma times_store:
  assumes "s_heap s this = Some c" and "later (s_world s) w" and "c_timeout c' = c_timeout c"
  shows "times_from env s (store this c' w s)"
  using assms by (auto simp: times_from_def store_def)

lemma times_destroy:
  assumes "destroy this s = Some s'"
  shows "times_from env s s'"
proof -
  from assms obtain c where c: "s_heap s this = Some c" by (auto simp: destroy_def bind_eq_Some_conv)
  obtain c' w p where cl: "fc_close c (s_world s) = (c', w, p)" using prod_cases3 by blast
  with assms c have "s' = s\<lparr>s_heap := (s_heap s)(this := None), s_world := w\<rparr>"
    by (simp add: destroy_def split: if_splits)
  with later_fc_close [OF cl] show ?thesis by (simp add: times_from_def)
qed

lemma times_sends:
  "sendRequest env q s = Some s' \<Longrightarrow> times_from env s s'"
  "dequeue env s1 = Some s' \<Longrightarrow> times_from env s1 s'"
proof (induction env q s and env s1 arbitrary: s' and s' rule: sendRequest_dequeue.induct)
  case (1 env q s)
  let ?me = "s_next s"
  from 1(2) obtain c w where new: "new_ForwarderConnection env ?me (s_world s) = Some (c, w)"
    by (auto simp: sendRequest.simps bind_eq_Some_conv Let_def)
  note n = new_connection_time [OF new]
  let ?s = "s\<lparr>s_next := Suc ?me, s_started := s_started s @ [(?me, q)]\<rparr>"
  obtain ok c' w' where snd: "fc_send ?me (q_request q) c w = (ok, c', w')" using prod_cases3 by blast
  note sn = later_fc_send [OF snd]
  have st: "times_from env s (store ?me (c'\<lparr>c_incoming := x, c_shutdown := y\<rparr>) w' ?s)" for x y
  proof -
    obtain k where "k \<in> {w_tick (s_world s)..<w_tick w}" "c_timeout c = e_time env k + m_timeout (w_config (s_world s))" using n by blast
    moreover have "w_tick w \<le> w_tick w'" using sn by (simp add: later_def)
    ultimately have "\<exists>k \<in> {w_tick (s_world s)..<w_tick w'}. c_timeout c' = e_time env k + m_timeout (w_config (s_world s))"
      using sn by (auto intro!: bexI [of _ k])
    moreover have "later (s_world s) w'" using n sn by (blast intro: later_trans)
    ultimately show ?thesis by (simp add: times_from_def store_def)
  qed
  have st': "times_from env s (store ?me c' w' ?s)"
    using st [where x = "c_incoming c'" and y = "c_shutdown c'"] by simp
  show ?case
  proof (cases ok)
    case True
    then have "s' = (store ?me (c'\<lparr>c_incoming := Some (q_reply q), c_shutdown := True\<rparr>) w' ?s)\<lparr>s_forwarders := s_forwarders s @ [?me]\<rparr>"
      using 1(2) new snd by (simp add: sendRequest.simps Let_def)
    with st show ?thesis by (simp add: times_from_def)
  next
    case False
    then obtain s2 where s2: "dequeue env (store ?me c' w' ?s) = Some s2" "destroy ?me s2 = Some s'"
      using 1(2) new snd by (auto simp: sendRequest.simps Let_def bind_eq_Some_conv)
    have "times_from env (store ?me c' w' ?s) s2"
      using 1(1) [OF refl new refl refl refl snd [symmetric] refl False s2(1)] .
    with st' times_destroy [OF s2(2)] show ?thesis by (blast intro: times_from_trans)
  qed
next
  case (2 env s)
  then show ?case
    by (cases "s_queue s") (auto simp: dequeue.simps times_from_def)
qed

lemma times_handleRequest: "handleRequest env q s = Some s' \<Longrightarrow> times_from env s s'"
  using times_sends(1) [of env q "s\<lparr>s_arrived := s_arrived s @ [q]\<rparr>" s']
  by (auto simp: handleRequest_def times_from_def Let_def split: if_splits)

lemma times_handleShutdown:
  assumes "handleShutdown env this s = Some s'"
  shows "times_from env s s'"
proof -
  from assms obtain s1 where
    1: "(if this \<in> set (s_forwarders s) then destroy this (s\<lparr>s_forwarders := remove1 this (s_forwarders s)\<rparr>) else Some s) = Some s1"
    and 2: "dequeue env s1 = Some s'"
    by (auto simp: handleShutdown_def bind_eq_Some_conv)
  have "times_from env s s1"
    using 1 times_destroy [of this "s\<lparr>s_forwarders := remove1 this (s_forwarders s)\<rparr>" s1 env]
    by (auto simp: times_from_def split: if_splits)
  with times_sends(2) [OF 2] show ?thesis by (blast intro: times_from_trans)
qed

lemma times_finish:
  assumes "finish env this (c', w, p) s = Some s'" and "s_heap s this = Some c"
    and "later (s_world s) w \<and> c_timeout c' = c_timeout c"
  shows "times_from env s s'"
  using assms times_store [where this = this and s = s and w = w and c = c and c' = c' and env = env] times_handleShutdown [of env this "store this c' w s" s']
  by (cases p) (auto simp: finish_def intro: times_from_trans)

lemma times_on_incoming:
  assumes "on_incoming env this b s = Some s'"
  shows "times_from env s s'"
proof -
  from assms obtain r s1 c1 res where 1: "handleIncoming env this r b s = Some s1" "s_heap s1 this = Some c1"
    and 2: "fc_shutdown env this c1 (s_world s1) = Some res" "finish env this res s1 = Some s'"
    by (auto simp: on_incoming_def bind_eq_Some_conv)
  obtain c' w p where res: "res = (c', w, p)" using prod_cases3 by blast
  have "times_from env s s1"
    using 1(1) by (auto simp: handleIncoming_def bind_eq_Some_conv times_from_def later_def call_def Let_def split: if_splits prod.splits)
  moreover have "times_from env s1 s'"
    using times_finish 2(2) 1(2) later_fc_shutdown 2(1) unfolding res by blast
  ultimately show ?thesis by (rule times_from_trans)
qed

lemma times_conn_callback:
  assumes "conn_callback env this cb s = Some s'"
  shows "times_from env s s'"
proof -
  from assms obtain c c' w p where 1: "s_heap s this = Some c" "fc_run env this cb c (s_world s) = Some (c', w, p)"
    and 2: "(case p of Call_incoming buffer \<Rightarrow> on_incoming env this buffer (store this c' w s) | _ \<Rightarrow> finish env this (c', w, p) s) = Some s'"
    by (auto simp: conn_callback_def bind_eq_Some_conv)
  note l = later_fc_run [OF 1(2)]
  show ?thesis
  proof (cases p)
    case (Call_incoming b)
    with 2 times_on_incoming have "times_from env (store this c' w s) s'" by auto
    moreover have "times_from env s (store this c' w s)" using times_store [OF 1(1)] l by blast
    ultimately show ?thesis by (blast intro: times_from_trans)
  qed (use 2 times_finish [OF _ 1(1) l] in auto)
qed

lemma times_exec: "exec env cb h s = Some s' \<Longrightarrow> times_from env s s'"
proof (cases cb)
  case Cb_server
  assume "exec env cb h s = Some s'"
  with Cb_server have e: "handleDnsRequest env h s = Some s'" by simp
  obtain m w where c: "call (e_recvmsg env) (s_world s) = (m, w)" by fastforce
  have "times_from env s (s\<lparr>s_world := w\<rparr>)" using later_call [OF c] by (simp add: times_from_def)
  moreover have "s' = s \<or> times_from env (s\<lparr>s_world := w\<rparr>) s'"
    using e times_handleRequest
    by (auto simp: handleDnsRequest_def c Let_def split: option.split_asm if_split_asm prod.split_asm)
  ultimately show ?thesis by (auto intro: times_from_trans)
next
  case Cb_config
  assume "exec env cb h s = Some s'"
  with Cb_config show ?thesis
    by (auto simp: handleConfigRead_def bind_eq_Some_conv call_def times_from_def later_def reload_all_eq split: if_splits)
qed (simp_all add: times_conn_callback)


subsection \<open>Whose time has come\<close>

text \<open>The maps the time-outs are scanned in, with the registration a connection has in each.\<close>

definition scanned :: "RegType \<Rightarrow> (callback Loop \<Rightarrow> (int, callback \<times> int) std_map) \<Rightarrow> bool" where
  "scanned t sel \<longleftrightarrow> t = Read \<and> sel = m_readFunctions \<or> t = Write \<and> sel = m_writeFunctions"

definition reg_of :: "RegType \<Rightarrow> ForwarderConnection \<Rightarrow> Registration" where
  "reg_of t c = (if t = Read then c_read c else c_write c)"

lemma sys_loop_ok: "sys_ok s \<Longrightarrow> loop_ok (system_loop s)"
  by (simp add: sys_ok_def pool_ok_def handlers_open_def system_loop_def)

lemma overdue_handler:
  assumes "loop_ok l" and "scanned t sel"
  shows "h \<in> overdue now sel l \<longleftrightarrow>
    (\<exists>cb tm. handler l t h = Some (cb, tm) \<and> tm \<noteq> 0 \<and> tm \<le> now) \<and> handler l Exception h \<noteq> None"
  using assms by (auto simp: overdue_def scanned_def loop_ok_def sorted_map_entry handler.simps)

lemma conn_slots:
  assumes "conn_ok i h c w" and "scanned t sel"
  shows "handler (w_loop w) t h = Some (cb, tm) \<Longrightarrow> reg_valid (reg_of t c) \<and> tm = c_timeout c"
    and "reg_valid (reg_of t c) \<Longrightarrow> \<exists>cb. handler (w_loop w) t h = Some (cb, c_timeout c)"
    and "handler (w_loop w) Exception h \<noteq> None"
  using assms by (auto simp: scanned_def reg_of_def conn_ok_def conn_core_def slot_def split: if_splits)

lemma overdue_iff:
  assumes ok: "sys_ok s" and sc: "scanned t sel"
  shows "h \<in> overdue now sel (system_loop s) \<longleftrightarrow>
    (\<exists>i c. s_heap s i = Some c \<and> conn_ok i h c (s_world s) \<and> reg_valid (reg_of t c) \<and> c_timeout c \<noteq> 0 \<and> c_timeout c \<le> now)"
    (is "?o \<longleftrightarrow> ?c")
proof
  assume ?o
  with overdue_handler [OF sys_loop_ok [OF ok] sc] obtain cb tm cbx tx where
    1: "handler (system_loop s) t h = Some (cb, tm)" "tm \<noteq> 0" "tm \<le> now"
    and x: "handler (system_loop s) Exception h = Some (cbx, tx)" by fastforce
  have "t \<noteq> Exception" "t \<noteq> Moved" using sc by (auto simp: scanned_def)
  show ?c
  proof (rule handler_owner [OF ok x])
    fix i c assume o: "s_heap s i = Some c" "conn_ok i h c (s_world s)"
    from conn_slots(1) [OF o(2) sc 1(1) [unfolded system_loop_def]] o 1(2,3) show ?c by blast
  qed simp
next
  assume ?c
  then obtain i c where c: "conn_ok i h c (s_world s)" "reg_valid (reg_of t c)" "c_timeout c \<noteq> 0" "c_timeout c \<le> now" by blast
  from conn_slots(2) [OF c(1) sc c(2)] conn_slots(3) [OF c(1) sc] c(3,4) show ?o
    unfolding overdue_handler [OF sys_loop_ok [OF ok] sc] by (auto simp: system_loop_def)
qed

text \<open>The clock is such that a connection made from now on has its time ahead.\<close>

definition clock_ok :: "env \<Rightarrow> int \<Rightarrow> system \<Rightarrow> bool" where
  "clock_ok env now s \<longleftrightarrow> (\<forall>n \<ge> w_tick (s_world s). now < e_time env n + m_timeout (w_config (s_world s)))"

lemma clock_later: "clock_ok env now s \<Longrightarrow> times_from env s s' \<Longrightarrow> clock_ok env now s'"
  by (simp add: clock_ok_def times_from_def later_def)

lemma exception_closes:
  assumes env: "env_ok env" and ok: "sys_ok s" and i: "i \<in> set (s_forwarders s)" and c: "s_heap s i = Some c"
    "conn_ok i h c (s_world s)" and x: "handler (system_loop s) Exception h = Some (cb, tm)"
  shows "\<exists>s'. exec env (Cb_exception i) h s = Some s' \<and> sys_ok s' \<and> s_heap s' i = None
    \<and> (\<forall>j d. j < s_next s \<longrightarrow> s_heap s' j = Some d \<longrightarrow> s_heap s j = Some d)"
proof -
  have cb: "cb = Cb_exception i" using handler_read_cb [OF c(2)] x by (auto simp: system_loop_def)
  have h: "conn_handle c = h" using conn_ok_handle [OF c(2)] by simp
  from fc_run_ok [OF c(2) x [unfolded system_loop_def cb], of env] obtain r where
    r: "fc_exception c (s_world s) = Some r" "method_ok i (conn_handle c) c (s_world s) r" by (auto simp: h)
  obtain c' w' p where p: "r = (c', w', p)" using prod_cases3 by blast
  have so: "c_socket c \<noteq> None" using c(2) by (auto simp: conn_ok_def conn_core_def)
  have cl: "c_state c' = CLOSED"
    using r(1) p fc_close_state [OF so] by (auto simp: fc_exception_def) (metis fst_conv)+
  have n: "\<nexists>b. p = Call_incoming b" using r(1) p fc_close_not_incoming by (auto simp: fc_exception_def)
  from finish_ok [OF env ok i c(1) r(2) [unfolded p] n] obtain s' where
    s': "finish env i (c', w', p) s = Some s'" "sys_ok s'" "only_changed i c' s s'" by blast
  have e: "exec env (Cb_exception i) h s = Some s'"
    using c(1) r(1) p n s'(1) by (cases p) (simp_all add: conn_callback_def)
  have pool: "pool_ok (s_forwarders s) s" using ok by (simp add: sys_ok_def)
  have lt: "i < s_next s" by (rule pool_lt [OF pool i])
  have gone: "s_heap s' i = None"
  proof (rule ccontr)
    assume a: "s_heap s' i \<noteq> None"
    then have "s_heap s' i = Some c'" using s'(3) lt by (auto simp: only_changed_def)
    moreover have "i \<in> set (s_forwarders s')" using s'(2) a by (simp add: sys_ok_def)
    ultimately have "conn_ok i (conn_handle c') c' (s_world s')" using s'(2) by (auto simp: sys_ok_def pool_ok_def live_def)
    with cl show False by (simp add: conn_ok_def conn_core_def)
  qed
  have "s_heap s j = Some d" if "j < s_next s" "s_heap s' j = Some d" for j d
    using s'(3) gone that by (cases "j = i") (auto simp: only_changed_def)
  with e s'(2) gone show ?thesis by blast
qed

text \<open>Telling a connection that its time has come takes its handle out of what is overdue and adds nothing to it.\<close>

lemma exception_clears:
  assumes i: "inv env s" and ck: "clock_ok env now s" and x: "handler (system_loop s) Exception h = Some (cb, tm)"
  shows "\<exists>s'. exec env cb h s = Some s' \<and> inv env s' \<and> clock_ok env now s'
    \<and> (\<forall>t sel. scanned t sel \<longrightarrow> overdue now sel (system_loop s') \<subseteq> overdue now sel (system_loop s) - {h})"
proof -
  have env: "env_ok env" and ok: "sys_ok s" using i by (simp_all add: inv_def)
  have pool: "pool_ok (s_forwarders s) s" using ok by (simp add: sys_ok_def)
  obtain i c where o: "i \<in> set (s_forwarders s)" "s_heap s i = Some c" "conn_ok i h c (s_world s)" "cb = Cb_exception i"
    by (rule handler_owner [OF ok x]) auto
  from exception_closes [OF env ok o(1-3) x] o(4) obtain s' where
    s': "exec env cb h s = Some s'" "sys_ok s'" "s_heap s' i = None"
      "\<And>j d. j < s_next s \<Longrightarrow> s_heap s' j = Some d \<Longrightarrow> s_heap s j = Some d" by blast
  note tf = times_exec [OF s'(1)]
  have "inv env s'" using turn.within [OF i x s'(1)] by blast
  moreover have "overdue now sel (system_loop s') \<subseteq> overdue now sel (system_loop s) - {h}" if sc: "scanned t sel" for t sel
  proof
    fix k assume "k \<in> overdue now sel (system_loop s')"
    then obtain j d where j: "s_heap s' j = Some d" "conn_ok j k d (s_world s')" "reg_valid (reg_of t d)"
      "c_timeout d \<noteq> 0" "c_timeout d \<le> now" by (auto simp: overdue_iff [OF s'(2) sc])
    have lt: "j < s_next s"
    proof (rule ccontr)
      assume "\<not> j < s_next s"
      then have "s_heap s j = None" using sys_fresh [OF ok] by (simp add: heap_fresh_def)
      then have "\<exists>n \<ge> w_tick (s_world s). c_timeout d = e_time env n + m_timeout (w_config (s_world s))"
        using tf j(1) by (fastforce simp: times_from_def)
      then have "now < c_timeout d" using ck by (auto simp: clock_ok_def)
      with j(5) show False by simp
    qed
    note old = s'(4) [OF lt j(1)]
    then have f: "j \<in> set (s_forwarders s)" using ok by (auto simp: sys_ok_def)
    have k: "conn_handle d = k" using conn_ok_handle [OF j(2)] by simp
    then have co: "conn_ok j k d (s_world s)" using pool f old by (auto simp: pool_ok_def live_def)
    have "j \<noteq> i" using j(1) s'(3) by auto
    moreover have "handle_of s i = h" "handle_of s j = k" using o(2,3) old k by (auto simp: handle_of_def dest: conn_ok_handle)
    moreover have "inj_on (handle_of s) (set (s_forwarders s))" using pool by (simp add: pool_ok_def distinct_map)
    ultimately have "k \<noteq> h" using f o(1) by (auto dest: inj_onD)
    with co old j(3-5) show "k \<in> overdue now sel (system_loop s) - {h}" by (auto simp: overdue_iff [OF ok sc])
  qed
  ultimately show ?thesis using s'(1) clock_later [OF ck tf] by blast
qed

subsection \<open>A turn\<close>

lemma map_scan_clears:
  assumes "inv env s" and "clock_ok env now s" and "scanned t sel"
  shows "\<exists>e s'. timeout_map system_loop (exec env) sel now s = Some (e, s') \<and> inv env s' \<and> clock_ok env now s'
    \<and> overdue now sel (system_loop s') = {}
    \<and> (\<forall>t' sel'. scanned t' sel' \<longrightarrow> overdue now sel' (system_loop s) = {} \<longrightarrow> overdue now sel' (system_loop s') = {})"
proof -
  let ?I = "\<lambda>s1. inv env s1 \<and> clock_ok env now s1
    \<and> (\<forall>t' sel'. scanned t' sel' \<longrightarrow> overdue now sel' (system_loop s) = {} \<longrightarrow> overdue now sel' (system_loop s1) = {})"
  have "\<exists>e s'. timeout_map system_loop (exec env) sel now s = Some (e, s') \<and> ?I s' \<and> overdue now sel (system_loop s') = {}"
  proof (rule timeout_map_clears)
    fix s1 assume a: "?I s1"
    then have "loop_ok (system_loop s1)" using sys_loop_ok by (simp add: inv_def)
    then show "sorted_map (sel (system_loop s1))" using assms(3) by (auto simp: loop_ok_def scanned_def)
  next
    fix s1 h xcb
    assume a: "?I s1" and x: "map_of (m_exceptFunctions (system_loop s1)) h = Some xcb"
    have "handler (system_loop s1) Exception h = Some (xcb, 0)" using x by (simp add: handler.simps)
    from exception_clears [OF conjunct1 [OF a] conjunct1 [OF conjunct2 [OF a]] this] obtain s2 where
      "exec env xcb h s1 = Some s2" "inv env s2" "clock_ok env now s2"
      "\<forall>t sel. scanned t sel \<longrightarrow> overdue now sel (system_loop s2) \<subseteq> overdue now sel (system_loop s1) - {h}" by blast
    with a assms(3) show "\<exists>s2. exec env xcb h s1 = Some s2 \<and> ?I s2
      \<and> overdue now sel (system_loop s2) \<subseteq> overdue now sel (system_loop s1) - {h}" by blast
  qed (use assms in simp)
  then show ?thesis by blast
qed

lemma timeout_clears:
  assumes "inv env s" and "clock_ok env now s"
  shows "\<exists>tmo s'. timeout system_loop (exec env) now s = Some (tmo, s') \<and> inv env s'
    \<and> overdue now m_readFunctions (system_loop s') = {} \<and> overdue now m_writeFunctions (system_loop s') = {}"
proof -
  have sc: "scanned Read m_readFunctions" "scanned Write m_writeFunctions" by (simp_all add: scanned_def)
  from map_scan_clears [OF assms sc(1)] obtain e1 s1 where
    1: "timeout_map system_loop (exec env) m_readFunctions now s = Some (e1, s1)" "inv env s1" "clock_ok env now s1"
      "overdue now m_readFunctions (system_loop s1) = {}" by blast
  from map_scan_clears [OF 1(2,3) sc(2)] obtain e2 s2 where
    2: "timeout_map system_loop (exec env) m_writeFunctions now s1 = Some (e2, s2)" "inv env s2"
      "overdue now m_writeFunctions (system_loop s2) = {}" "overdue now m_readFunctions (system_loop s2) = {}"
    using 1(4) sc(1) by blast
  then show ?thesis using 1(1) by (simp add: timeout_def)
qed

text \<open>A connection waits for something, so one whose time has come shows in one of the two maps.\<close>

lemma none_overdue:
  assumes "sys_ok s" and "overdue now m_readFunctions (system_loop s) = {}" "overdue now m_writeFunctions (system_loop s) = {}"
    and c: "s_heap s i = Some c"
  shows "c_timeout c = 0 \<or> now < c_timeout c"
proof (rule ccontr)
  assume n: "\<not> ?thesis"
  have "i \<in> set (s_forwarders s)" using assms(1) c by (auto simp: sys_ok_def)
  then have ok: "conn_ok i (conn_handle c) c (s_world s)" using assms(1) c by (auto simp: sys_ok_def pool_ok_def live_def)
  then have "reg_valid (reg_of Read c) \<or> reg_valid (reg_of Write c)" by (auto simp: conn_ok_def reg_of_def)
  then obtain t sel where "scanned t sel" "reg_valid (reg_of t c)" "overdue now sel (system_loop s) = {}"
    using assms(2,3) unfolding scanned_def by blast
  moreover have "c_timeout c \<noteq> 0" "c_timeout c \<le> now" using n by auto
  ultimately show False using overdue_iff [OF assms(1), of t sel "conn_handle c" now] ok c by blast
qed

lemma started_timeout:
  assumes env: "env_ok env" and "started env fs t m servers s"
  shows "m_timeout (w_config (s_world s)) = t"
proof -
  obtain b s1 where l: "listen_all env servers (new_dote fs t m) = (b, s1)" by fastforce
  with assms(2) have s: "s = watch_configuration env s1" by (auto simp: started_def listen_def split: if_splits)
  have t: "m_timeout (w_config (s_world (new_dote fs t m))) = t"
    by (simp add: new_dote_def new_system_def setTimeout_def setForwarders_eq)
  note a = listen_all_ok [OF env _ _ _ l]
  have 1: "sys_ok s1" "sent_ok s1" "s_watch s1 = None" "m_timeout (w_config (s_world s1)) = t"
    using a new_dote_ok [of fs t m] new_dote_fields [of fs t m] t by (simp_all add: same_config_def)
  show ?thesis using watch_configuration_ok [OF env 1(1-3)] 1(4) by (simp add: s same_config_def)
qed

text \<open>
  Property C9 (termination). A turn of the loop returns, as long as every valid answer a forwarder may send is one on which
  \<open>removeEdnsPadding\<close> stays inside its vector (\<open>answers_clean\<close>): then, whatever state the started program polls in and
  whatever events \<open>poll\<close> answers, all callbacks return, and when the clock they then read is not a whole
  time-out behind the time of the scan, the time-out scans return too, although every time-out they raise sends them
  back to the beginning of a map that the handlers have changed; afterwards no connection is left whose time has come.
\<close>

theorem turn_returns:
  assumes "env_ok env" and "answers_clean env" and "started env fs t m servers s0"
    and "reachable env s0 fds tmo s"
  shows "\<exists>s1. dispatch system_loop (exec env) (map2 (\<lambda>fd r. fd\<lparr>p_revents := r\<rparr>) fds revents) s = Some s1
    \<and> ((\<forall>n \<ge> w_tick (s_world s1). now < e_time env n + t) \<longrightarrow>
       (\<exists>fds' tmo' s'. run_body system_loop (exec env) now revents fds s = Some (fds', tmo', s')
          \<and> (\<forall>i c. s_heap s' i = Some c \<longrightarrow> c_timeout c = 0 \<or> now < c_timeout c)))"
proof -
  let ?fds = "map2 (\<lambda>fd r. fd\<lparr>p_revents := r\<rparr>) fds revents"
  have "inv env s0" using started_inv [OF assms(1,3)] by blast
  note s = reachable_step_ok [OF assms(4) this]
  then have "inv_clean env s" using assms(2) by (simp add: inv_clean_def)
  then obtain s1 where s1: "dispatch system_loop (exec env) ?fds s = Some s1" using clean.dispatch_defined by blast
  with turn.dispatch_within s have i: "inv env s1" "step_ok env s s1" by blast+
  have t: "m_timeout (w_config (s_world s1)) = t"
    using s i(2) started_timeout [OF assms(1,3)] by (simp add: step_ok_def config_step_def)
  show ?thesis
  proof (intro exI [of _ s1] conjI impI s1)
    assume "\<forall>n \<ge> w_tick (s_world s1). now < e_time env n + t"
    then have "clock_ok env now s1" by (simp add: clock_ok_def t)
    from timeout_clears [OF i(1) this] obtain tmo' s' where
      to: "timeout system_loop (exec env) now s1 = Some (tmo', s')" "inv env s'"
        "overdue now m_readFunctions (system_loop s') = {}" "overdue now m_writeFunctions (system_loop s') = {}" by blast
    have "sys_ok s'" using to(2) by (simp add: inv_def)
    with none_overdue to(3,4) have "\<forall>i c. s_heap s' i = Some c \<longrightarrow> c_timeout c = 0 \<or> now < c_timeout c" by blast
    then show "\<exists>fds' tmo' s'. run_body system_loop (exec env) now revents fds s = Some (fds', tmo', s')
        \<and> (\<forall>i c. s_heap s' i = Some c \<longrightarrow> c_timeout c = 0 \<or> now < c_timeout c)"
      using s1 to(1) by (auto simp: run_body_def Let_def)
  qed
qed


text \<open>The clock jumps past the time-out of the first connection, and the query that waits gets the second one; from then on it
  advances with every call.\<close>

definition late_env :: env where
  "late_env = busy_env\<lparr>e_time := \<lambda>n. if n < 18 then 1000 else 2000 + int n\<rparr>"

lemma env_ok_late: "env_ok late_env"
  using env_ok_busy by (simp add: env_ok_def late_env_def)

lemma clean_late: "answers_clean late_env"
  by (simp add: answers_clean_def read_buffer_def late_env_def busy_env_def calm_env_def valid_def getHeader_def)

lemma late_turns: "handleDnsRequest late_env 3 sample_started = Some busy_one" "handleDnsRequest late_env 3 busy_one = Some busy_two"
  by (simp_all add: run_defs late_env_def busy_env_def calm_env_def sample_started_def sample_server_entry_def busy_one_def
      busy_two_def busy_query_def getDestinationAddress_def sample_config_def forwarder_at_def inet_addr_def
      busy_loop_def busy_conn_def frame_request_def SSL_ERROR_WANT_READ_def SSL_ERROR_WANT_WRITE_def
      configureVerifier_def ssl_setSocket_def)

lemma started_late: "started late_env [forwarder_at 1, forwarder_at 2] 5 1 sample_servers sample_started"
  using started_calm [where d = "e_ssl_read calm_env"] by (simp add: late_env_def busy_env_def)

theorem turn_returns_witness:
  "\<exists>fds' tmo' s'. run_body system_loop (exec late_env) 1005 [0, 0]
      [\<lparr>p_fd = 3, p_events = 1, p_revents = 1\<rparr>, \<lparr>p_fd = 4, p_events = 4, p_revents = 0\<rparr>] busy_two = Some (fds', tmo', s')
    \<and> {h. h \<in> overdue 1005 m_writeFunctions (system_loop busy_two)} = {4}
    \<and> {c \<in> ran (s_heap s'). c_timeout c \<noteq> 0 \<and> c_timeout c \<le> 1005} = {}"
proof -
  let ?fds = "[\<lparr>p_fd = 3, p_events = 1, p_revents = 1\<rparr>, \<lparr>p_fd = 4, p_events = 4, p_revents = 0\<rparr>]"
  obtain tmo where r: "reachable late_env sample_started ?fds tmo busy_two" using reachable_queued [OF late_turns] ..
  have d: "dispatch system_loop (exec late_env) (map2 (\<lambda>fd r. fd\<lparr>p_revents := r\<rparr>) ?fds [0, 0]) busy_two = Some busy_two"
    by (simp add: dispatch_nothing)
  have "\<forall>n \<ge> w_tick (s_world busy_two). 1005 < e_time late_env n + 5"
    by (auto simp: late_env_def busy_two_def)
  with turn_returns [OF env_ok_late clean_late started_late r, of "[0, 0]" 1005] d
  obtain fds' tmo' s' where "run_body system_loop (exec late_env) 1005 [0, 0] ?fds busy_two = Some (fds', tmo', s')"
    and left: "\<forall>i c. s_heap s' i = Some c \<longrightarrow> c_timeout c = 0 \<or> 1005 < c_timeout c"
    unfolding d option.inject by blast
  moreover have "overdue 1005 m_writeFunctions (system_loop busy_two) = {4}"
    by (auto simp: overdue_def loop_samples busy_loop_def)
  moreover have "{c \<in> ran (s_heap s'). c_timeout c \<noteq> 0 \<and> c_timeout c \<le> 1005} = {}"
    using left by (fastforce simp: ran_def)
  ultimately show ?thesis by simp
qed

end
