(* ===== verification/Progress.thy ===== *)
theory Progress
  imports Turn
begin

text \<open>
  No query waits for ever.  The clock is divided into rounds: a round begins in a state and ends with the first turn
  whose scan is past the deadlines of all connections of that state.  However the turns in between go, a round ends all
  connections it began with, and then either no query waits or as many new connections were made as the pool
  holds.
\<close>

subsection \<open>Rounds\<close>

definition all_due :: "int \<Rightarrow> system \<Rightarrow> bool" where
  "all_due now s \<longleftrightarrow> (\<forall>i c. s_heap s i = Some c \<longrightarrow> c_timeout c \<noteq> 0 \<and> c_timeout c \<le> now)"

inductive rounds :: "env \<Rightarrow> nat \<Rightarrow> system \<Rightarrow> system \<Rightarrow> bool" for env where
  none: "rounds env 0 s s"
| more: "rounds env n s s1 \<Longrightarrow> runs_on env s1 s2 \<Longrightarrow> clock_ok env now s2 \<Longrightarrow> all_due now s1 \<Longrightarrow>
    run_body system_loop (exec env) now revents fds s2 = Some (fds', tmo, s') \<Longrightarrow> rounds env (Suc n) s s'"

subsection \<open>What turns do to the connections\<close>

interpretation aging: callbacks_within system_loop "exec env" "inv env"
  "\<lambda>s s'. inv env s' \<and> step_ok env s s' \<and> times_from env s s'" for env
proof unfold_locales
  fix s t h cb tm s'
  assume "inv env s" "handler (system_loop s) t h = Some (cb, tm)" "exec env cb h s = Some s'"
  then show "inv env s' \<and> step_ok env s s' \<and> times_from env s s'" using turn.within times_exec by blast
qed (auto simp: inv_def step_ok_refl intro: step_ok_trans times_from_trans)

lemma runs_on_ages:
  assumes "runs_on env s0 s" and "inv env s0"
  shows "inv env s \<and> step_ok env s0 s \<and> times_from env s0 s"
  using assms(1)
proof (induction rule: runs_on.induct)
  case here
  then show ?case using aging.R_refl [OF assms(2)] .
next
  case (turn s now revents fds fds' tmo s')
  then have "inv env s' \<and> step_ok env s s' \<and> times_from env s s'" using aging.run_body_within by blast
  with turn.IH show ?case using step_ok_trans times_from_trans by blast
qed

text \<open>After a turn that returns nothing is left whose time had come.\<close>

lemma turn_clears:
  assumes i: "inv env s" and ck: "clock_ok env now s"
    and b: "run_body system_loop (exec env) now revents fds s = Some (fds', tmo, s')"
    and c: "s_heap s' i = Some c"
  shows "c_timeout c = 0 \<or> now < c_timeout c"
proof -
  from b obtain s1 where
    1: "dispatch system_loop (exec env) (map2 (\<lambda>fd r. fd\<lparr>p_revents := r\<rparr>) fds revents) s = Some s1"
       "timeout system_loop (exec env) now s1 = Some (tmo, s')"
    by (auto simp: run_body_def Let_def bind_eq_Some_conv)
  have d: "inv env s1" "times_from env s s1" using aging.dispatch_within [OF i 1(1)] by blast+
  from timeout_clears [OF d(1) clock_later [OF ck d(2)]] 1(2) have
    "sys_ok s'" "overdue now m_readFunctions (system_loop s') = {}" "overdue now m_writeFunctions (system_loop s') = {}"
    by (auto simp: inv_def)
  from none_overdue [OF this c] show ?thesis .
qed

lemma round_ends_connections:
  assumes i: "inv env s" and r: "runs_on env s s1" and ck: "clock_ok env now s1" and due: "all_due now s"
    and b: "run_body system_loop (exec env) now revents fds s1 = Some (fds', tmo, s')"
  shows "inv env s' \<and> step_ok env s s' \<and> (\<forall>j c. s_heap s' j = Some c \<longrightarrow> s_next s \<le> j)"
proof -
  have 1: "inv env s1" using runs_on_ages [OF r i] by blast
  note 2 = runs_on_ages [OF runs_on.turn [OF r b] i]
  have "s_next s \<le> j" if c: "s_heap s' j = Some c" for j c
  proof (rule ccontr)
    assume "\<not> s_next s \<le> j"
    with 2 c obtain c0 where "s_heap s j = Some c0" "c_timeout c = c_timeout c0" by (auto simp: times_from_def)
    with due have "c_timeout c \<noteq> 0" "c_timeout c \<le> now" by (auto simp: all_due_def)
    with turn_clears [OF 1 ck b c] show False by simp
  qed
  with 2 show ?thesis by blast
qed

lemma started_numbers: "sys_ok s \<Longrightarrow> length (s_started s) = s_next s"
  unfolding sys_ok_def hist_ok_def by (metis diff_zero length_map length_upt)

text \<open>If queries still wait, the pool is full of connections that were made in the round.\<close>

lemma round_starts_queries:
  assumes ok: "sys_ok s'" and new: "\<forall>j c. s_heap s' j = Some c \<longrightarrow> n0 \<le> j" and q: "s_queue s' \<noteq> []" and n0: "n0 \<le> s_next s'"
  shows "n0 + s_max s' \<le> s_next s'"
proof -
  have f: "set (s_forwarders s') \<subseteq> {n0..<s_next s'}"
  proof
    fix j assume j: "j \<in> set (s_forwarders s')"
    with ok have "s_heap s' j \<noteq> None" "j < s_next s'" by (simp_all add: sys_ok_def pool_ok_def)
    with new show "j \<in> {n0..<s_next s'}" by auto
  qed
  have "distinct (s_forwarders s')" using ok by (simp add: sys_ok_def pool_ok_def distinct_map)
  then have "length (s_forwarders s') = card (set (s_forwarders s'))" by (simp add: distinct_card)
  also have "\<dots> \<le> card {n0..<s_next s'}" by (rule card_mono [OF _ f]) simp
  finally show ?thesis using ok q n0 by (simp add: sys_ok_def)
qed

text \<open>Every round starts as many queries as the pool holds, or all of them.\<close>

lemma arrived_numbers: "sys_ok s \<Longrightarrow> length (s_arrived s) = s_next s + length (s_queue s)"
  using started_numbers [of s] by (auto simp: sys_ok_def hist_ok_def dest!: arg_cong [of _ _ length])

lemma rounds_start_queries:
  assumes "rounds env n s s'" and "inv env s"
  shows "inv env s' \<and> step_ok env s s' \<and> min (length (s_arrived s)) (s_next s + n * s_max s) \<le> s_next s'"
  using assms
proof (induction rule: rounds.induct)
  case (none s)
  then show ?case by (simp add: inv_def step_ok_refl)
next
  case (more n s s1 s2 now revents fds fds' tmo s')
  then have 1: "inv env s1" "step_ok env s s1" "min (length (s_arrived s)) (s_next s + n * s_max s) \<le> s_next s1" by blast+
  from round_ends_connections [OF 1(1) more(2-5)] have
    2: "inv env s'" "step_ok env s1 s'" "\<forall>j c. s_heap s' j = Some c \<longrightarrow> s_next s1 \<le> j" by blast+
  note 3 = step_ok_trans [OF 1(2) 2(2)]
  have ok: "sys_ok s'" using 2(1) by (simp add: inv_def)
  have m: "s_max s' = s_max s" "s_next s1 \<le> s_next s'" "length (s_arrived s) \<le> length (s_arrived s')"
    using 2(2) 3 by (auto simp: step_ok_def)
  have "min (length (s_arrived s)) (s_next s + Suc n * s_max s) \<le> s_next s'"
  proof (cases "s_queue s' = []")
    case True
    then show ?thesis using arrived_numbers [OF ok] m(3) by simp
  next
    case False
    from round_starts_queries [OF ok 2(3) this m(2)] 1(3) m(1) show ?thesis by (simp add: min_def split: if_splits)
  qed
  with 2(1) 3 show ?case by blast
qed

text \<open>
  Property C10 (liveness). No query is forgotten as long as the loop goes on turning: when the clock has run past the deadlines of
  all connections of the moment often enough for the pool to take every waiting query, and once more, each query that
  had arrived has had its connection, in the order of arrival, and this connection is gone, answered or given up.
\<close>

theorem no_query_starves:
  assumes "env_ok env" and "started env fs t m servers s0" and "reachable env s0 fds tmo s"
    and "rounds env (Suc n) s s'" and "length (s_queue s) \<le> n * m"
  shows "take (length (s_arrived s)) (s_started s') = enumerate 0 (s_arrived s)
    \<and> (\<forall>i < length (s_arrived s). s_heap s' i = None \<and> i \<notin> set (s_forwarders s'))"
proof -
  have i: "inv env s" and mx: "s_max s = m"
    using reachable_step_ok [OF assms(3)] started_inv [OF assms(1,2)] by (auto simp: step_ok_def)
  from assms(4) obtain s1 s2 now revents f f' to where r: "rounds env n s s1" "runs_on env s1 s2" "clock_ok env now s2" "all_due now s1"
    "run_body system_loop (exec env) now revents f s2 = Some (f', to, s')" by (cases rule: rounds.cases) auto
  from rounds_start_queries [OF r(1) i] have
    1: "inv env s1" "step_ok env s s1" "min (length (s_arrived s)) (s_next s + n * m) \<le> s_next s1" by (simp_all add: mx)
  from round_ends_connections [OF 1(1) r(2-5)] have
    2: "inv env s'" "step_ok env s1 s'" "\<forall>j c. s_heap s' j = Some c \<longrightarrow> s_next s1 \<le> j" by blast+
  have ok: "sys_ok s" "sys_ok s'" using i 2(1) by (simp_all add: inv_def)
  have le: "length (s_arrived s) \<le> s_next s1" using 1(3) arrived_numbers [OF ok(1)] assms(5) by simp
  have "\<exists>xs. s_arrived s' = s_arrived s @ xs" using step_ok_trans [OF 1(2) 2(2)] by (simp add: step_ok_def)
  moreover have "s_started s' = zip [0..<s_next s'] (map snd (s_started s'))"
    using ok(2) unfolding sys_ok_def hist_ok_def by (metis zip_map_fst_snd)
  moreover have "map snd (s_started s') = take (s_next s') (s_arrived s')"
    using ok(2) started_numbers [OF ok(2)] unfolding sys_ok_def hist_ok_def by (metis append_eq_conv_conj length_map)
  moreover have "length (s_arrived s) \<le> s_next s'" using le 2(2) by (simp add: step_ok_def)
  ultimately have "take (length (s_arrived s)) (s_started s') = enumerate 0 (s_arrived s)"
    by (auto simp: enumerate_eq_zip take_zip min_def)
  moreover have "s_heap s' i = None \<and> i \<notin> set (s_forwarders s')" if "i < length (s_arrived s)" for i
  proof -
    have "s_heap s' i = None" using 2(3) le that by (meson not_None_eq leD order_less_le_trans)
    moreover have "s_heap s' i \<noteq> None \<longleftrightarrow> i \<in> set (s_forwarders s')" using ok(2) unfolding sys_ok_def by blast
    ultimately show ?thesis by blast
  qed
  ultimately show ?thesis by blast
qed

subsection \<open>Rounds exist\<close>

text \<open>A clock that advances from one call to the next, from some call on.\<close>

definition ticking :: "env \<Rightarrow> nat \<Rightarrow> bool" where
  "ticking env k \<longleftrightarrow> (\<forall>a b. a < b \<longrightarrow> k \<le> b \<longrightarrow> e_time env a < e_time env b)"

text \<open>Every deadline is a time-out after some call of the clock.\<close>

definition made_by :: "env \<Rightarrow> system \<Rightarrow> bool" where
  "made_by env s \<longleftrightarrow> (\<forall>i c. s_heap s i = Some c \<longrightarrow>
     (\<exists>n < w_tick (s_world s). c_timeout c = e_time env n + m_timeout (w_config (s_world s))))"

lemma made_by_step:
  assumes "made_by env s" and "times_from env s s'"
  shows "made_by env s'"
  unfolding made_by_def
proof (intro allI impI)
  fix j d assume j: "s_heap s' j = Some d"
  have l: "w_tick (s_world s) \<le> w_tick (s_world s')" "m_timeout (w_config (s_world s')) = m_timeout (w_config (s_world s))"
    using assms(2) by (simp_all add: times_from_def later_def)
  have "(\<exists>d0. s_heap s j = Some d0 \<and> c_timeout d = c_timeout d0)
      \<or> (\<exists>n < w_tick (s_world s'). c_timeout d = e_time env n + m_timeout (w_config (s_world s)))"
    using assms(2) j unfolding times_from_def by (meson atLeastLessThan_iff)
  then consider (old) d0 where "s_heap s j = Some d0" "c_timeout d = c_timeout d0"
    | (new) n where "n < w_tick (s_world s')" "c_timeout d = e_time env n + m_timeout (w_config (s_world s))" by blast
  then show "\<exists>n < w_tick (s_world s'). c_timeout d = e_time env n + m_timeout (w_config (s_world s'))"
  proof cases
    case old
    with assms(1) obtain n where "n < w_tick (s_world s)" "c_timeout d = e_time env n + m_timeout (w_config (s_world s))"
      by (auto simp: made_by_def)
    with l show ?thesis by (auto intro!: exI [of _ n])
  qed (use l in auto)
qed

lemma rounds_run: "rounds env n s s' \<Longrightarrow> runs_on env s s'"
  by (induction rule: rounds.induct) (blast intro: runs_on.intros runs_on_trans)+

lemma rounds_exist:
  assumes i: "inv env s" "answers_clean env" and tk: "ticking env (w_tick (s_world s))" and md: "made_by env s"
    and pos: "\<forall>a. 0 < e_time env a + m_timeout (w_config (s_world s))"
  shows "\<exists>s'. rounds env n s s'"
proof (induction n)
  case (Suc n)
  then obtain s1 where r: "rounds env n s s1" by blast
  from runs_on_ages [OF rounds_run [OF r] i(1)] have
    1: "inv env s1" "made_by env s1" "w_tick (s_world s) \<le> w_tick (s_world s1)"
      "m_timeout (w_config (s_world s1)) = m_timeout (w_config (s_world s))"
    using made_by_step md by (auto simp: times_from_def later_def)
  let ?k = "w_tick (s_world s1)" and ?t = "m_timeout (w_config (s_world s))"
  define now where "now = e_time env ?k + ?t - 1"
  have lt: "e_time env a < e_time env ?k" if "a < ?k" for a using tk that 1(3) by (simp add: ticking_def)
  have le: "e_time env ?k \<le> e_time env b" if "?k \<le> b" for b
    using tk that 1(3) by (cases "b = ?k") (auto simp: ticking_def intro: less_imp_le)
  have "c_timeout c \<noteq> 0 \<and> c_timeout c \<le> now" if c: "s_heap s1 i = Some c" for i c
  proof -
    from 1(2) c obtain a where "a < ?k" "c_timeout c = e_time env a + ?t" using 1(4) by (auto simp: made_by_def)
    with lt [of a] pos [rule_format, of a] show ?thesis by (simp add: now_def)
  qed
  then have due: "all_due now s1" by (simp add: all_due_def)
  have ck: "clock_ok env now s1" using le 1(4) by (fastforce simp: clock_ok_def now_def)
  have "inv_clean env s1" using 1(1) i(2) by (simp add: inv_clean_def)
  then obtain s2 where d: "dispatch system_loop (exec env) [] s1 = Some s2" using clean.dispatch_defined by blast
  then have 2: "inv env s2" "times_from env s1 s2" using aging.dispatch_within [OF 1(1)] by blast+
  from timeout_clears [OF 2(1) clock_later [OF ck 2(2)]] obtain tmo s3 where "timeout system_loop (exec env) now s2 = Some (tmo, s3)" by blast
  with d have "run_body system_loop (exec env) now [] [] s1 = Some (populateFds (system_loop s2) [], tmo, s3)"
    by (simp add: run_body_def)
  from rounds.more [OF r runs_on.here ck due this] show ?case by blast
qed (blast intro: rounds.none)

theorem no_query_starves_witness:
  "\<exists>s'. rounds late_env 2 busy_two s' \<and> take 2 (s_started s') = [(0, busy_query), (1, busy_query)] \<and> s_heap s' 1 = None"
proof -
  obtain fds tmo where r: "reachable late_env sample_started fds tmo busy_two" using reachable_queued [OF late_turns] by blast
  have i: "inv late_env busy_two"
    using reachable_step_ok [OF r] started_inv [OF env_ok_late started_late] by blast
  have "ticking late_env (w_tick (s_world busy_two))" by (auto simp: ticking_def late_env_def busy_two_def)
  moreover have "made_by late_env busy_two"
    by (auto simp: made_by_def late_env_def busy_two_def busy_one_def busy_conn_def sample_config_def intro!: exI [of _ "0 :: nat"])
  moreover have "\<forall>a. 0 < e_time late_env a + m_timeout (w_config (s_world busy_two))"
    by (simp add: late_env_def busy_two_def busy_one_def sample_config_def)
  ultimately obtain s' where s': "rounds late_env (Suc 1) busy_two s'" using rounds_exist [OF i clean_late] by blast
  have "s_arrived busy_two = [busy_query, busy_query]" "s_queue busy_two = [busy_query]" by (simp_all add: busy_two_def)
  with no_query_starves [OF env_ok_late started_late r s'] s' show ?thesis by (auto simp: numeral_2_eq_2)
qed

end
