(* ===== verification/Config_Parser.thy ===== *)
theory Config_Parser
  imports Addresses
begin

text \<open>
  \<open>src/src/config_parser.cpp\<close>: the configuration of the program from its options.  The address parser of
  the C library and the Base64 decoder of OpenSSL are a record of functions, the argument of everything here;
  \<open>getopt_long\<close> is left outside: its results, option characters with their argument, are the input, with
  a flag for arguments that are not options.  A C string is a list of characters without its terminator.
\<close>

record platform =
  inet_pton4 :: "string \<Rightarrow> 32 word option"
  inet_pton6 :: "string \<Rightarrow> 128 word option"
  base64_decode :: "string \<Rightarrow> bytes"

record ConfigParser =
  cp_valid :: bool
  cp_partialForwarder :: Forwarder
  cp_forwarders :: "Forwarder list"
  cp_servers :: "Server list"
  cp_ipLookup :: sockaddr_storage
  cp_ciphers :: string
  cp_maxConnections :: int
  cp_pidFile :: string
  cp_daemonise :: bool
  cp_timeout :: int

definition DEFAULT_CIPHERS :: string where "DEFAULT_CIPHERS = ''DEFAULT''"
definition DEFAULT_MAX_CONNECTIONS :: int where "DEFAULT_MAX_CONNECTIONS = 5"

text \<open>\<open>Forwarder {}\<close> with its family set to \<open>AF_UNSPEC\<close>.\<close>

definition empty_forwarder :: Forwarder where
  "empty_forwarder = \<lparr>remote = unspec_addr, disablePki = False, host = [], pin = []\<rparr>"

text \<open>The constructor leaves the address and the flag of the partial forwarder, and the look-up address but for
  its family, uninitialised: they are arguments.\<close>

definition new_ConfigParser :: "sockaddr_storage \<Rightarrow> bool \<Rightarrow> sockaddr_storage \<Rightarrow> ConfigParser" where
  "new_ConfigParser junk flag junk' =
     \<lparr>cp_valid = True, cp_partialForwarder = \<lparr>remote = junk, disablePki = flag, host = [], pin = []\<rparr>,
      cp_forwarders = [], cp_servers = [], cp_ipLookup = junk'\<lparr>ss_family := AF_UNSPEC\<rparr>, cp_ciphers = [],
      cp_maxConnections = DEFAULT_MAX_CONNECTIONS, cp_pidFile = [], cp_daemonise = False, cp_timeout = 5\<rparr>"

subsection \<open>Numbers and addresses\<close>

definition is_space :: "char \<Rightarrow> bool" where
  "is_space c \<longleftrightarrow> (of_char c :: nat) \<in> {9, 10, 11, 12, 13, 32}"

definition is_digit :: "char \<Rightarrow> bool" where
  "is_digit c \<longleftrightarrow> 48 \<le> (of_char c :: nat) \<and> (of_char c :: nat) \<le> 57"

definition digits_value :: "string \<Rightarrow> int" where
  "digits_value s = foldl (\<lambda>n c. 10 * n + (int (of_char c) - 48)) 0 s"

definition LONG_MAX :: int where "LONG_MAX = 2 ^ 63 - 1"
definition LONG_MIN :: int where "LONG_MIN = - (2 ^ 63)"

text \<open>\<open>strtol\<close> to base 10: the value and where it stops; without a digit it stops where it began.\<close>

definition strtol :: "string \<Rightarrow> int \<times> string" where
  "strtol s =
     (let t = dropWhile is_space s;
          neg = (t \<noteq> [] \<and> hd t = CHR ''-'');
          t = (if t \<noteq> [] \<and> hd t \<in> {CHR ''-'', CHR ''+''} then tl t else t);
          ds = takeWhile is_digit t
      in if ds = [] then (0, s)
         else (max LONG_MIN (min LONG_MAX (if neg then - digits_value ds else digits_value ds)), dropWhile is_digit t))"

text \<open>The family, the address and what follows it: in brackets, or up to a colon.  Without a colon the code
  looks for one at the start again, where there is none.\<close>

definition split_address :: "string \<Rightarrow> (family \<times> string \<times> string) option" where
  "split_address server =
     (if server \<noteq> [] \<and> hd server = CHR ''['' then
        (if CHR '']'' \<in> set (tl server)
         then Some (AF_INET6, takeWhile (\<lambda>c. c \<noteq> CHR '']'') (tl server), tl (dropWhile (\<lambda>c. c \<noteq> CHR '']'') (tl server)))
         else None)
      else Some (AF_INET, takeWhile (\<lambda>c. c \<noteq> CHR '':'') server, dropWhile (\<lambda>c. c \<noteq> CHR '':'') server))"

definition parse_port :: "string \<Rightarrow> u16 \<Rightarrow> u16 option" where
  "parse_port s defaultPort =
     (if s \<noteq> [] \<and> hd s = CHR '':'' then
        (let (longPort, end) = strtol (tl s)
         in if end \<noteq> [] \<or> longPort < 1 \<or> longPort > 65535 then None else Some (of_int longPort))
      else Some defaultPort)"

definition parseServer :: "platform \<Rightarrow> string \<Rightarrow> u16 \<Rightarrow> sockaddr_storage \<Rightarrow> bool \<times> sockaddr_storage" where
  "parseServer P server defaultPort output =
     (case split_address server of
        None \<Rightarrow> (False, output)
      | Some (family, ip, s) \<Rightarrow>
          let output = output\<lparr>ss_family := family\<rparr> in
          (case parse_port s defaultPort of
             None \<Rightarrow> (False, output)
           | Some port \<Rightarrow>
               let output = output\<lparr>sin_port := port\<rparr> in
               if family = AF_INET then
                 (case inet_pton4 P ip of None \<Rightarrow> (False, output) | Some a \<Rightarrow> (True, output\<lparr>sin_addr := a\<rparr>))
               else
                 (case inet_pton6 P ip of None \<Rightarrow> (False, output) | Some a \<Rightarrow> (True, output\<lparr>sin6_addr := a\<rparr>))))"

subsection \<open>The options\<close>

definition parser_addServer :: "platform \<Rightarrow> string \<Rightarrow> ConfigParser \<Rightarrow> ConfigParser" where
  "parser_addServer P server cp =
     (let (ok, output) = parseServer P server 53 unspec_addr
      in if \<not> ok then cp\<lparr>cp_valid := False\<rparr>
         else cp\<lparr>cp_servers := cp_servers cp @ [\<lparr>address = output\<rparr>]\<rparr>)"

definition pushForwarder :: "ConfigParser \<Rightarrow> ConfigParser" where
  "pushForwarder cp =
     (let p = cp_partialForwarder cp;
          cp = (if ss_family (remote p) \<noteq> AF_UNSPEC then cp\<lparr>cp_forwarders := cp_forwarders cp @ [p]\<rparr>
                else if host p \<noteq> [] \<or> pin p \<noteq> [] then cp\<lparr>cp_valid := False\<rparr>
                else cp)
      in cp\<lparr>cp_partialForwarder := empty_forwarder\<rparr>)"

definition parser_addForwarder :: "platform \<Rightarrow> string \<Rightarrow> ConfigParser \<Rightarrow> ConfigParser" where
  "parser_addForwarder P server cp =
     (let p = cp_partialForwarder cp;
          (ok, output) = parseServer P server 853 (remote p);
          cp = cp\<lparr>cp_partialForwarder := p\<lparr>remote := output\<rparr>\<rparr>
      in if ok then cp else cp\<lparr>cp_valid := False\<rparr>)"

definition parser_disableVerification :: "ConfigParser \<Rightarrow> ConfigParser" where
  "parser_disableVerification cp = cp\<lparr>cp_partialForwarder := (cp_partialForwarder cp)\<lparr>disablePki := True\<rparr>\<rparr>"

definition addHostname :: "string \<Rightarrow> ConfigParser \<Rightarrow> ConfigParser" where
  "addHostname hostname cp =
     (let p = cp_partialForwarder cp
      in if host p = [] then cp\<lparr>cp_partialForwarder := p\<lparr>host := hostname\<rparr>\<rparr> else cp\<lparr>cp_valid := False\<rparr>)"

definition addPin :: "platform \<Rightarrow> string \<Rightarrow> ConfigParser \<Rightarrow> ConfigParser" where
  "addPin P s cp =
     (let p = cp_partialForwarder cp;
          decoded = base64_decode P s;
          cp = cp\<lparr>cp_partialForwarder := p\<lparr>pin := decoded\<rparr>\<rparr>
      in if s \<noteq> [] \<and> decoded = [] then cp\<lparr>cp_valid := False\<rparr> else cp)"

definition setMaxConnections :: "string \<Rightarrow> ConfigParser \<Rightarrow> ConfigParser" where
  "setMaxConnections s cp =
     (let (longConnections, end) = strtol s
      in if end \<noteq> [] \<or> longConnections < 1 \<or> longConnections > 6000 then cp\<lparr>cp_valid := False\<rparr>
         else cp\<lparr>cp_maxConnections := longConnections\<rparr>)"

definition parser_setTimeout :: "string \<Rightarrow> ConfigParser \<Rightarrow> ConfigParser" where
  "parser_setTimeout s cp =
     (let (longTimeout, end) = strtol s
      in if end \<noteq> [] \<or> longTimeout < 1 \<or> longTimeout > 0xffff then cp\<lparr>cp_valid := False\<rparr>
         else cp\<lparr>cp_timeout := longTimeout\<rparr>)"

definition apply_option :: "platform \<Rightarrow> char \<times> string \<Rightarrow> ConfigParser \<Rightarrow> ConfigParser" where
  "apply_option P opt cp = (case opt of (c, optarg) \<Rightarrow>
     if c = CHR ''s'' then parser_addServer P optarg cp
     else if c = CHR ''f'' then parser_addForwarder P optarg (pushForwarder cp)
     else if c = CHR ''h'' then addHostname optarg cp
     else if c = CHR ''i'' then parser_disableVerification cp
     else if c = CHR ''p'' then addPin P optarg cp
     else if c = CHR ''c'' then cp\<lparr>cp_ciphers := optarg\<rparr>
     else if c = CHR ''m'' then setMaxConnections optarg cp
     else if c = CHR ''d'' then cp\<lparr>cp_daemonise := True\<rparr>
     else if c = CHR ''P'' then cp\<lparr>cp_pidFile := optarg\<rparr>
     else if c = CHR ''l'' then
       (let (ok, output) = parseServer P optarg 853 (cp_ipLookup cp);
            cp = cp\<lparr>cp_ipLookup := output\<rparr>
        in if ok then cp else cp\<lparr>cp_valid := False\<rparr>)
     else if c = CHR ''t'' then parser_setTimeout optarg cp
     else cp\<lparr>cp_valid := False\<rparr>)"

text \<open>The loop stops at the first option that is not valid.\<close>

fun parse_options :: "platform \<Rightarrow> (char \<times> string) list \<Rightarrow> ConfigParser \<Rightarrow> ConfigParser" where
  "parse_options P [] cp = cp"
| "parse_options P (opt # opts) cp =
     (if cp_valid cp then parse_options P opts (apply_option P opt cp) else cp)"

definition parseConfig :: "platform \<Rightarrow> (char \<times> string) list \<times> bool \<Rightarrow> ConfigParser \<Rightarrow> ConfigParser" where
  "parseConfig P args cp = (case args of (opts, arguments_left) \<Rightarrow>
     let p = cp_partialForwarder cp;
         cp = cp\<lparr>cp_partialForwarder := p\<lparr>remote := (remote p)\<lparr>ss_family := AF_UNSPEC\<rparr>\<rparr>\<rparr>;
         cp = pushForwarder (parse_options P opts cp)
     in if arguments_left then cp\<lparr>cp_valid := False\<rparr> else cp)"

subsection \<open>Defaults\<close>

definition default_forwarder :: "platform \<Rightarrow> string \<Rightarrow> Forwarder list" where
  "default_forwarder P server =
     (let (ok, output) = parseServer P server 853 unspec_addr
      in if ok then [\<lparr>remote = output, disablePki = False, host = ''cloudflare-dns.com'', pin = []\<rparr>] else [])"

definition defaultForwarders :: "platform \<Rightarrow> ConfigParser \<Rightarrow> ConfigParser" where
  "defaultForwarders P cp = cp\<lparr>cp_forwarders := cp_forwarders cp
     @ default_forwarder P ''[2606:4700:4700::1111]'' @ default_forwarder P ''[2606:4700:4700::1001]''
     @ default_forwarder P ''1.1.1.1'' @ default_forwarder P ''1.0.0.1''\<rparr>"

definition default_server :: "platform \<Rightarrow> string \<Rightarrow> Server list" where
  "default_server P server =
     (let (ok, output) = parseServer P server 53 unspec_addr in if ok then [\<lparr>address = output\<rparr>] else [])"

definition defaultServers :: "platform \<Rightarrow> ConfigParser \<Rightarrow> ConfigParser" where
  "defaultServers P cp = cp\<lparr>cp_servers := cp_servers cp @ default_server P ''127.0.0.1'' @ default_server P ''[::1]''\<rparr>"

definition setDefaults :: "platform \<Rightarrow> ConfigParser \<Rightarrow> ConfigParser" where
  "setDefaults P cp =
     (let cp = (if cp_forwarders cp = [] then defaultForwarders P cp else cp);
          cp = (if cp_servers cp = [] then defaultServers P cp else cp)
      in if cp_ciphers cp = [] then cp\<lparr>cp_ciphers := DEFAULT_CIPHERS\<rparr> else cp)"

end
