(* ===== verification/Config_Facts.thy ===== *)
theory Config_Facts
  imports Config_Parser
begin

text \<open>
  What the configuration parser promises: numbers and addresses are read back as they were written, an option list
  that describes forwarders yields them, and a configuration that is valid is in range.
\<close>

subsection \<open>Numbers\<close>

fun string_of_nat :: "nat \<Rightarrow> string" where
  "string_of_nat n = (if n < 10 then [char_of (48 + n)] else string_of_nat (n div 10) @ [char_of (48 + n mod 10)])"

declare string_of_nat.simps [simp del]

lemma digits_value_snoc: "digits_value (s @ [c]) = 10 * digits_value s + (int (of_char c) - 48)"
  by (simp add: digits_value_def)

lemma string_of_nat_digits:
  "(\<forall>c \<in> set (string_of_nat n). is_digit c) \<and> string_of_nat n \<noteq> [] \<and> digits_value (string_of_nat n) = int n"
proof (induction n rule: string_of_nat.induct)
  case (1 n)
  show ?case
  proof (cases "n < 10")
    case True
    then show ?thesis by (simp add: string_of_nat.simps [of n] is_digit_def digits_value_def)
  next
    case False
    with 1 show ?thesis
      by (auto simp: string_of_nat.simps [of n] is_digit_def digits_value_snoc) presburger
  qed
qed

lemma digit_not_special:
  assumes "is_digit c"
  shows "\<not> is_space c" "c \<noteq> CHR ''-''" "c \<noteq> CHR ''+''"
  using assms by (auto simp: is_digit_def is_space_def)

lemma strtol_digits:
  assumes "\<forall>c \<in> set ds. is_digit c" and "ds \<noteq> []" and "0 \<le> digits_value ds" "digits_value ds \<le> LONG_MAX"
  shows "strtol ds = (digits_value ds, [])"
proof -
  obtain c cs where ds: "ds = c # cs" using assms(2) by (cases ds) auto
  then have c: "is_digit c" using assms(1) by simp
  have t: "takeWhile is_digit ds = ds" "dropWhile is_digit ds = []" using assms(1) by (simp_all add: takeWhile_eq_all_conv)
  have d: "dropWhile is_space ds = ds" using digit_not_special(1) [OF c] by (simp add: ds)
  have h: "hd ds \<noteq> CHR ''-''" "hd ds \<noteq> CHR ''+''" using digit_not_special(2,3) [OF c] by (simp_all add: ds)
  show ?thesis using assms(2-4) h by (simp add: strtol_def d t Let_def LONG_MIN_def)
qed

lemma strtol_string_of_nat:
  assumes "int n \<le> LONG_MAX"
  shows "strtol (string_of_nat n) = (int n, [])"
  using string_of_nat_digits [of n] strtol_digits [of "string_of_nat n"] assms by simp

subsection \<open>Addresses\<close>

lemma parse_port_printed:
  assumes "port \<noteq> 0"
  shows "parse_port (CHR '':'' # string_of_nat (unat port)) dp = Some port"
proof -
  have u: "unat port < 65536" "0 < unat port"
    using assms unsigned_less [of port] by (simp_all add: unat_gt_0)
  have "65536 \<le> LONG_MAX" by (simp add: LONG_MAX_def)
  with u(1) have "strtol (string_of_nat (unat port)) = (int (unat port), [])"
    by (intro strtol_string_of_nat) linarith
  moreover have "1 \<le> uint port" "uint port \<le> 65535" using u uint_nat [of port] by linarith+
  ultimately show ?thesis by (simp add: parse_port_def)
qed

lemma split_at_char:
  assumes "c \<notin> set xs"
  shows "takeWhile (\<lambda>x. x \<noteq> c) (xs @ c # ys) = xs" "dropWhile (\<lambda>x. x \<noteq> c) (xs @ c # ys) = c # ys"
    "takeWhile (\<lambda>x. x \<noteq> c) xs = xs" "dropWhile (\<lambda>x. x \<noteq> c) xs = []"
  using assms by (induction xs) auto

definition with_port :: "u16 option \<Rightarrow> string" where
  "with_port p = (case p of None \<Rightarrow> [] | Some port \<Rightarrow> CHR '':'' # string_of_nat (unat port))"

definition port_or :: "u16 \<Rightarrow> u16 option \<Rightarrow> u16" where
  "port_or d p = (case p of None \<Rightarrow> d | Some port \<Rightarrow> port)"

lemma parse_with_port: "p \<noteq> Some 0 \<Longrightarrow> parse_port (with_port p) d = Some (port_or d p)"
  using parse_port_printed by (auto simp: with_port_def port_or_def parse_port_def split: option.splits)

lemma split_ipv4:
  assumes "CHR '':'' \<notin> set ip" and "ip \<noteq> []" and "hd ip \<noteq> CHR ''[''"
  shows "split_address (ip @ with_port p) = Some (AF_INET, ip, with_port p)"
  using assms split_at_char [of "CHR '':''" ip] by (auto simp: split_address_def with_port_def split: option.splits)

lemma split_ipv6:
  assumes "CHR '']'' \<notin> set ip"
  shows "split_address (CHR ''['' # ip @ CHR '']'' # t) = Some (AF_INET6, ip, t)"
  using assms split_at_char [of "CHR '']''" ip] by (simp add: split_address_def)

text \<open>
  An address is read back as it was written: \<open>ip\<close> or \<open>ip:port\<close> for IPv4,
  \<open>[ip]\<close> or \<open>[ip]:port\<close> for IPv6, with the default for a port that is left out.
\<close>

lemma parseServer_reads_written:
  assumes "p \<noteq> Some 0"
  shows "(CHR '':'' \<notin> set ip \<and> ip \<noteq> [] \<and> hd ip \<noteq> CHR ''['' \<and> inet_pton4 P ip = Some a4 \<longrightarrow>
      parseServer P (ip @ with_port p) d output
        = (True, output\<lparr>ss_family := AF_INET, sin_port := port_or d p, sin_addr := a4\<rparr>))
    \<and> (CHR '']'' \<notin> set ip \<and> inet_pton6 P ip = Some a6 \<longrightarrow>
      parseServer P (CHR ''['' # ip @ CHR '']'' # with_port p) d output
        = (True, output\<lparr>ss_family := AF_INET6, sin_port := port_or d p, sin6_addr := a6\<rparr>))"
  using parse_with_port [OF assms, of d] split_ipv4 [of ip p] split_ipv6 [of ip "with_port p"]
  by (simp add: parseServer_def)

definition sample_platform :: platform where
  "sample_platform = \<lparr>inet_pton4 = \<lambda>s. if s = ''9.9.9.9'' then Some 0x09090909 else None,
     inet_pton6 = \<lambda>s. if s = ''::1'' then Some 1 else None, base64_decode = \<lambda>s. if s = ''Bw=='' then [7] else []\<rparr>"

text \<open>
  What follows the closing bracket of an IPv6 address is only looked at when it starts with a
  colon: a port written without the colon is ignored, and the default port taken.
\<close>

lemma text_after_bracket_is_ignored:
  assumes "CHR '']'' \<notin> set ip" and "t = [] \<or> hd t \<noteq> CHR '':''"
  shows "parseServer P (CHR ''['' # ip @ CHR '']'' # t) d output = parseServer P (CHR ''['' # ip @ CHR '']'' # []) d output"
  using assms split_ipv6 [of ip] by (auto simp: parseServer_def parse_port_def)

subsection \<open>Option lists\<close>

text \<open>The options that describe a forwarder, with a text for its address and one for its pin.\<close>

record described =
  ds_address :: string
  ds_pin :: string
  ds_forwarder :: Forwarder

definition options_of :: "described \<Rightarrow> (char \<times> string) list" where
  "options_of d = (CHR ''f'', ds_address d)
     # (if disablePki (ds_forwarder d) then [(CHR ''i'', [])] else [])
     @ (if host (ds_forwarder d) \<noteq> [] then [(CHR ''h'', host (ds_forwarder d))] else [])
     @ (if pin (ds_forwarder d) \<noteq> [] then [(CHR ''p'', ds_pin d)] else [])"

definition describes :: "platform \<Rightarrow> described \<Rightarrow> bool" where
  "describes P d \<longleftrightarrow> parseServer P (ds_address d) 853 unspec_addr = (True, remote (ds_forwarder d))
     \<and> ss_family (remote (ds_forwarder d)) \<noteq> AF_UNSPEC \<and> base64_decode P (ds_pin d) = pin (ds_forwarder d)"

lemma parse_options_append:
  "parse_options P (xs @ ys) cp = (let cp' = parse_options P xs cp in if cp_valid cp' then parse_options P ys cp' else cp')"
proof (induction xs arbitrary: cp)
  case Nil
  then show ?case by (cases ys) (simp_all add: Let_def)
next
  case (Cons x xs)
  then show ?case by (auto simp: Let_def)
qed

lemma pushForwarder_empty: "cp_partialForwarder cp = empty_forwarder \<Longrightarrow> pushForwarder cp = cp"
  by (simp add: pushForwarder_def empty_forwarder_def unspec_addr_def)

lemma parse_options_of:
  assumes "describes P d" and "cp_valid cp" and "cp_valid (pushForwarder cp)"
  shows "parse_options P (options_of d) cp = (pushForwarder cp)\<lparr>cp_partialForwarder := ds_forwarder d\<rparr>"
proof -
  have r: "remote (cp_partialForwarder (pushForwarder cp)) = unspec_addr"
    "cp_partialForwarder (pushForwarder cp) = empty_forwarder"
    by (simp_all add: pushForwarder_def empty_forwarder_def Let_def)
  have f: "apply_option P (CHR ''f'', ds_address d) cp
    = (pushForwarder cp)\<lparr>cp_partialForwarder := empty_forwarder\<lparr>remote := remote (ds_forwarder d)\<rparr>\<rparr>"
    using assms(1) r by (simp add: apply_option_def parser_addForwarder_def describes_def)
  show ?thesis
    using assms by (simp add: options_of_def f)
      (simp add: apply_option_def parser_disableVerification_def addHostname_def addPin_def empty_forwarder_def describes_def)
qed

lemma parse_described:
  assumes "\<forall>d \<in> set ds. describes P d" and "cp_valid cp" and "cp_partialForwarder cp = empty_forwarder"
  shows "parseConfig P (concat (map options_of ds), False) cp
    = cp\<lparr>cp_forwarders := cp_forwarders cp @ map ds_forwarder ds\<rparr>"
proof -
  have main: "pushForwarder (parse_options P (concat (map options_of ds)) cp)
      = (pushForwarder cp)\<lparr>cp_forwarders := cp_forwarders (pushForwarder cp) @ map ds_forwarder ds\<rparr>"
    if "\<forall>d \<in> set ds. describes P d" "cp_valid cp" "cp_valid (pushForwarder cp)" for ds cp
    using that
  proof (induction ds arbitrary: cp)
    case (Cons d ds)
    let ?cp = "(pushForwarder cp)\<lparr>cp_partialForwarder := ds_forwarder d\<rparr>"
    have o: "parse_options P (options_of d) cp = ?cp" using Cons.prems by (intro parse_options_of) simp_all
    have "ss_family (remote (ds_forwarder d)) \<noteq> AF_UNSPEC" using Cons.prems(1) by (simp add: describes_def)
    then have p: "pushForwarder ?cp = (pushForwarder cp)\<lparr>cp_forwarders := cp_forwarders (pushForwarder cp) @ [ds_forwarder d]\<rparr>"
      by (simp add: pushForwarder_def Let_def)
    with Cons show ?case by (simp add: parse_options_append o p)
  qed simp
  have e: "cp\<lparr>cp_partialForwarder := empty_forwarder\<lparr>remote := (remote empty_forwarder)\<lparr>ss_family := AF_UNSPEC\<rparr>\<rparr>\<rparr> = cp"
    using assms(3) by (simp add: empty_forwarder_def unspec_addr_def)
  show ?thesis
    using main [OF assms(1,2)] assms(2,3) e pushForwarder_empty [OF assms(3)] by (simp add: parseConfig_def)
qed

text \<open>
  Property C25 (roundtrip). An option list that describes forwarders yields exactly these, in order, with their
  verification flags, hosts and pins, behind those that were configured before, and changes nothing else.
\<close>

theorem parseConfig_reads_forwarders:
  assumes "\<forall>d \<in> set ds. describes P d" and "cp_valid cp" and "cp_partialForwarder cp = empty_forwarder"
  shows "parseConfig P (concat (map options_of ds), False) cp
    = cp\<lparr>cp_forwarders := cp_forwarders cp @ map ds_forwarder ds\<rparr>"
  using assms by (rule parse_described)

theorem parseConfig_reads_forwarders_witness:
  "cp_forwarders (parseConfig sample_platform
      (concat (map options_of [\<lparr>ds_address = ''9.9.9.9'', ds_pin = ''Bw=='',
          ds_forwarder = \<lparr>remote = inet_addr 0x09090909 853, disablePki = True, host = ''dns.quad9.net'', pin = [7]\<rparr>\<rparr>]), False)
      ((new_ConfigParser unspec_addr False unspec_addr)\<lparr>cp_partialForwarder := empty_forwarder\<rparr>))
   = [\<lparr>remote = inet_addr 0x09090909 853, disablePki = True, host = ''dns.quad9.net'', pin = [7]\<rparr>]"
proof -
  let ?d = "\<lparr>ds_address = ''9.9.9.9'', ds_pin = ''Bw=='',
    ds_forwarder = \<lparr>remote = inet_addr 0x09090909 853, disablePki = True, host = ''dns.quad9.net'', pin = [7]\<rparr>\<rparr>"
  have "describes sample_platform ?d"
    by (simp add: describes_def parseServer_def split_address_def parse_port_def sample_platform_def inet_addr_def unspec_addr_def)
  then have d: "\<forall>d \<in> set [?d]. describes sample_platform d" by simp
  let ?cp = "(new_ConfigParser unspec_addr False unspec_addr)\<lparr>cp_partialForwarder := empty_forwarder\<rparr>"
  have c: "cp_valid ?cp" "cp_partialForwarder ?cp = empty_forwarder" by (simp_all add: new_ConfigParser_def)
  show ?thesis unfolding parseConfig_reads_forwarders [OF d c] by (simp add: new_ConfigParser_def)
qed

subsection \<open>Any number of option lists\<close>

definition configure :: "platform \<Rightarrow> ((char \<times> string) list \<times> bool) list \<Rightarrow> ConfigParser \<Rightarrow> ConfigParser" where
  "configure P runs cp = setDefaults P (foldl (\<lambda>cp args. parseConfig P args cp) cp runs)"

definition usable :: "sockaddr_storage \<Rightarrow> bool" where
  "usable a \<longleftrightarrow> ss_family a \<noteq> AF_UNSPEC \<and> sin_port a \<noteq> 0"

definition in_range :: "ConfigParser \<Rightarrow> bool" where
  "in_range cp \<longleftrightarrow> (\<forall>f \<in> set (cp_forwarders cp). usable (remote f)) \<and> (\<forall>s \<in> set (cp_servers cp). usable (address s))
     \<and> 1 \<le> cp_maxConnections cp \<and> cp_maxConnections cp \<le> 6000 \<and> 1 \<le> cp_timeout cp \<and> cp_timeout cp \<le> 65535"

definition partial_ok :: "ConfigParser \<Rightarrow> bool" where
  "partial_ok cp \<longleftrightarrow> ss_family (remote (cp_partialForwarder cp)) = AF_UNSPEC \<or> usable (remote (cp_partialForwarder cp))"

definition parser_ok :: "ConfigParser \<Rightarrow> bool" where
  "parser_ok cp \<longleftrightarrow> (cp_valid cp \<longrightarrow> in_range cp \<and> partial_ok cp)"

lemma parse_port_nonzero:
  assumes "parse_port s d = Some p" and "d \<noteq> 0" shows "p \<noteq> 0"
proof -
  have "(of_int v :: u16) \<noteq> 0" if "1 \<le> v" "v \<le> 65535" for v
    using that by (simp add: word_of_int_eq_0_iff) (auto dest: zdvd_imp_le)
  with assms show ?thesis by (auto simp: parse_port_def split: if_splits prod.splits)
qed

lemma parseServer_usable:
  assumes "parseServer P s d out = (True, a)" and "d \<noteq> 0"
  shows "usable a"
proof -
  obtain family ip t where sp: "split_address s = Some (family, ip, t)"
    using assms(1) by (cases "split_address s") (auto simp: parseServer_def)
  then have "family \<noteq> AF_UNSPEC" by (auto simp: split_address_def split: if_splits)
  moreover obtain p where p: "parse_port t d = Some p"
    using assms(1) sp by (cases "parse_port t d") (auto simp: parseServer_def)
  moreover note parse_port_nonzero [OF p assms(2)]
  ultimately show ?thesis
    using assms(1) sp by (auto simp: parseServer_def usable_def Let_def split: if_splits option.splits)
qed

lemma pushForwarder_ok: "parser_ok cp \<Longrightarrow> parser_ok (pushForwarder cp)"
  by (auto simp: parser_ok_def pushForwarder_def in_range_def partial_ok_def empty_forwarder_def unspec_addr_def Let_def)

lemma parser_addServer_ok: "parser_ok cp \<Longrightarrow> parser_ok (parser_addServer P s cp)"
  using parseServer_usable [of P s 53 unspec_addr]
  by (auto simp: parser_ok_def parser_addServer_def in_range_def partial_ok_def split: prod.splits)

lemma parser_addForwarder_ok: "parser_ok cp \<Longrightarrow> parser_ok (parser_addForwarder P s cp)"
  using parseServer_usable [of P s 853 "remote (cp_partialForwarder cp)"]
  by (auto simp: parser_ok_def parser_addForwarder_def in_range_def partial_ok_def Let_def split: prod.splits)

lemma other_options_ok:
  assumes "parser_ok cp"
  shows "parser_ok (parser_disableVerification cp)" "parser_ok (addHostname s cp)" "parser_ok (addPin P s cp)"
    "parser_ok (setMaxConnections s cp)" "parser_ok (parser_setTimeout s cp)"
  using assms
  by (auto simp: parser_ok_def parser_disableVerification_def addHostname_def addPin_def setMaxConnections_def parser_setTimeout_def
      in_range_def partial_ok_def Let_def split: prod.splits)

lemma apply_option_ok:
  assumes "parser_ok cp" shows "parser_ok (apply_option P opt cp)"
proof -
  have "parser_ok (cp\<lparr>cp_ciphers := x\<rparr>)" "parser_ok (cp\<lparr>cp_daemonise := True\<rparr>)" "parser_ok (cp\<lparr>cp_pidFile := x\<rparr>)"
    "parser_ok (cp\<lparr>cp_ipLookup := a\<rparr>)" "parser_ok (cp\<lparr>cp_ipLookup := a, cp_valid := False\<rparr>)" "parser_ok (cp\<lparr>cp_valid := False\<rparr>)" for x a
    using assms by (simp_all add: parser_ok_def in_range_def partial_ok_def)
  then show ?thesis
    using assms parser_addServer_ok parser_addForwarder_ok pushForwarder_ok other_options_ok
    by (cases opt) (simp add: apply_option_def Let_def split: prod.split)
qed

lemma parse_options_ok: "parser_ok cp \<Longrightarrow> parser_ok (parse_options P opts cp)"
  by (induction opts arbitrary: cp) (simp_all add: apply_option_ok)

lemma parseConfig_ok: "parser_ok cp \<Longrightarrow> parser_ok (parseConfig P args cp)"
proof -
  assume "parser_ok cp"
  then have "parser_ok (cp\<lparr>cp_partialForwarder := (cp_partialForwarder cp)\<lparr>remote := (remote (cp_partialForwarder cp))\<lparr>ss_family := AF_UNSPEC\<rparr>\<rparr>\<rparr>)"
    by (simp add: parser_ok_def in_range_def partial_ok_def)
  then have "parser_ok (pushForwarder (parse_options P opts (cp\<lparr>cp_partialForwarder := (cp_partialForwarder cp)\<lparr>remote := (remote (cp_partialForwarder cp))\<lparr>ss_family := AF_UNSPEC\<rparr>\<rparr>\<rparr>)))" for opts
    using parse_options_ok pushForwarder_ok by blast
  moreover have "parser_ok cp \<Longrightarrow> parser_ok (cp\<lparr>cp_valid := False\<rparr>)" for cp by (simp add: parser_ok_def)
  ultimately show ?thesis by (cases args) (simp add: parseConfig_def Let_def)
qed

lemma setDefaults_ok:
  assumes "parser_ok cp" shows "parser_ok (setDefaults P cp)"
proof -
  have "\<forall>f \<in> set (default_forwarder P s). usable (remote f)" "\<forall>a \<in> set (default_server P s). usable (address a)" for s
    using parseServer_usable [of P s 853 unspec_addr] parseServer_usable [of P s 53 unspec_addr]
    by (auto simp: default_forwarder_def default_server_def split: prod.splits if_splits)
  with assms show ?thesis
    by (auto simp: parser_ok_def setDefaults_def defaultForwarders_def defaultServers_def in_range_def partial_ok_def Let_def)
qed

lemma parser_ok_invalid: "parser_ok (cp\<lparr>cp_valid := False\<rparr>)"
  by (simp add: parser_ok_def)

lemma first_parse_ok: "parser_ok (parseConfig P args (new_ConfigParser junk flag junk'))"
proof -
  let ?cp = "new_ConfigParser junk flag junk'"
  let ?start = "?cp\<lparr>cp_partialForwarder := (cp_partialForwarder ?cp)\<lparr>remote := (remote (cp_partialForwarder ?cp))\<lparr>ss_family := AF_UNSPEC\<rparr>\<rparr>\<rparr>"
  have "parser_ok ?start"
    by (simp add: parser_ok_def new_ConfigParser_def in_range_def partial_ok_def DEFAULT_MAX_CONNECTIONS_def)
  moreover have "parseConfig P args ?start = parseConfig P args ?cp" by (cases args) (simp add: parseConfig_def Let_def)
  ultimately show ?thesis using parseConfig_ok by metis
qed

text \<open>
  Property C29 (bounds). However often the options are parsed, from the command line or from elsewhere, a configuration that is
  valid with its defaults filled in is in range: every server and forwarder has an address of a family the
  sockets know and a port that is not 0, the pool has between 1 and 6000 connections and a forwarder between 1 and
  65535 seconds.
\<close>

theorem valid_configuration_in_range:
  assumes "cp_valid (configure P runs (new_ConfigParser junk flag junk'))"
  shows "in_range (configure P runs (new_ConfigParser junk flag junk'))"
proof -
  have keep: "parser_ok cp \<Longrightarrow> parser_ok (foldl (\<lambda>cp args. parseConfig P args cp) cp rs)" for cp rs
    by (induction rs arbitrary: cp) (simp_all add: parseConfig_ok)
  show ?thesis
  proof (cases runs)
    case Nil
    have "parser_ok (setDefaults P ((new_ConfigParser junk flag junk')\<lparr>cp_partialForwarder := empty_forwarder\<rparr>))"
      by (intro setDefaults_ok)
        (simp add: parser_ok_def new_ConfigParser_def in_range_def partial_ok_def DEFAULT_MAX_CONNECTIONS_def empty_forwarder_def unspec_addr_def)
    then show ?thesis using assms Nil
      by (auto simp: configure_def parser_ok_def in_range_def setDefaults_def defaultForwarders_def defaultServers_def Let_def
        new_ConfigParser_def split: if_splits)
  next
    case (Cons args rs)
    have "parser_ok (configure P runs (new_ConfigParser junk flag junk'))"
      using keep [OF first_parse_ok] setDefaults_ok by (simp add: configure_def Cons)
    with assms show ?thesis by (simp add: parser_ok_def)
  qed
qed

theorem valid_configuration_in_range_witness:
  "in_range (configure sample_platform [([(CHR ''m'', ''12''), (CHR ''t'', ''30''), (CHR ''f'', ''9.9.9.9:8853'')], False)]
      (new_ConfigParser unspec_addr True unspec_addr))"
proof (rule valid_configuration_in_range)
  have n: "strtol ''12'' = (12, [])" "strtol ''30'' = (30, [])" "strtol ''8853'' = (8853, [])" by code_simp+
  have f: "parseServer sample_platform ''9.9.9.9:8853'' 853 unspec_addr = (True, inet_addr 0x09090909 8853)"
    by (simp add: parseServer_def split_address_def parse_port_def n sample_platform_def inet_addr_def unspec_addr_def)
  have r: "remote (cp_partialForwarder (pushForwarder cp)) = unspec_addr" for cp
    by (simp add: pushForwarder_def empty_forwarder_def Let_def)
  have a: "apply_option sample_platform (CHR ''m'', ''12'') cp = cp\<lparr>cp_maxConnections := 12\<rparr>"
    "apply_option sample_platform (CHR ''t'', ''30'') cp = cp\<lparr>cp_timeout := 30\<rparr>"
    "apply_option sample_platform (CHR ''f'', ''9.9.9.9:8853'') cp
      = (pushForwarder cp)\<lparr>cp_partialForwarder := empty_forwarder\<lparr>remote := inet_addr 0x09090909 8853\<rparr>\<rparr>" for cp
    by (simp_all add: apply_option_def setMaxConnections_def parser_setTimeout_def parser_addForwarder_def n f r)
      (simp add: pushForwarder_def Let_def)
  have p: "pushForwarder (cp\<lparr>cp_partialForwarder := empty_forwarder\<lparr>remote := inet_addr 0x09090909 8853\<rparr>\<rparr>)
      = cp\<lparr>cp_forwarders := cp_forwarders cp @ [empty_forwarder\<lparr>remote := inet_addr 0x09090909 8853\<rparr>],
          cp_partialForwarder := empty_forwarder\<rparr>" for cp
    by (simp add: pushForwarder_def inet_addr_def Let_def)
  have q: "pushForwarder (new_ConfigParser unspec_addr True unspec_addr\<lparr>cp_partialForwarder := q, cp_maxConnections := 12, cp_timeout := 30\<rparr>)
      = new_ConfigParser unspec_addr True unspec_addr\<lparr>cp_partialForwarder := empty_forwarder, cp_maxConnections := 12, cp_timeout := 30\<rparr>"
    if "q = \<lparr>remote = unspec_addr, disablePki = True, host = [], pin = []\<rparr>" for q
    using that by (simp add: pushForwarder_def new_ConfigParser_def unspec_addr_def)
  show "cp_valid (configure sample_platform [([(CHR ''m'', ''12''), (CHR ''t'', ''30''), (CHR ''f'', ''9.9.9.9:8853'')], False)]
      (new_ConfigParser unspec_addr True unspec_addr))"
    by (simp add: configure_def parseConfig_def a p setDefaults_def defaultForwarders_def defaultServers_def Let_def)
      (simp add: new_ConfigParser_def pushForwarder_def unspec_addr_def)
qed

text \<open>
  An error in an option list is final: the options behind it are not looked at, and no later list
  and no default makes the configuration valid again.
\<close>

lemma invalid_configuration_stays_invalid:
  assumes "\<not> cp_valid (parse_options P opts cp)"
  shows "parse_options P (opts @ later) cp = parse_options P opts cp
    \<and> (\<not> cp_valid cp' \<longrightarrow> \<not> cp_valid (configure P runs cp'))"
proof -
  have o: "parse_options P os c = c" if "\<not> cp_valid c" for os c using that by (cases os) simp_all
  have c: "\<not> cp_valid c \<Longrightarrow> \<not> cp_valid (parseConfig P args c)" for args c
    by (cases args) (simp add: parseConfig_def o pushForwarder_def Let_def)
  have "\<not> cp_valid c \<Longrightarrow> \<not> cp_valid (foldl (\<lambda>cp args. parseConfig P args cp) c runs)" for c
    by (induction runs arbitrary: c) (simp_all add: c)
  then have "\<not> cp_valid cp' \<longrightarrow> \<not> cp_valid (configure P runs cp')"
    by (simp add: configure_def setDefaults_def defaultForwarders_def defaultServers_def Let_def)
  with assms show ?thesis by (simp add: parse_options_append Let_def)
qed

subsection \<open>What the constructor leaves uninitialised\<close>

definition same_but_junk :: "ConfigParser \<Rightarrow> ConfigParser \<Rightarrow> bool" where
  "same_but_junk a b \<longleftrightarrow> a\<lparr>cp_partialForwarder := empty_forwarder\<rparr> = b\<lparr>cp_partialForwarder := empty_forwarder\<rparr>
     \<and> (let p = cp_partialForwarder a; q = cp_partialForwarder b in
          p = q \<or> ss_family (remote p) = AF_UNSPEC \<and> ss_family (remote q) = AF_UNSPEC \<and> host p = host q \<and> pin p = pin q)"

lemma same_but_junk_push: "same_but_junk a b \<Longrightarrow> pushForwarder a = pushForwarder b"
  by (cases a; cases b) (auto simp: same_but_junk_def pushForwarder_def Let_def)

lemma same_but_junk_refl: "same_but_junk a a"
  by (simp add: same_but_junk_def)

lemma same_but_junk_partial:
  assumes "same_but_junk a b"
  shows "cp_valid a = cp_valid b" "cp_ipLookup a = cp_ipLookup b"
  using assms by (cases a; cases b; simp add: same_but_junk_def)+

lemma same_but_junk_options:
  assumes "same_but_junk a b"
  shows "same_but_junk (parser_addServer P s a) (parser_addServer P s b)"
    "same_but_junk (addHostname s a) (addHostname s b)" "same_but_junk (addPin P s a) (addPin P s b)"
    "same_but_junk (parser_disableVerification a) (parser_disableVerification b)"
    "same_but_junk (setMaxConnections s a) (setMaxConnections s b)" "same_but_junk (parser_setTimeout s a) (parser_setTimeout s b)"
  using assms
  by (cases a; cases b; auto simp: same_but_junk_def parser_addServer_def addHostname_def addPin_def parser_disableVerification_def
      setMaxConnections_def parser_setTimeout_def Let_def split: prod.splits)+

lemma same_but_junk_fields:
  assumes "same_but_junk a b"
  shows "same_but_junk (a\<lparr>cp_ciphers := x\<rparr>) (b\<lparr>cp_ciphers := x\<rparr>)" "same_but_junk (a\<lparr>cp_daemonise := d\<rparr>) (b\<lparr>cp_daemonise := d\<rparr>)"
    "same_but_junk (a\<lparr>cp_pidFile := x\<rparr>) (b\<lparr>cp_pidFile := x\<rparr>)" "same_but_junk (a\<lparr>cp_ipLookup := l\<rparr>) (b\<lparr>cp_ipLookup := l\<rparr>)"
    "same_but_junk (a\<lparr>cp_valid := v\<rparr>) (b\<lparr>cp_valid := v\<rparr>)"
    "same_but_junk (a\<lparr>cp_ipLookup := l, cp_valid := v\<rparr>) (b\<lparr>cp_ipLookup := l, cp_valid := v\<rparr>)"
  using assms by (cases a; cases b; auto simp: same_but_junk_def Let_def)+

lemma same_but_junk_apply:
  assumes "same_but_junk a b"
  shows "same_but_junk (apply_option P opt a) (apply_option P opt b)"
  using same_but_junk_options [OF assms] same_but_junk_fields [OF assms] same_but_junk_push [OF assms]
    same_but_junk_partial(2) [OF assms] same_but_junk_refl
  by (cases opt) (simp add: apply_option_def Let_def split: prod.split)

text \<open>
  The constructor leaves the partial forwarder's address and verification flag uninitialised, and
  no configuration depends on them.
\<close>

lemma uninitialised_fields_are_not_used:
  "parseConfig P args (new_ConfigParser junk flag l) = parseConfig P args (new_ConfigParser junk' flag' l)"
proof -
  have "same_but_junk a b \<Longrightarrow> same_but_junk (parse_options P opts a) (parse_options P opts b)" for opts a b
    by (induction opts arbitrary: a b) (simp_all add: same_but_junk_apply same_but_junk_partial(1))
  then have push: "same_but_junk a b \<Longrightarrow> pushForwarder (parse_options P opts a) = pushForwarder (parse_options P opts b)" for opts a b
    using same_but_junk_push by blast
  have "same_but_junk ((new_ConfigParser junk flag l)\<lparr>cp_partialForwarder := \<lparr>remote = junk\<lparr>ss_family := AF_UNSPEC\<rparr>, disablePki = flag, host = [], pin = []\<rparr>\<rparr>)
      ((new_ConfigParser junk' flag' l)\<lparr>cp_partialForwarder := \<lparr>remote = junk'\<lparr>ss_family := AF_UNSPEC\<rparr>, disablePki = flag', host = [], pin = []\<rparr>\<rparr>)"
    by (auto simp: same_but_junk_def new_ConfigParser_def)
  from push [OF this] show ?thesis by (cases args) (simp add: parseConfig_def new_ConfigParser_def Let_def)
qed

end
