(* ===== verification/Vyatta.thy ===== *)
theory Vyatta
  imports Dote System_Invariant Config_Facts
begin

text \<open>
  \<open>src/src/vyatta.cpp\<close> and \<open>src/src/vyatta_check.cpp\<close>: the configuration that a VyOS router stores for the
  program, and its reload while the program runs; \<open>loadDefaults\<close> of \<open>src/src/main.cpp\<close>, which reads it at the
  start.  The store is a function from paths to values, \<open>None\<close> when the VyOS library cannot be loaded; the
  second function argument is \<open>getopt_long\<close>, from the arguments to the options and the flag for arguments left.
  The loops run until a value is missing: as options, \<open>None\<close> when they do not end.
\<close>

type_synonym store = "(string list \<Rightarrow> string option) option"
type_synonym getopt = "string list \<Rightarrow> (char \<times> string) list \<times> bool"

definition getValue :: "store \<Rightarrow> string list \<Rightarrow> string" where
  "getValue config paths =
     (case config of None \<Rightarrow> [] | Some get \<Rightarrow> (case get paths of None \<Rightarrow> [] | Some value \<Rightarrow> value))"

definition server_path :: "nat \<Rightarrow> string list" where
  "server_path index = [''custom-attribute'', ''dote-server'' @ string_of_nat index, ''value'']"

definition forwarder_path :: "nat \<Rightarrow> string \<Rightarrow> string list" where
  "forwarder_path index suffix = [''custom-attribute'', ''dote-forwarder'' @ string_of_nat index @ suffix, ''value'']"

partial_function (option) load_servers_from ::
  "store \<Rightarrow> platform \<Rightarrow> getopt \<Rightarrow> nat \<Rightarrow> ConfigParser \<Rightarrow> ConfigParser option" where
  "load_servers_from config P getopt index parser =
     (let server = getValue config (server_path index) in
      if server = [] then Some parser
      else load_servers_from config P getopt (Suc index) (parseConfig P (getopt [[], ''-s'', server]) parser))"

definition loadServers :: "store \<Rightarrow> platform \<Rightarrow> getopt \<Rightarrow> ConfigParser \<Rightarrow> ConfigParser option" where
  "loadServers config P getopt parser = load_servers_from config P getopt 0 parser"

definition forwarder_args :: "string \<Rightarrow> string \<Rightarrow> string \<Rightarrow> string list" where
  "forwarder_args forwarder pin_text hostname =
     [[], ''-f'', forwarder] @ (if pin_text = [] then [''-p'', pin_text] else []) @ (if hostname = [] then [''-h'', hostname] else [])"

partial_function (option) load_forwarders_from ::
  "store \<Rightarrow> platform \<Rightarrow> getopt \<Rightarrow> nat \<Rightarrow> ConfigParser \<Rightarrow> ConfigParser option" where
  "load_forwarders_from config P getopt index parser =
     (let forwarder = getValue config (forwarder_path index []) in
      if forwarder = [] then Some parser
      else load_forwarders_from config P getopt (Suc index)
        (parseConfig P (getopt (forwarder_args forwarder (getValue config (forwarder_path index ''-pin''))
           (getValue config (forwarder_path index ''-hostname'')))) parser))"

definition loadForwarders :: "store \<Rightarrow> platform \<Rightarrow> getopt \<Rightarrow> ConfigParser \<Rightarrow> ConfigParser option" where
  "loadForwarders config P getopt parser = load_forwarders_from config P getopt 0 parser"

definition loadConfig :: "store \<Rightarrow> platform \<Rightarrow> getopt \<Rightarrow> ConfigParser \<Rightarrow> ConfigParser option" where
  "loadConfig config P getopt parser = do {
     parser \<leftarrow> loadServers config P getopt parser;
     loadForwarders config P getopt parser
   }"

definition loadDefaults :: "store \<Rightarrow> platform \<Rightarrow> getopt \<Rightarrow> ConfigParser \<Rightarrow> ConfigParser option" where
  "loadDefaults config P getopt commandLine = do {
     c \<leftarrow> loadConfig config P getopt commandLine;
     Some (setDefaults P c)
   }"

subsection \<open>Reloading\<close>

definition workingConfig :: "store \<Rightarrow> platform \<Rightarrow> getopt \<Rightarrow> ConfigParser \<Rightarrow> ConfigParser option" where
  "workingConfig config P getopt base = do {
     c \<leftarrow> loadConfig config P getopt base;
     Some (setDefaults P c)
   }"

definition reloadConfiguration ::
  "store \<Rightarrow> platform \<Rightarrow> getopt \<Rightarrow> ConfigParser \<Rightarrow> ForwarderConfig \<Rightarrow> ForwarderConfig option" where
  "reloadConfiguration config P getopt base forwarders = do {
     c \<leftarrow> workingConfig config P getopt base;
     Some (if cp_valid c then setForwarders (cp_forwarders c) forwarders else forwarders)
   }"

definition CONFIG_FILE :: string where "CONFIG_FILE = ''config.boot''"

text \<open>The events that the reads deliver until there are no more: the name of the file and what the store
  holds when it is read.\<close>

fun handleRead :: "platform \<Rightarrow> getopt \<Rightarrow> ConfigParser \<Rightarrow> (string \<times> store) list \<Rightarrow> ForwarderConfig \<Rightarrow> ForwarderConfig option" where
  "handleRead P getopt base [] forwarders = Some forwarders"
| "handleRead P getopt base ((name, config) # events) forwarders = do {
     forwarders \<leftarrow> (if name = CONFIG_FILE then reloadConfiguration config P getopt base forwarders else Some forwarders);
     handleRead P getopt base events forwarders
   }"

subsection \<open>The loops end\<close>

lemma load_servers_ends:
  "getValue config (server_path (index + n)) = [] \<Longrightarrow> \<exists>p. load_servers_from config P getopt index parser = Some p"
proof (induction n arbitrary: index parser)
  case 0
  then show ?case by (subst load_servers_from.simps) simp
next
  case (Suc n)
  from Suc.IH [of "Suc index"] Suc.prems show ?case by (subst load_servers_from.simps) (simp add: Let_def)
qed

lemma load_forwarders_ends:
  "getValue config (forwarder_path (index + n) []) = [] \<Longrightarrow> \<exists>p. load_forwarders_from config P getopt index parser = Some p"
proof (induction n arbitrary: index parser)
  case 0
  then show ?case by (subst load_forwarders_from.simps) simp
next
  case (Suc n)
  from Suc.IH [of "Suc index"] Suc.prems show ?case by (subst load_forwarders_from.simps) (simp add: Let_def)
qed

lemma loadConfig_ends:
  assumes "getValue config (server_path n) = []" and "getValue config (forwarder_path k []) = []"
  shows "\<exists>p. loadConfig config P getopt parser = Some p"
proof -
  obtain p where "loadServers config P getopt parser = Some p"
    using load_servers_ends [of config 0 n P getopt parser] assms(1) unfolding loadServers_def by auto
  moreover obtain q where "loadForwarders config P getopt p = Some q"
    using load_forwarders_ends [of config 0 k P getopt p] assms(2) unfolding loadForwarders_def by auto
  ultimately show ?thesis by (simp add: loadConfig_def)
qed


definition valid_reload :: "platform \<Rightarrow> getopt \<Rightarrow> ConfigParser \<Rightarrow> string \<times> store \<Rightarrow> Forwarder list option" where
  "valid_reload P getopt base e =
     (if fst e = CONFIG_FILE then
        (case workingConfig (snd e) P getopt base of
           Some c \<Rightarrow> if cp_valid c then Some (cp_forwarders c) else None | None \<Rightarrow> None)
      else None)"

text \<open>In the running system a call of \<open>handleRead\<close> is \<open>reload_all\<close> on the valid configurations
  (\<open>handleConfigRead\<close>): this is what its reads do.\<close>

lemma handleRead_reloads:
  assumes "\<forall>(name, config) \<in> set events. \<exists>n k. getValue config (server_path n) = [] \<and> getValue config (forwarder_path k []) = []"
  shows "handleRead P getopt base events forwarders
    = Some (reload_all (List.map_filter (valid_reload P getopt base) events) forwarders)"
  using assms
proof (induction events arbitrary: forwarders)
  case (Cons e events)
  obtain name config where e: "e = (name, config)" by fastforce
  with Cons.prems obtain n k where "getValue config (server_path n) = []" "getValue config (forwarder_path k []) = []" by auto
  from loadConfig_ends [OF this] obtain c where c: "workingConfig config P getopt base = Some c"
    unfolding workingConfig_def by (metis bind.bind_lunit)
  have v: "valid_reload P getopt base e = (if name = CONFIG_FILE \<and> cp_valid c then Some (cp_forwarders c) else None)"
    by (simp add: valid_reload_def e c)
  have "handleRead P getopt base (e # events) forwarders = handleRead P getopt base events
      (if name = CONFIG_FILE \<and> cp_valid c then setForwarders (cp_forwarders c) forwarders else forwarders)"
    by (simp add: e reloadConfiguration_def c)
  moreover have "handleRead P getopt base events f = Some (reload_all (List.map_filter (valid_reload P getopt base) events) f)" for f
    using Cons.IH Cons.prems by simp
  ultimately show ?case
    by (cases "name = CONFIG_FILE \<and> cp_valid c") (auto simp: List.map_filter_simps v reload_all_def)
qed (simp add: List.map_filter_simps reload_all_def)

text \<open>
  Property C28 (termination). A reload ends whenever the store lacks some server and some forwarder number, and it
  replaces the forwarders by those of the last event whose configuration is valid, or leaves them alone.
\<close>

theorem reload_takes_last_valid:
  assumes "\<forall>(name, config) \<in> set events. \<exists>n k. getValue config (server_path n) = [] \<and> getValue config (forwarder_path k []) = []"
  shows "handleRead P getopt base events forwarders = Some (forwarders\<lparr>m_forwarders :=
    last (m_forwarders forwarders # List.map_filter (valid_reload P getopt base) events)\<rparr>)"
  by (simp add: handleRead_reloads [OF assms] reload_all_eq)

definition empty_store :: "store" where "empty_store = Some (\<lambda>p. None)"

definition reload_base :: ConfigParser where
  "reload_base = (new_ConfigParser unspec_addr False unspec_addr)\<lparr>cp_forwarders := [forwarder_at 1],
     cp_servers := [\<lparr>address = inet_addr 0x7F000001 53\<rparr>], cp_ciphers := ''DEFAULT''\<rparr>"

theorem reload_takes_last_valid_witness:
  "handleRead sample_platform (\<lambda>args. ([], False)) reload_base [(CONFIG_FILE, empty_store), (''other'', empty_store)]
     \<lparr>m_timeout = 5, m_forwarders = [forwarder_at 2]\<rparr> = Some \<lparr>m_timeout = 5, m_forwarders = [forwarder_at 1]\<rparr>"
proof -
  have e: "\<forall>(name, config) \<in> set [(CONFIG_FILE, empty_store), (''other'', empty_store)].
      \<exists>n k. getValue config (server_path n) = [] \<and> getValue config (forwarder_path k []) = []"
    by (simp add: empty_store_def getValue_def)
  have "workingConfig empty_store sample_platform (\<lambda>args. ([], False)) reload_base = Some reload_base"
    by (simp add: workingConfig_def loadConfig_def loadServers_def loadForwarders_def load_servers_from.simps load_forwarders_from.simps
        getValue_def empty_store_def setDefaults_def reload_base_def)
  then have "List.map_filter (valid_reload sample_platform (\<lambda>args. ([], False)) reload_base) [(CONFIG_FILE, empty_store), (''other'', empty_store)]
      = [[forwarder_at 1]]"
    by (simp add: valid_reload_def CONFIG_FILE_def List.map_filter_simps) (simp add: reload_base_def new_ConfigParser_def)
  with reload_takes_last_valid [OF e] show ?thesis by simp
qed

subsection \<open>Hosts and pins from the store\<close>

text \<open>What the documentation of \<open>getopt_long\<close> says of arguments that are pairs of a short option with an argument
  and this argument.\<close>

definition getopt_ok :: "getopt \<Rightarrow> bool" where
  "getopt_ok getopt \<longleftrightarrow> (\<forall>name opts. (\<forall>(c, v) \<in> set opts. c \<in> set ''sfhpcmPlt'') \<longrightarrow>
     getopt (name # concat (map (\<lambda>(c, v). [[CHR ''-'', c], v]) opts)) = (opts, False))"

lemma getopt_forwarder_args:
  assumes "getopt_ok getopt"
  shows "getopt (forwarder_args f p h) = ([(CHR ''f'', f)] @ (if p = [] then [(CHR ''p'', [])] else [])
    @ (if h = [] then [(CHR ''h'', [])] else []), False)" (is "_ = (?opts, False)")
proof -
  have "forwarder_args f p h = [] # concat (map (\<lambda>(c, v). [[CHR ''-'', c], v]) ?opts)"
    by (simp add: forwarder_args_def)
  moreover have "\<forall>(c, v) \<in> set ?opts. c \<in> set ''sfhpcmPlt''" by auto
  ultimately show ?thesis using assms unfolding getopt_ok_def by metis
qed

definition plain :: "Forwarder list \<Rightarrow> ConfigParser \<Rightarrow> bool" where
  "plain fs cp \<longleftrightarrow> (\<exists>gs. cp_forwarders cp = fs @ gs \<and> (\<forall>g \<in> set gs. host g = [] \<and> pin g = []))
     \<and> host (cp_partialForwarder cp) = [] \<and> pin (cp_partialForwarder cp) = []"

lemma plain_push: "plain fs cp \<Longrightarrow> plain fs (pushForwarder cp)"
  by (auto simp: plain_def pushForwarder_def empty_forwarder_def Let_def)

lemma plain_option:
  assumes "plain fs cp" and "opt \<in> {(CHR ''f'', f), (CHR ''p'', []), (CHR ''h'', [])}" and "base64_decode P [] = []"
  shows "plain fs (apply_option P opt cp)"
  using assms plain_push [OF assms(1)]
  by (auto simp: apply_option_def parser_addForwarder_def addPin_def addHostname_def Let_def plain_def split: prod.split)

lemma plain_options:
  "\<forall>opt \<in> set opts. opt \<in> {(CHR ''f'', f), (CHR ''p'', []), (CHR ''h'', [])} \<Longrightarrow> base64_decode P [] = [] \<Longrightarrow>
   plain fs cp \<Longrightarrow> plain fs (parse_options P opts cp)"
proof (induction opts arbitrary: cp)
  case (Cons opt opts)
  then have "plain fs (apply_option P opt cp)" using plain_option by (metis list.set_intros(1))
  with Cons show ?case by simp
qed simp

lemma plain_forwarder:
  assumes "getopt_ok getopt" and "base64_decode P [] = []" and "plain fs cp"
  shows "plain fs (parseConfig P (getopt (forwarder_args f p h)) cp)"
proof -
  let ?cp = "cp\<lparr>cp_partialForwarder := (cp_partialForwarder cp)\<lparr>remote := (remote (cp_partialForwarder cp))\<lparr>ss_family := AF_UNSPEC\<rparr>\<rparr>\<rparr>"
  have "plain fs ?cp" using assms(3) by (simp add: plain_def)
  then have "plain fs (pushForwarder (parse_options P ([(CHR ''f'', f)] @ (if p = [] then [(CHR ''p'', [])] else [])
    @ (if h = [] then [(CHR ''h'', [])] else [])) ?cp))"
    by (intro plain_push plain_options [OF _ assms(2)]) auto
  then show ?thesis by (simp add: parseConfig_def getopt_forwarder_args [OF assms(1)] Let_def)
qed

lemma plain_forwarders:
  assumes "getopt_ok getopt" and "base64_decode P [] = []"
  shows "getValue config (forwarder_path (index + n) []) = [] \<Longrightarrow> plain fs parser \<Longrightarrow>
    \<exists>p. load_forwarders_from config P getopt index parser = Some p \<and> plain fs p"
proof (induction n arbitrary: index parser)
  case 0
  then show ?case by (subst load_forwarders_from.simps) simp
next
  case (Suc n)
  from Suc.IH [of "Suc index"] Suc.prems plain_forwarder [OF assms Suc.prems(2)] show ?case
    by (subst load_forwarders_from.simps) (simp add: Let_def)
qed

text \<open>
  Property C30 (error). Hosts and pins that the store holds for its forwarders are dropped: the code passes them on when they
  are empty.  Every forwarder that comes from the store is used without a check of its host or its key.
\<close>

theorem stored_pins_are_dropped:
  assumes "getopt_ok getopt" and "base64_decode P [] = []" and "getValue config (forwarder_path n []) = []"
    and "cp_partialForwarder parser = empty_forwarder"
  shows "\<exists>parser' fs. loadForwarders config P getopt parser = Some parser'
    \<and> cp_forwarders parser' = cp_forwarders parser @ fs \<and> (\<forall>f \<in> set fs. host f = [] \<and> pin f = [])"
proof -
  have "plain (cp_forwarders parser) parser" using assms(4) by (simp add: plain_def empty_forwarder_def)
  with plain_forwarders [OF assms(1,2), of config 0 n] assms(3) obtain p where
    "load_forwarders_from config P getopt 0 parser = Some p" "plain (cp_forwarders parser) p" by auto
  then show ?thesis unfolding loadForwarders_def plain_def by blast
qed

fun pairs_getopt :: "string list \<Rightarrow> (char \<times> string) list" where
  "pairs_getopt ([d, c] # v # args) = (c, v) # pairs_getopt args"
| "pairs_getopt _ = []"

definition sample_getopt :: "getopt" where
  "sample_getopt args = (pairs_getopt (tl args), False)"

lemma getopt_ok_sample: "getopt_ok sample_getopt"
proof -
  have "pairs_getopt (concat (map (\<lambda>(c, v). [[CHR ''-'', c], v]) opts)) = opts" for opts
    by (induction opts) (auto)
  then show ?thesis by (simp add: getopt_ok_def sample_getopt_def)
qed

definition pinned_store :: "store" where
  "pinned_store = Some (\<lambda>p. if p = forwarder_path 0 [] then Some ''9.9.9.9''
     else if p = forwarder_path 0 ''-pin'' then Some ''Bw=='' else None)"

theorem stored_pins_are_dropped_witness:
  "\<exists>parser' fs. loadForwarders pinned_store sample_platform sample_getopt
        ((new_ConfigParser unspec_addr False unspec_addr)\<lparr>cp_partialForwarder := empty_forwarder\<rparr>) = Some parser'
    \<and> cp_forwarders parser' = fs \<and> (\<forall>f \<in> set fs. host f = [] \<and> pin f = [])"
proof -
  have s: "string_of_nat 1 = ''1''" "string_of_nat 0 = ''0''" by code_simp+
  then have g: "getValue pinned_store (forwarder_path 1 []) = []"
    by (simp add: pinned_store_def getValue_def forwarder_path_def)
  let ?cp = "(new_ConfigParser unspec_addr False unspec_addr)\<lparr>cp_partialForwarder := empty_forwarder\<rparr>"
  have b: "base64_decode sample_platform [] = []" by (simp add: sample_platform_def)
  have e: "cp_partialForwarder ?cp = empty_forwarder" "cp_forwarders ?cp = []" by (simp_all add: new_ConfigParser_def)
  from stored_pins_are_dropped [OF getopt_ok_sample b g e(1)] show ?thesis unfolding e(2) by auto
qed

end
