(* ===== verification/Query_Path.thy ===== *)
theory Query_Path
  imports Sample_Run Dns_Wire
begin

text \<open>
  The way of a query through the program, from the datagram the server receives to the datagram that answers it, and
  what a failed start leaves behind.
\<close>

subsection \<open>Queries in and answers out\<close>

lemma frame_request_packet:
  assumes "length d \<le> 512"
  shows "data (frame_request d) = d" "valid (frame_request d) \<longleftrightarrow> 12 \<le> length d"
    "12 \<le> length d \<Longrightarrow> packet_length (frame_request d) = length d"
proof -
  have u: "unat (of_nat (length d) :: u16) = length d"
    using assms by (simp add: unat_of_nat)
  show "data (frame_request d) = d" by (simp add: data_def frame_request_def)
  show v: "valid (frame_request d) \<longleftrightarrow> 12 \<le> length d" by (simp add: valid_iff frame_request_def u)
  show "12 \<le> length d \<Longrightarrow> packet_length (frame_request d) = length d"
    using v packet_length_valid [of "frame_request d"] by (simp add: frame_request_def)
qed

lemma handleDnsRequest_takes:
  assumes "find (\<lambda>e. m_handle (fst e) = h) (s_servers s) = Some e"
    and "e_recvmsg env (w_tick (s_world s)) = Some m" and "\<not> rm_trunc m"
  shows "handleDnsRequest env h s = handleRequest env
    \<lparr>q_reply = \<lparr>rp_socket = h, rp_client = rm_from m, rp_server = fst (getDestinationAddress (rm_control m)),
       rp_interface = snd (getDestinationAddress (rm_control m))\<rparr>, q_request = frame_request (rm_data m)\<rparr>
    (s\<lparr>s_world := (s_world s)\<lparr>w_tick := Suc (w_tick (s_world s))\<rparr>\<rparr>)"
  using assms by (simp add: handleDnsRequest_def call_def split: prod.split)

lemma find_server:
  assumes "h \<in> set (socket_handles s)"
  obtains e where "find (\<lambda>e. m_handle (fst e) = h) (s_servers s) = Some e"
proof (cases "find (\<lambda>e. m_handle (fst e) = h) (s_servers s)")
  case None
  then show ?thesis using assms by (auto simp: find_None_iff socket_handles_def)
qed (blast intro: that)

text \<open>In every reachable state a datagram that arrives whole is taken as one query.\<close>

lemma datagram_taken:
  assumes "env_ok env" and "started env fs t m servers s0" and "reachable env s0 fds tmo s"
    and "h \<in> set (socket_handles s)"
    and "e_recvmsg env (w_tick (s_world s)) = Some dg" and "\<not> rm_trunc dg"
  shows "\<exists>s'. handleDnsRequest env h s = Some s' \<and> s_arrived s' = s_arrived s
    @ [\<lparr>q_reply = \<lparr>rp_socket = h, rp_client = rm_from dg, rp_server = fst (getDestinationAddress (rm_control dg)),
          rp_interface = snd (getDestinationAddress (rm_control dg))\<rparr>, q_request = frame_request (rm_data dg)\<rparr>]"
proof -
  have inv: "inv env s" using started_inv [OF assms(1,2)] reachable_step_ok [OF assms(3)] by blast
  then have ok: "sys_ok s" "sent_ok s" by (simp_all add: inv_def)
  obtain e where e: "find (\<lambda>e. m_handle (fst e) = h) (s_servers s) = Some e" using find_server [OF assms(4)] .
  let ?s1 = "s\<lparr>s_world := (s_world s)\<lparr>w_tick := Suc (w_tick (s_world s))\<rparr>\<rparr>"
  have "same_but_tick (s_world s) (s_world ?s1)" by (simp add: same_but_tick_def)
  then have "sys_ok ?s1" using sys_ok_call [OF ok(1), of "s_world ?s1" "s_sent s"] by simp
  moreover have "sent_ok ?s1" using ok(2) by (simp add: sent_ok_def)
  moreover have len: "length (rm_data dg) \<le> 512" using assms(1,5) by (simp add: env_ok_def)
  ultimately show ?thesis
    using handleRequest_ok [OF assms(1), of ?s1] handleDnsRequest_takes [OF e assms(5,6)]
      frame_request_packet [OF len] by fastforce
qed

text \<open>
  Property C15 (functional). A datagram that arrives on a server socket becomes exactly one query: the TCP framing of its
  bytes, which the packet wrapper accepts when it holds at least a DNS header and unframes to the same bytes, to be
  answered to its sender from the socket it came to, whether it is sent at once or has to wait.
\<close>

theorem datagram_becomes_query:
  assumes "env_ok env" and "started env fs t m servers s0" and "reachable env s0 fds tmo s"
    and "h \<in> set (socket_handles s)"
    and "e_recvmsg env (w_tick (s_world s)) = Some dg" and "\<not> rm_trunc dg"
  shows "\<exists>s' q. handleDnsRequest env h s = Some s' \<and> s_arrived s' = s_arrived s @ [q]
    \<and> data (q_request q) = rm_data dg \<and> (valid (q_request q) \<longleftrightarrow> 12 \<le> length (rm_data dg))
    \<and> (valid (q_request q) \<longrightarrow> packet_length (q_request q) = length (rm_data dg))
    \<and> rp_client (q_reply q) = rm_from dg \<and> rp_socket (q_reply q) = h
    \<and> (q_reply q = \<lparr>rp_socket = h, rp_client = rm_from dg, rp_server = fst (getDestinationAddress (rm_control dg)),
         rp_interface = snd (getDestinationAddress (rm_control dg))\<rparr>)"
proof -
  have "length (rm_data dg) \<le> 512" using assms(1,5) by (simp add: env_ok_def)
  from datagram_taken [OF assms] frame_request_packet [OF this] show ?thesis by fastforce
qed

theorem datagram_becomes_query_witness:
  "\<exists>s' q. handleDnsRequest busy_env 3 busy_two = Some s' \<and> s_arrived s' = s_arrived busy_two @ [q]
    \<and> data (q_request q) = [0, 7, 1, 0, 0, 1, 0, 0, 0, 0, 0, 0] \<and> valid (q_request q)"
proof -
  obtain fds tmo where r: "reachable busy_env sample_started fds tmo busy_two" using reachable_two by blast
  have h: "3 \<in> set (socket_handles busy_two)"
    by (simp add: socket_handles_def busy_two_def busy_one_def sample_started_def sample_server_entry_def)
  let ?dg = "\<lparr>rm_from = inet_addr 0x0A000001 4000, rm_control = [], rm_trunc = False,
       rm_data = [0, 7, 1, 0, 0, 1, 0, 0, 0, 0, 0, 0]\<rparr>"
  have m: "e_recvmsg busy_env (w_tick (s_world busy_two)) = Some ?dg" by (simp add: busy_env_def)
  have t: "\<not> rm_trunc ?dg" by simp
  from datagram_becomes_query [OF env_ok_busy started_sample r h m t] show ?thesis by (simp, blast)
qed

definition info4 :: "32 word \<Rightarrow> int \<Rightarrow> cmsg" where
  "info4 a i = \<lparr>cm_level = SOL_IP, cm_type = IP_PKTINFO, cm_addr4 = a, cm_addr6 = 0, cm_ifindex = i\<rparr>"

definition info6 :: "128 word \<Rightarrow> int \<Rightarrow> cmsg" where
  "info6 a i = \<lparr>cm_level = IPPROTO_IPV6, cm_type = IPV6_PKTINFO, cm_addr4 = 0, cm_addr6 = a, cm_ifindex = i\<rparr>"

lemma other_messages:
  assumes "\<forall>c \<in> set cs. cm_level c \<noteq> SOL_IP \<and> cm_level c \<noteq> IPPROTO_IPV6"
  shows "foldl (\<lambda>r m. control_message m r) r cs = r"
  using assms by (induction cs arbitrary: r) (simp_all add: control_message_def split: prod.splits)

text \<open>
  Property C34 (roundtrip). The packet information of an IPv4 query survives the way through the program: the answer to
  a query that came to address \<open>a\<close> on interface \<open>i\<close> goes to the sender with a control message that makes the system
  send it from \<open>a\<close> on \<open>i\<close>, whatever other control messages of other kinds came along.
\<close>

theorem ipv4_answer_from_queried_address:
  assumes "i \<noteq> -1" and "\<forall>c \<in> set (xs @ ys). cm_level c \<noteq> SOL_IP \<and> cm_level c \<noteq> IPPROTO_IPV6"
    and "ss_family client = AF_INET" and "getDestinationAddress (xs @ info4 a i # ys) = (dst, ifx)"
  shows "response_to \<lparr>rp_socket = h, rp_client = client, rp_server = dst, rp_interface = ifx\<rparr> payload
    = \<lparr>d_socket = h, d_to = client, d_tolen = 16, d_control = Some (info4 a i), d_data = payload\<rparr>"
proof -
  have "dst = unspec_addr\<lparr>sin_addr := a, ss_family := AF_INET\<rparr>" "ifx = i"
    using assms(2,4) other_messages by (auto simp: getDestinationAddress_def control_message_def info4_def SOL_IP_def IPPROTO_IPV6_def)
  then show ?thesis
    using assms(1,3) by (simp add: response_to_def client_length_def addSourceAddress_def info4_def)
qed

theorem ipv4_answer_from_queried_address_witness:
  "response_to \<lparr>rp_socket = 3, rp_client = inet_addr 5 53, rp_server = fst (getDestinationAddress [info4 7 2]),
      rp_interface = snd (getDestinationAddress [info4 7 2])\<rparr> [1]
    = \<lparr>d_socket = 3, d_to = inet_addr 5 53, d_tolen = 16, d_control = Some (info4 7 2), d_data = [1]\<rparr>"
proof -
  have "getDestinationAddress ([] @ info4 7 2 # []) = (fst (getDestinationAddress [info4 7 2]), snd (getDestinationAddress [info4 7 2]))"
    by simp
  from ipv4_answer_from_queried_address [OF _ _ _ this] show ?thesis by (simp add: inet_addr_def)
qed

text \<open>
  Property C35 (error). The packet information of an IPv6 query is lost: Linux delivers it as a control message of type
  \<open>IPV6_PKTINFO\<close>, the code looks for \<open>IPV6_RECVPKTINFO\<close>, the option that asks for it.  So in every reachable
  state a query that came to address \<open>a\<close> on interface \<open>i\<close> is taken without either, and whatever its answer is,
  it goes out without a control message and so with the address the system chooses; the sending half would have put the
  right one there, had the address been found.
\<close>

theorem ipv6_destination_is_lost:
  assumes "env_ok env" and "started env fs t m servers s0" and "reachable env s0 fds tmo s"
    and "h \<in> set (socket_handles s)"
    and "e_recvmsg env (w_tick (s_world s)) = Some dg" and "\<not> rm_trunc dg"
    and "rm_control dg = xs @ info6 a i # ys" and "\<forall>c \<in> set (xs @ ys). cm_level c \<noteq> SOL_IP \<and> cm_level c \<noteq> IPPROTO_IPV6"
  shows "(\<exists>s' q. handleDnsRequest env h s = Some s' \<and> s_arrived s' = s_arrived s @ [q]
      \<and> rp_server (q_reply q) = unspec_addr \<and> rp_interface (q_reply q) = -1
      \<and> (\<forall>payload. d_control (response_to (q_reply q) payload) = None))
    \<and> (\<forall>client payload. i \<noteq> -1 \<longrightarrow>
         d_control (response_to \<lparr>rp_socket = h, rp_client = client,
           rp_server = unspec_addr\<lparr>sin6_addr := a, ss_family := AF_INET6\<rparr>, rp_interface = i\<rparr> payload) = Some (info6 a i))"
proof -
  have "getDestinationAddress (rm_control dg) = (unspec_addr, -1)"
    using assms(7,8) other_messages [of xs] other_messages [of ys]
    by (simp add: getDestinationAddress_def control_message_def info6_def IPPROTO_IPV6_def SOL_IP_def IPV6_PKTINFO_def IPV6_RECVPKTINFO_def)
  with datagram_taken [OF assms(1-6)] obtain s' where
    s': "handleDnsRequest env h s = Some s'" "s_arrived s' = s_arrived s
      @ [\<lparr>q_reply = \<lparr>rp_socket = h, rp_client = rm_from dg, rp_server = unspec_addr, rp_interface = -1\<rparr>, q_request = frame_request (rm_data dg)\<rparr>]"
    by auto
  show ?thesis
    by (intro conjI exI, rule s'(1), rule s'(2)) (simp_all add: response_to_def addSourceAddress_def info6_def)
qed

definition ipv6_env :: env where
  "ipv6_env = calm_env\<lparr>e_ssl_connect := \<lambda>n. -1, e_ssl_error := \<lambda>n. SSL_ERROR_WANT_WRITE,
     e_recvmsg := \<lambda>n. Some \<lparr>rm_from = inet_addr 0x0A000001 4000, rm_control = [info6 7 2], rm_trunc = False,
       rm_data = [0, 7, 1, 0, 0, 1, 0, 0, 0, 0, 0, 0]\<rparr>\<rparr>"

theorem ipv6_destination_is_lost_witness:
  "\<exists>s' q. handleDnsRequest ipv6_env 3 sample_started = Some s' \<and> s_arrived s' = [q]
     \<and> d_control (response_to (q_reply q) [1]) = None"
proof -
  have ok: "env_ok ipv6_env" using env_ok_calm by (simp add: env_ok_def ipv6_env_def)
  have st: "started ipv6_env [forwarder_at 1, forwarder_at 2] 5 1 sample_servers sample_started"
    using started_calm [where d = "e_ssl_read calm_env" and e = "e_time calm_env"] by (simp add: ipv6_env_def)
  have "overdue 0 m_readFunctions (system_loop sample_started) = {}" "overdue 0 m_writeFunctions (system_loop sample_started) = {}"
    by (auto simp: overdue_def system_loop_def sample_started_def)
  then obtain fds tmo where "run_enter system_loop (exec ipv6_env) 0 sample_started = Some (fds, tmo, sample_started)"
    by (simp add: run_enter_def timeout_def timeout_map_quiet)
  note r = reachable.enter [OF this]
  have h: "3 \<in> set (socket_handles sample_started)"
    by (simp add: socket_handles_def sample_started_def sample_server_entry_def)
  let ?dg = "\<lparr>rm_from = inet_addr 0x0A000001 4000, rm_control = [] @ info6 7 2 # [], rm_trunc = False,
       rm_data = [0, 7, 1, 0, 0, 1, 0, 0, 0, 0, 0, 0]\<rparr>"
  have m: "e_recvmsg ipv6_env (w_tick (s_world sample_started)) = Some ?dg" "\<not> rm_trunc ?dg" by (simp_all add: ipv6_env_def)
  have "rm_control ?dg = [] @ info6 7 2 # []" by simp
  from ipv6_destination_is_lost [OF ok st r h m this] show ?thesis by (auto simp: sample_started_def)
qed

subsection \<open>The answer of a forwarder\<close>

definition answer_payload :: "bool \<Rightarrow> bytes \<Rightarrow> bytes list" where
  "answer_payload char_signed b =
     (if valid b then case removeEdnsPadding char_signed b of None \<Rightarrow> [] | Some (e, p) \<Rightarrow> [data p] else [])"

lemma handleIncoming_sends:
  assumes "valid b \<longrightarrow> removeEdnsPadding (e_char_signed env) b \<noteq> None"
  shows "\<exists>w. same_but_tick (s_world s) w \<and> handleIncoming env i r b s = Some (s\<lparr>s_world := w,
     s_sent := s_sent s @ map (\<lambda>d. (i, response_to r d)) (answer_payload (e_char_signed env) b)\<rparr>)"
proof (cases "valid b")
  case True
  with assms obtain e p where p: "removeEdnsPadding (e_char_signed env) b = Some (e, p)" by auto
  then have "valid p" using removeEdnsPadding_frame True by blast
  then have l: "packet_length p = length (data p)" by (simp add: packet_length_valid data_def)
  obtain x w where w: "call (e_sendmsg env) (s_world s) = (x, w)" by fastforce
  from True p l w same_but_tick_call [OF w] show ?thesis
    by (auto simp: handleIncoming_def answer_payload_def split: prod.splits)
next
  case False
  then show ?thesis by (auto simp: handleIncoming_def answer_payload_def intro!: exI [of _ "s_world s"])
qed

lemma on_incoming_sends:
  assumes env: "env_ok env" and ok: "sys_ok s" and i: "i \<in> set (s_forwarders s)"
    and c: "s_heap s i = Some c" "c_incoming c = Some r"
    and def: "valid b \<longrightarrow> removeEdnsPadding (e_char_signed env) b \<noteq> None"
  shows "\<exists>s'. on_incoming env i b s = Some s'
    \<and> s_sent s' = s_sent s @ map (\<lambda>d. (i, response_to r d)) (answer_payload (e_char_signed env) b)
    \<and> (\<forall>d. s_heap s' i = Some d \<longrightarrow> SHUTTING_DOWN \<le> c_state d)"
proof -
  from handleIncoming_sends [OF def, of s i r] obtain w where w: "same_but_tick (s_world s) w"
    and inc: "handleIncoming env i r b s = Some (s\<lparr>s_world := w,
      s_sent := s_sent s @ map (\<lambda>d. (i, response_to r d)) (answer_payload (e_char_signed env) b)\<rparr>)"
    (is "_ = Some ?s1") by blast
  have ok1: "sys_ok ?s1" using ok w by (rule sys_ok_call)
  have c1: "i \<in> set (s_forwarders ?s1)" "s_heap ?s1 i = Some c" using c i by simp_all
  have lv: "conn_ok i (conn_handle c) c (s_world ?s1)"
    using ok1 c1 by (auto simp: sys_ok_def pool_ok_def live_def)
  from fc_shutdown_ok [OF lv] obtain c' w' p where
    sd: "fc_shutdown env i c (s_world ?s1) = Some (c', w', p)" and m: "method_ok i (conn_handle c) c (s_world ?s1) (c', w', p)"
    by (metis prod_cases3)
  note late = fc_shutdown_state [OF lv sd]
  from finish_ok [OF env ok1 c1 m] late obtain s' where
    s': "finish env i (c', w', p) ?s1 = Some s'" "s_sent s' = s_sent ?s1" "only_changed i c' ?s1 s'" by auto
  have "on_incoming env i b s = Some s'" using inc c sd s'(1) by (simp add: on_incoming_def)
  moreover have "i < s_next s" using ok i pool_lt by (auto simp: sys_ok_def)
  then have "SHUTTING_DOWN \<le> c_state d" if "s_heap s' i = Some d" for d
    using that late s'(3) by (auto simp: only_changed_def)
  ultimately show ?thesis using s'(2) by simp
qed

text \<open>
  Property C5 (functional). What a client gets: in every reachable state, when an open connection reads an
  answer on which \<open>removeEdnsPadding\<close> is defined, the client of its query is sent exactly one datagram if the answer is a
  packet, the bytes behind the length field of what \<open>removeEdnsPadding\<close> returns, and none otherwise; and the connection
  is done, so it never reads another.  For a well-formed answer without an OPT record, or whose first one holds padding and
  nothing else, these bytes are the encoding of the same message with this record emptied.
\<close>

theorem answer_reaches_client:
  assumes "env_ok env" and "started env fs t m servers s0" and "reachable env s0 fds tmo s"
    and "s_heap s i = Some c" and "c_state c = OPEN" and "c_connection c = Some ssl"
    and "ssl_read env ssl (s_world s) = (SUCCESS, b, w)" and "b \<noteq> []"
    and "valid b \<longrightarrow> removeEdnsPadding (e_char_signed env) b = Some (edited, p)"
  shows "\<exists>s' q. conn_callback env i (Cb_incoming i) s = Some s' \<and> (i, q) \<in> set (s_started s)
    \<and> s_sent s' = s_sent s @ (if valid b then [(i, response_to (q_reply q) (data p))] else [])
    \<and> (\<forall>msg. b = frame (enc_body msg) \<and> wf_message msg \<and> only_padding msg \<longrightarrow>
         s_sent s' = s_sent s @ [(i, response_to (q_reply q) (enc_body (msg\<lparr>m_additional := empty_first_opt (m_additional msg)\<rparr>)))])
    \<and> (\<forall>d. s_heap s' i = Some d \<longrightarrow> c_state d = SHUTTING_DOWN \<or> c_state d = CLOSED)"
proof -
  have "inv env s" using started_inv [OF assms(1,2)] reachable_step_ok [OF assms(3)] by blast
  then have ok: "sys_ok s" by (simp add: inv_def)
  then have i: "i \<in> set (s_forwarders s)" using assms(4) by (auto simp: sys_ok_def)
  with ok assms(4) obtain r where lv: "conn_ok i (conn_handle c) c (s_world s)" and r: "c_incoming c = Some r"
    by (auto simp: sys_ok_def pool_ok_def live_def)
  from ok have "i < s_next s" using i pool_lt by (auto simp: sys_ok_def)
  then have "i \<in> set (map fst (s_started s))" using ok by (simp add: sys_ok_def hist_ok_def del: set_map)
  then obtain q where q: "(i, q) \<in> set (s_started s)" by auto
  then have rq: "r = q_reply q" using ok assms(4) r by (auto simp: sys_ok_def hist_ok_def)
  have run: "fc_run env i (Cb_incoming i) c (s_world s) = Some (c, w, Call_incoming b)"
    using assms(6-8) r by (simp add: fc_incoming_def)
  have reg: "handler (w_loop (s_world s)) Read (conn_handle c) = Some (Cb_incoming i, c_timeout c)"
    using lv assms(5) by (auto simp: conn_ok_def conn_core_def slot_def split: if_splits)
  from fc_run_ok [OF lv reg, of env] run have m: "method_ok i (conn_handle c) c (s_world s) (c, w, Call_incoming b)" by auto
  have keep: "conn_ok i (conn_handle c) c w" "w_open w = w_open (s_world s)"
      "footprint (conn_handle c) (s_world s) w" "kept c c"
    using m by (auto simp: method_ok_def conn_closed_def split: if_splits)
  note st = store_live [OF ok i assms(4) refl keep]
  let ?s1 = "store i c w s"
  have in1: "i \<in> set (s_forwarders ?s1)" "s_heap ?s1 i = Some c" using i by (simp_all add: store_def)
  have def: "valid b \<longrightarrow> removeEdnsPadding (e_char_signed env) b \<noteq> None" using assms(9) by auto
  from on_incoming_sends [OF assms(1) st(1) in1 r def] obtain s' where s': "on_incoming env i b ?s1 = Some s'"
    "s_sent s' = s_sent s @ map (\<lambda>d. (i, response_to r d)) (answer_payload (e_char_signed env) b)"
    "\<forall>d. s_heap s' i = Some d \<longrightarrow> SHUTTING_DOWN \<le> c_state d" by (auto simp: store_def)
  have "conn_callback env i (Cb_incoming i) s = Some s'"
    using assms(4) run s'(1) by (simp add: conn_callback_def)
  moreover have "c_state d = SHUTTING_DOWN \<or> c_state d = CLOSED" if "s_heap s' i = Some d" for d
    using s'(3) that by (cases "c_state d") auto
  moreover have "valid b \<and> data p = enc_body (msg\<lparr>m_additional := empty_first_opt (m_additional msg)\<rparr>)"
    if b: "b = frame (enc_body msg)" "wf_message msg" "only_padding msg" for msg
  proof -
    have "valid b" using getHeader_frame [OF b(2)] b(1) by (simp add: valid_def)
    moreover obtain e where "removeEdnsPadding (e_char_signed env) b
        = Some (e, frame (enc_body (msg\<lparr>m_additional := empty_first_opt (m_additional msg)\<rparr>)))"
      using removeEdnsPadding_only_padding [OF b(2,3)] b(1) by blast
    ultimately show ?thesis using assms(9) by (simp add: data_def frame_def short_def)
  qed
  ultimately show ?thesis
    using s'(2) q rq assms(9) by (auto simp: answer_payload_def)
qed

theorem answer_reaches_client_witness:
  "\<exists>s'. conn_callback open_env 0 (Cb_incoming 0) open_one = Some s'
    \<and> s_sent s' = [(0, response_to (q_reply busy_query) [0, 7, 0x81, 0x80, 0, 0, 0, 0, 0, 0, 0, 0])]"
proof -
  obtain fds tmo where r: "reachable open_env sample_started fds tmo open_one" using reachable_open by blast
  have h: "s_heap open_one 0 = Some open_conn" "c_state open_conn = OPEN"
    "c_connection open_conn = c_connection (busy_conn 0)" by (simp_all add: open_one_def open_conn_def)
  then obtain ssl where ssl: "c_connection open_conn = Some ssl" "m_ssl ssl" by (simp add: busy_conn_def)
  have rd: "ssl_read open_env ssl (s_world open_one) = (SUCCESS, answer_bytes, (s_world open_one)\<lparr>w_tick := 18\<rparr>)"
    using ssl(2) by (simp add: ssl_read_def doFunction_def call_def open_env_def open_one_def answer_bytes_def)
  have hd: "getHeader answer_bytes = Some \<lparr>h_length = 12, h_id = 7, h_flags = 0x8180, h_queries = 0, h_answers = 0,
      h_authorities = 0, h_additional = 0\<rparr>"
    by (simp add: getHeader_def answer_bytes_def be16_def)
  then have v: "valid answer_bytes \<longrightarrow> removeEdnsPadding (e_char_signed open_env) answer_bytes = Some (False, answer_bytes)"
    by (simp add: removeEdnsPadding_def)
  have st: "set (s_started open_one) = {(0, busy_query)}" "s_sent open_one = []"
    by (simp_all add: open_one_def sample_started_def)
  have n: "answer_bytes \<noteq> []" "valid answer_bytes" using hd by (simp_all add: answer_bytes_def valid_def)
  from answer_reaches_client [OF env_ok_open started_open r h(1,2) ssl(1) rd n(1) v] st n(2)
  show ?thesis by (auto simp: data_def answer_bytes_def)
qed

subsection \<open>A start that fails\<close>

lemma drop_servers_effect:
  assumes "loop_ok (w_loop w)" and "distinct (w_open w)"
    and "\<forall>e \<in> set es. snd e = \<lparr>r_handle = m_handle (fst e), r_type = Read\<rparr> \<and> m_handle (fst e) \<noteq> -1"
  shows "set (w_open (drop_servers es w)) = set (w_open w) - (\<lambda>e. m_handle (fst e)) ` set es
    \<and> (\<forall>t h. handler (w_loop (drop_servers es w)) t h
         = (if t = Read \<and> h \<in> (\<lambda>e. m_handle (fst e)) ` set es then None else handler (w_loop w) t h))"
  using assms
proof (induction es arbitrary: w)
  case (Cons e es)
  obtain k r where e: "e = (k, r)" by fastforce
  with Cons.prems(3) have r: "r = \<lparr>r_handle = m_handle k, r_type = Read\<rparr>" "m_handle k \<noteq> -1" by auto
  let ?w = "close_handle (m_handle k) (w\<lparr>w_loop := snd (reset r (w_loop w))\<rparr>)"
  have step: "drop_servers (e # es) w = drop_servers es ?w" using r(2) by (simp add: e socket_close_def)
  have "loop_ok (w_loop ?w)" "distinct (w_open ?w)"
    using Cons.prems(1,2) loop_ok_reset by (simp_all add: close_handle_def)
  from Cons.IH [OF this] Cons.prems(3) have ih: "set (w_open (drop_servers es ?w)) = set (w_open ?w) - (\<lambda>e. m_handle (fst e)) ` set es
    \<and> (\<forall>t h. handler (w_loop (drop_servers es ?w)) t h
         = (if t = Read \<and> h \<in> (\<lambda>e. m_handle (fst e)) ` set es then None else handler (w_loop ?w) t h))"
    by simp
  have "set (w_open ?w) = set (w_open w) - {m_handle k}"
    using Cons.prems(2) by (simp add: close_handle_def set_remove1_eq)
  moreover have "handler (w_loop ?w) t h = (if t = Read \<and> h = m_handle k then None else handler (w_loop w) t h)" for t h
    by (simp add: close_handle_def handler_reset r reg_valid_def install_apply)
  ultimately show ?case unfolding step using ih by (auto simp: e)
qed simp

definition plain_servers :: "system \<Rightarrow> bool" where
  "plain_servers s \<longleftrightarrow> s_forwarders s = [] \<and> s_watch s = None
     \<and> (\<forall>e \<in> set (s_servers s). snd e = \<lparr>r_handle = m_handle (fst e), r_type = Read\<rparr> \<and> m_handle (fst e) \<noteq> -1)"

lemma addServer_plain:
  assumes env: "env_ok env" and ok: "sys_ok s" and pl: "plain_servers s" and add: "addServer env a s = (b, s')"
  shows "plain_servers s'"
proof -
  obtain so w where bind: "Socket_bind env a UDP (s_world s) = (so, w)" by fastforce
  note op = Socket_bind_opens [OF env bind]
  show ?thesis
  proof (cases so)
    case None
    then show ?thesis using add pl by (auto simp: addServer_def bind plain_servers_def)
  next
    case (Some k)
    obtain e w1 where en: "enablePacketInfo env k w = (e, w1)" by fastforce
    have t1: "same_but_tick w w1" using en
      by (auto simp: enablePacketInfo_def call_def same_but_tick_def split: if_splits option.splits)
    have ho: "handlers_open (s_world s)" using ok by (simp add: sys_ok_def pool_ok_def)
    have h: "m_handle k \<notin> set (w_open (s_world s))" "m_handle k \<noteq> -1" "w_loop w1 = w_loop (s_world s)"
      using op Some t1 by (auto simp: opens_def same_but_tick_def)
    then have "handler (w_loop w1) Read (m_handle k) = None" "loop_ok (w_loop w1)"
      using ho by (simp_all add: handlers_open_def)
    then have "fst (registerRead (m_handle k) Cb_server 0 (w_loop w1)) = \<lparr>r_handle = m_handle k, r_type = Read\<rparr>"
      by (simp add: registerRead_def handler.simps)
    then show ?thesis
      using add pl h(2) by (auto simp: addServer_def bind Some en Let_def plain_servers_def move_construct_def split: prod.splits)
  qed
qed

lemma listen_all_plain:
  "env_ok env \<Longrightarrow> sys_ok s \<Longrightarrow> sent_ok s \<Longrightarrow> plain_servers s \<Longrightarrow> listen_all env as s = (b, s') \<Longrightarrow> plain_servers s'"
proof (induction as arbitrary: s b)
  case (Cons a as)
  obtain b1 s1 where 1: "addServer env a s = (b1, s1)" by fastforce
  obtain b2 s2 where 2: "listen_all env as s1 = (b2, s2)" by fastforce
  have "plain_servers s1" using addServer_plain [OF Cons.prems(1,2,4) 1] .
  moreover have "sys_ok s1" "sent_ok s1"
    using addServer_ok [OF Cons.prems(1-3) _ 1] Cons.prems(4) by (simp_all add: plain_servers_def)
  moreover have "listen_all env as s1 = (b2, s')" using Cons.prems(5) 1 2 by simp
  ultimately show ?case using Cons.IH Cons.prems(1) by blast
qed simp

text \<open>
  When a server address cannot be bound the program starts with nothing at all: every socket
  that was bound is closed again and every handler registered for one is out of the loop, which then
  returns at once.
\<close>

lemma failed_listen_leaves_nothing:
  assumes "env_ok env" and "listen env servers (new_dote fs t m) = (False, s)"
  shows "w_open (s_world s) = [] \<and> s_servers s = [] \<and> (\<forall>ty h. handler (system_loop s) ty h = None)
    \<and> populateFds (system_loop s) [] = []"
proof -
  obtain b s1 where l: "listen_all env servers (new_dote fs t m) = (b, s1)" by fastforce
  have d: "plain_servers (new_dote fs t m)" by (simp add: plain_servers_def new_dote_def new_system_def)
  note ok = listen_all_ok [OF assms(1) _ _ _ l] new_dote_ok [of fs t m] new_dote_fields(3) [of fs t m]
  have pl: "plain_servers s1" using listen_all_plain [OF assms(1) _ _ d l] new_dote_ok [of fs t m] by blast
  have s: "s = s1\<lparr>s_world := drop_servers (s_servers s1) (s_world s1), s_servers := []\<rparr>"
    using assms(2) l by (auto simp: listen_def split: if_splits)
  have pool: "pool_ok [] s1" using ok pl by (simp add: sys_ok_def plain_servers_def)
  then have p: "set (w_open (s_world s1)) = set (server_handles s1)" "distinct (w_open (s_world s1))"
    "loop_ok (w_loop (s_world s1))" by (simp_all add: pool_ok_def handlers_open_def)
  have gone: "(if ty = Read \<and> h \<in> set (server_handles s1) then None else handler (w_loop (s_world s1)) ty h) = None" for ty h
  proof (cases "h \<in> set (server_handles s1)")
    case True
    then show ?thesis using pool by (cases ty) (simp_all add: pool_ok_def system_loop_def server_ok_def)
  next
    case False
    have "handler (w_loop (s_world s1)) ty h \<noteq> None \<longrightarrow> h \<in> set (server_handles s1)"
      using pool by (simp add: pool_ok_def system_loop_def)
    with False show ?thesis by (cases "handler (w_loop (s_world s1)) ty h") auto
  qed
  have im: "(\<lambda>e. m_handle (fst e)) ` set (s_servers s1) = set (server_handles s1)"
    using pl by (simp add: server_handles_def socket_handles_def watch_handles_def plain_servers_def)
  note d = drop_servers_effect [OF p(3,2), of "s_servers s1", unfolded im]
  have e: "set (w_open (s_world s)) = {}" using d pl p(1) by (simp add: s plain_servers_def)
  have hn: "handler (system_loop s) ty h = None" for ty h
    using d pl gone [of ty h] by (simp add: s plain_servers_def system_loop_def)
  have "m_readFunctions (system_loop s) = []" "m_writeFunctions (system_loop s) = []" "m_exceptFunctions (system_loop s) = []"
    using hn [of Read] hn [of Write] hn [of Exception] by (simp_all add: handler.simps map_of_eq_empty_iff [symmetric] fun_eq_iff)
  then show ?thesis using e hn by (simp add: s populateFds_def popluateFds_def clearFds_def removeFds_def)
qed

end
