(* ===== verification/Process.thy ===== *)
theory Process
  imports Config_Facts
begin

text \<open>
  The parts of \<open>src/src/main.cpp\<close> that act on the process itself, dropping its privileges and becoming a
  daemon, and its PID file (\<open>src/src/pid_file.cpp\<close>).

  The process is a record: its open descriptors with the file behind each and the mode, the files it writes,
  its user ids with the saved one, its group id and the \<open>PR_SET_NO_NEW_PRIVS\<close> flag.  Sockets are left to the
  world of \<open>World\<close>.  The operating system is a record of functions from the number of the call to its answer,
  as there; a descriptor that is opened is the lowest that is free, as POSIX says.
\<close>

record process =
  p_tick :: nat
  p_table :: "(int \<times> string \<times> string) list"
  p_files :: "string \<Rightarrow> string option"
  p_ruid :: nat
  p_euid :: nat
  p_suid :: nat
  p_gid :: nat
  p_confined :: bool

record os =
  o_getpid :: "nat \<Rightarrow> int"
  o_open :: "nat \<Rightarrow> bool"
  o_lockf :: "nat \<Rightarrow> int"
  o_write :: "nat \<Rightarrow> string \<Rightarrow> int"
  o_unlink :: "nat \<Rightarrow> bool"
  o_fork :: "nat \<Rightarrow> int"
  o_setsid :: "nat \<Rightarrow> int"
  o_chdir :: "nat \<Rightarrow> int"
  o_fopen :: "nat \<Rightarrow> bool"
  o_setreuid :: "nat \<Rightarrow> int"
  o_prctl :: "nat \<Rightarrow> int"
  o_open_max :: int

definition ask :: "(nat \<Rightarrow> 'a) \<Rightarrow> process \<Rightarrow> 'a \<times> process" where
  "ask f p = (f (p_tick p), p\<lparr>p_tick := Suc (p_tick p)\<rparr>)"

definition lowest_free :: "int list \<Rightarrow> int" where
  "lowest_free hs = hd (filter (\<lambda>h. h \<notin> set hs) (map int [0..<Suc (length hs)]))"

definition open_file :: "string \<Rightarrow> string \<Rightarrow> process \<Rightarrow> int \<times> process" where
  "open_file path mode p =
     (let h = lowest_free (map fst (p_table p)) in (h, p\<lparr>p_table := (h, path, mode) # p_table p\<rparr>))"

definition close_file :: "int \<Rightarrow> process \<Rightarrow> process" where
  "close_file h p = p\<lparr>p_table := filter (\<lambda>e. fst e \<noteq> h) (p_table p)\<rparr>"

definition unlink_file :: "os \<Rightarrow> string \<Rightarrow> process \<Rightarrow> process" where
  "unlink_file os path p =
     (let (ok, p) = ask (o_unlink os) p in if ok then p\<lparr>p_files := (p_files p)(path := None)\<rparr> else p)"

subsection \<open>The PID file\<close>

record PidFile =
  pf_filename :: string
  pf_handle :: int

definition string_of_int :: "int \<Rightarrow> string" where
  "string_of_int i = (if i < 0 then CHR ''-'' # string_of_nat (nat (- i)) else string_of_nat (nat i))"

definition pid_contents :: "int \<Rightarrow> string" where
  "pid_contents pid = string_of_int pid @ [CHR 0x0A]"

text \<open>\<open>O_RDWR | O_CREAT\<close> makes an empty file when there is none and leaves the contents of one that exists; a
  write of n characters replaces the first n.\<close>

definition pid_open :: "os \<Rightarrow> string \<Rightarrow> process \<Rightarrow> int \<times> process" where
  "pid_open os filename p =
     (let (ok, p) = ask (o_open os) p in
      if \<not> ok then (-1, p)
      else let (h, p) = open_file filename ''r+'' p;
               p = (if p_files p filename = None then p\<lparr>p_files := (p_files p)(filename := Some [])\<rparr> else p);
               (r, p) = ask (o_lockf os) p
           in if r < 0 then (-1, close_file h p) else (h, p))"

definition pid_write :: "os \<Rightarrow> string \<Rightarrow> string \<Rightarrow> process \<Rightarrow> int \<times> process" where
  "pid_write os filename contents p =
     (let (n, p) = ask (\<lambda>t. o_write os t contents) p;
          old = (case p_files p filename of None \<Rightarrow> [] | Some old \<Rightarrow> old)
      in (n, p\<lparr>p_files := (p_files p)(filename := Some (take (nat n) contents @ drop (nat n) old))\<rparr>))"

definition new_PidFile :: "os \<Rightarrow> string \<Rightarrow> process \<Rightarrow> PidFile \<times> process" where
  "new_PidFile os filename p =
     (let (pid, p) = ask (o_getpid os) p;
          (h, p) = (if pid \<noteq> -1 \<and> filename \<noteq> [] then pid_open os filename p else (-1, p))
      in if h \<ge> 0 then
           let contents = pid_contents pid;
               (n, p) = pid_write os filename contents p
           in if n \<noteq> int (length contents)
              then (\<lparr>pf_filename = filename, pf_handle = -1\<rparr>, unlink_file os filename (close_file h p))
              else (\<lparr>pf_filename = filename, pf_handle = h\<rparr>, p)
         else (\<lparr>pf_filename = filename, pf_handle = h\<rparr>, p))"

definition delete_PidFile :: "os \<Rightarrow> PidFile \<Rightarrow> process \<Rightarrow> process" where
  "delete_PidFile os f p =
     (if pf_handle f \<ge> 0 then
        let (_, p) = ask (o_lockf os) p in unlink_file os (pf_filename f) (close_file (pf_handle f) p)
      else p)"

definition pf_valid :: "PidFile \<Rightarrow> bool" where
  "pf_valid f \<longleftrightarrow> pf_filename f = [] \<or> pf_handle f \<noteq> -1"

subsection \<open>Privileges\<close>

definition NOBODY :: nat where "NOBODY = 65534"

text \<open>\<open>setreuid\<close> with a real id sets the saved id to the new effective one.  A left value is the status of
  \<open>_exit\<close>.\<close>

definition setreuid :: "os \<Rightarrow> nat \<Rightarrow> process \<Rightarrow> int \<times> process" where
  "setreuid os uid p =
     (let (r, p) = ask (o_setreuid os) p in
      (r, if r = -1 then p else p\<lparr>p_ruid := uid, p_euid := uid, p_suid := uid\<rparr>))"

definition no_new_privs :: "os \<Rightarrow> process \<Rightarrow> process" where
  "no_new_privs os p = (let (r, p) = ask (o_prctl os) p in if r = 0 then p\<lparr>p_confined := True\<rparr> else p)"

definition dropPriviledges :: "os \<Rightarrow> process \<Rightarrow> int + process" where
  "dropPriviledges os p =
     (if p_euid p = 0 then
        let uid = p_ruid p;
            (r, p) = setreuid os (if uid = 0 then NOBODY else uid) p
        in if r = -1 then Inl 1 else Inr (no_new_privs os p)
      else Inr (no_new_privs os p))"

subsection \<open>Becoming a daemon\<close>

text \<open>What the process that the caller started, or the one that goes on, does: a left value is an exit.\<close>

definition fork_off :: "os \<Rightarrow> process \<Rightarrow> int + process" where
  "fork_off os p = (let (pid, p) = ask (o_fork os) p in if pid < 0 then Inl 1 else if pid > 0 then Inl 0 else Inr p)"

definition must :: "(nat \<Rightarrow> int) \<Rightarrow> process \<Rightarrow> int + process" where
  "must f p = (let (r, p) = ask f p in if r = -1 then Inl 1 else Inr p)"

definition reopen :: "os \<Rightarrow> string \<Rightarrow> process \<Rightarrow> process" where
  "reopen os mode p = (let (ok, p) = ask (o_fopen os) p in if ok then snd (open_file ''/dev/null'' mode p) else p)"

definition close_all :: "os \<Rightarrow> process \<Rightarrow> process" where
  "close_all os p = p\<lparr>p_table := filter (\<lambda>e. \<not> (0 < fst e \<and> fst e \<le> o_open_max os)) (p_table p)\<rparr>"

definition daemonise :: "os \<Rightarrow> process \<Rightarrow> int + process" where
  "daemonise os p =
     (case fork_off os p of Inl code \<Rightarrow> Inl code | Inr p \<Rightarrow>
      (case must (o_setsid os) p of Inl code \<Rightarrow> Inl code | Inr p \<Rightarrow>
      (case fork_off os p of Inl code \<Rightarrow> Inl code | Inr p \<Rightarrow>
      (case must (o_chdir os) p of Inl code \<Rightarrow> Inl code | Inr p \<Rightarrow>
         Inr (reopen os ''w+'' (reopen os ''w+'' (reopen os ''r'' (close_all os p))))))))"

subsection \<open>Properties of the process\<close>

lemma lowest_free: "0 \<le> lowest_free hs \<and> lowest_free hs \<notin> set hs"
proof -
  have "filter (\<lambda>h. h \<notin> set hs) (map int [0..<Suc (length hs)]) \<noteq> []"
  proof
    assume "filter (\<lambda>h. h \<notin> set hs) (map int [0..<Suc (length hs)]) = []"
    then have "set (map int [0..<Suc (length hs)]) \<subseteq> set hs" unfolding filter_empty_conv by blast
    then have "card (set (map int [0..<Suc (length hs)])) \<le> length hs" by (meson card_length card_mono le_trans List.finite_set)
    moreover have "card (set (map int [0..<Suc (length hs)])) = Suc (length hs)"
      by (simp add: card_image del: upt_Suc)
    ultimately show False by simp
  qed
  then have "lowest_free hs \<in> set (filter (\<lambda>h. h \<notin> set hs) (map int [0..<Suc (length hs)]))"
    unfolding lowest_free_def by (rule hd_in_set)
  then show ?thesis by (auto simp del: upt_Suc)
qed

lemma unlink_table [simp]: "p_table (unlink_file os path p) = p_table p"
  by (simp add: unlink_file_def ask_def Let_def)

definition old_contents :: "string \<Rightarrow> process \<Rightarrow> string" where
  "old_contents filename p = (case p_files p filename of None \<Rightarrow> [] | Some old \<Rightarrow> old)"

lemma pid_open_cases:
  assumes "pid_open os filename p = (h, p')"
  shows "h = -1 \<and> p_table p' = p_table p \<or>
    0 \<le> h \<and> h \<notin> fst ` set (p_table p) \<and> p_table p' = (h, filename, ''r+'') # p_table p
    \<and> p_files p' = (p_files p)(filename \<mapsto> old_contents filename p)"
proof (cases "o_open os (p_tick p)")
  case False
  then show ?thesis using assms by (auto simp: pid_open_def ask_def)
next
  case True
  let ?h = "lowest_free (map fst (p_table p))"
  have h: "0 \<le> ?h" "?h \<notin> fst ` set (p_table p)" using lowest_free [of "map fst (p_table p)"] by simp_all
  have f: "filter (\<lambda>e. fst e \<noteq> ?h) (p_table p) = p_table p" using h(2) by (intro filter_True) force
  show ?thesis
    using assms True h f
    by (auto simp: pid_open_def ask_def open_file_def close_file_def old_contents_def Let_def fun_upd_idem split: if_splits)
qed

lemma new_PidFile_effect:
  assumes "new_PidFile os filename p = (f, p')" and "filename \<noteq> []"
  shows "if pf_valid f
    then 0 \<le> pf_handle f \<and> pf_handle f \<notin> fst ` set (p_table p) \<and> p_table p' = (pf_handle f, filename, ''r+'') # p_table p
      \<and> (let line = pid_contents (o_getpid os (p_tick p))
          in p_files p' filename = Some (line @ drop (length line) (old_contents filename p)))
    else p_table p' = p_table p"
proof -
  let ?pid = "o_getpid os (p_tick p)" and ?p = "p\<lparr>p_tick := Suc (p_tick p)\<rparr>"
  let ?line = "pid_contents ?pid"
  obtain h p1 where o: "(if ?pid \<noteq> -1 then pid_open os filename ?p else (-1, ?p)) = (h, p1)" by fastforce
  have c: "h = -1 \<and> p_table p1 = p_table p \<or> 0 \<le> h \<and> h \<notin> fst ` set (p_table p)
      \<and> p_table p1 = (h, filename, ''r+'') # p_table p \<and> old_contents filename p1 = old_contents filename p"
    using o pid_open_cases [of os filename ?p h p1] by (auto simp: old_contents_def split: if_splits)
  obtain n p2 where w: "pid_write os filename ?line p1 = (n, p2)" by fastforce
  then have p2: "p_table p2 = p_table p1"
    "p_files p2 filename = Some (take (nat n) ?line @ drop (nat n) (old_contents filename p1))"
    by (auto simp: pid_write_def ask_def old_contents_def Let_def)
  have new: "new_PidFile os filename p = (if h < 0 then (\<lparr>pf_filename = filename, pf_handle = h\<rparr>, p1)
      else if n \<noteq> int (length ?line)
      then (\<lparr>pf_filename = filename, pf_handle = -1\<rparr>, unlink_file os filename (close_file h p2))
      else (\<lparr>pf_filename = filename, pf_handle = h\<rparr>, p2))"
    using assms(2) o by (auto simp: new_PidFile_def ask_def w split: if_splits)
  consider "h < 0" | "h \<ge> 0" "n = int (length ?line)" | "h \<ge> 0" "n \<noteq> int (length ?line)" by linarith
  then show ?thesis
  proof cases
    case 1
    with new c assms show ?thesis by (auto simp: pf_valid_def)
  next
    case 2
    with new assms(1) have "f = \<lparr>pf_filename = filename, pf_handle = h\<rparr>" "p' = p2" by auto
    with 2 c p2 show ?thesis by (auto simp: pf_valid_def Let_def)
  next
    case 3
    with new assms(1) have f: "f = \<lparr>pf_filename = filename, pf_handle = -1\<rparr>"
      "p' = unlink_file os filename (close_file h p2)" by auto
    from 3 c have "filter (\<lambda>e. fst e \<noteq> h) (p_table p) = p_table p" by (intro filter_True) force
    with f 3 c p2 assms(2) show ?thesis by (auto simp: pf_valid_def close_file_def)
  qed
qed

text \<open>
  Property C39 (functional). Writing the PID file: if it succeeds, a new descriptor is open on the file, which holds the PID and
  a newline and behind them what was left of an older, longer file, which is not truncated.  If it fails, no
  descriptor is left open.
\<close>

theorem pid_file_exact:
  assumes "new_PidFile os filename p = (f, p')" and "filename \<noteq> []"
  shows "if pf_valid f
    then 0 \<le> pf_handle f \<and> pf_handle f \<notin> fst ` set (p_table p) \<and> p_table p' = (pf_handle f, filename, ''r+'') # p_table p
      \<and> (let line = pid_contents (o_getpid os (p_tick p))
          in p_files p' filename = Some (line @ drop (length line) (old_contents filename p)))
    else p_table p' = p_table p"
  using assms by (rule new_PidFile_effect)

definition sample_os :: os where
  "sample_os = \<lparr>o_getpid = \<lambda>n. 42, o_open = \<lambda>n. True, o_lockf = \<lambda>n. 0, o_write = \<lambda>n s. int (length s), o_unlink = \<lambda>n. True,
     o_fork = \<lambda>n. 0, o_setsid = \<lambda>n. 7, o_chdir = \<lambda>n. 0, o_fopen = \<lambda>n. True, o_setreuid = \<lambda>n. 0, o_prctl = \<lambda>n. 0,
     o_open_max = 1024\<rparr>"

definition root_process :: process where
  "root_process = \<lparr>p_tick = 0, p_table = [(0, ''tty'', ''r+''), (1, ''tty'', ''r+''), (2, ''tty'', ''r+'')],
     p_files = [''pid'' \<mapsto> ''12345'' @ [CHR 0x0A]], p_ruid = 0, p_euid = 0, p_suid = 0, p_gid = 0, p_confined = False\<rparr>"

theorem pid_file_exact_witness:
  "p_files (snd (new_PidFile sample_os ''pid'' root_process)) ''pid'' \<noteq> Some (pid_contents 42)"
proof -
  obtain f p' where n: "new_PidFile sample_os ''pid'' root_process = (f, p')" by fastforce
  have "string_of_nat 42 = ''42''" by code_simp
  then have l: "pid_contents 42 = ''42'' @ [CHR 0x0A]" by (simp add: pid_contents_def string_of_int_def)
  have "lowest_free [0, 1, 2] = 3" by code_simp
  with l n have v: "pf_valid f"
    by (auto simp: new_PidFile_def sample_os_def root_process_def ask_def pid_open_def open_file_def pid_write_def pf_valid_def Let_def)
  have "length (old_contents ''pid'' root_process) = 6" "o_getpid sample_os (p_tick root_process) = 42"
    by (simp_all add: old_contents_def root_process_def sample_os_def)
  with pid_file_exact [OF n] v l show ?thesis by (simp add: n)
qed

lemma dropPriviledges_user:
  assumes "dropPriviledges os p = Inr p'" and "p_euid p = 0"
  shows "p_euid p' \<noteq> 0 \<and> p_ruid p' = p_euid p' \<and> p_suid p' = p_euid p' \<and> p_gid p' = p_gid p"
  using assms by (auto simp: dropPriviledges_def setreuid_def no_new_privs_def ask_def NOBODY_def Let_def split: if_splits)

text \<open>
  Property C40 (error). A daemon keeps the terminal: descriptor 0 is the one that is not closed, so the three streams
  are opened one place further on, and descriptor 1, the standard output, is open for reading only.
\<close>

theorem daemon_keeps_terminal:
  assumes "daemonise os p = Inr p'" and "filter (\<lambda>e. \<not> (0 < fst e \<and> fst e \<le> o_open_max os)) (p_table p) = [(0, terminal, mode)]"
    and "\<And>n. o_fopen os n"
  shows "p_table p' = [(3, ''/dev/null'', ''w+''), (2, ''/dev/null'', ''w+''), (1, ''/dev/null'', ''r''), (0, terminal, mode)]"
proof -
  from assms(1) obtain q where p': "p' = reopen os ''w+'' (reopen os ''w+'' (reopen os ''r'' (close_all os q)))"
    and q: "p_table q = p_table p"
    by (auto simp: daemonise_def fork_off_def must_def ask_def Let_def split: sum.splits if_splits)
  have "lowest_free [0] = 1" "lowest_free [1, 0] = 2" "lowest_free [2, 1, 0] = 3" by code_simp+
  with assms(2,3) q show ?thesis
    by (simp add: p' reopen_def close_all_def ask_def open_file_def Let_def)
qed

theorem daemon_keeps_terminal_witness:
  "\<exists>p'. daemonise sample_os root_process = Inr p' \<and>
     p_table p' = [(3, ''/dev/null'', ''w+''), (2, ''/dev/null'', ''w+''), (1, ''/dev/null'', ''r''), (0, ''tty'', ''r+'')]"
proof -
  have "\<exists>p'. daemonise sample_os root_process = Inr p'"
    by (simp add: daemonise_def fork_off_def must_def ask_def sample_os_def)
  then obtain p' where "daemonise sample_os root_process = Inr p'" ..
  with daemon_keeps_terminal [OF this, of "''tty''" "''r+''"] show ?thesis by (simp add: sample_os_def root_process_def)
qed

end
