(* ===== verification/Hostname_Verifier.thy ===== *)
theory Hostname_Verifier
  imports Addresses
begin

text \<open>
  \<open>src/src/openssl/hostname_verifier.cpp\<close>: does a certificate belong to a host.  The certificate is
  OpenSSL's; \<open>certificate\<close> holds what the program asks it for.  \<open>None\<close> as a result is an access
  behind the name's last byte.
\<close>

subsection \<open>Names\<close>

definition lower :: "char \<Rightarrow> char" where
  "lower c = (if of_char CHR ''A'' < (of_char c :: nat) \<and> (of_char c :: nat) < of_char CHR ''Z''
              then char_of ((of_char c :: nat) + (of_char CHR ''a'' - of_char CHR ''A'')) else c)"

definition matchChar :: "char \<Rightarrow> char \<Rightarrow> bool" where
  "matchChar a b \<longleftrightarrow> lower a = lower b"

text \<open>The loop of \<open>checkHostname\<close>: where it stops in the certificate's name and in the host name, and
  the dots it has passed.\<close>

fun match_back :: "string \<Rightarrow> string \<Rightarrow> nat \<Rightarrow> nat \<Rightarrow> nat \<Rightarrow> nat \<times> nat \<times> nat" where
  "match_back hostname name (Suc certLength) (Suc hostLength) dotCount =
     (if \<not> matchChar (hostname ! hostLength) (name ! certLength) then (certLength, hostLength, dotCount)
      else match_back hostname name certLength hostLength
             (if name ! certLength = CHR ''.'' then Suc dotCount else dotCount))"
| "match_back hostname name certLength hostLength dotCount = (certLength, hostLength, dotCount)"

definition char_at :: "string \<Rightarrow> nat \<Rightarrow> char option" where
  "char_at s i = (if i < length s then Some (s ! i) else None)"

text \<open>What follows the loop.\<close>

definition verdict :: "string \<Rightarrow> nat \<Rightarrow> nat \<Rightarrow> nat \<Rightarrow> bool option" where
  "verdict name certLength hostLength dotCount =
     (if certLength = 0 \<and> hostLength = 0 then Some True
      else do {
        c \<leftarrow> char_at name certLength;
        d \<leftarrow> (if c = CHR ''*'' then char_at name (certLength + 1) else Some c);
        Some (if c = CHR ''*'' \<and> d = CHR ''.'' then 2 \<le> dotCount else False)
      })"

definition checkHostname :: "string \<Rightarrow> string \<Rightarrow> bool option" where
  "checkHostname hostname name =
     (if CHR 0x00 \<in> set name then Some False
      else if name = [] then Some False
      else case match_back hostname name (length name) (length hostname) 0 of
        (certLength, hostLength, dotCount) \<Rightarrow>
          verdict name certLength hostLength dotCount)"

subsection \<open>Certificates\<close>

datatype general_name = GEN_DNS string | GEN_OTHER

text \<open>The subject alternative names or a null pointer, the common name entry, whose string may be
  null, or none, and the digests of the certificate and of its public key, which may fail.\<close>

record certificate =
  x_san :: "general_name list option"
  x_cn :: "string option option"
  x_digest :: "bytes option"
  x_pubkey_digest :: "bytes option"

record HostnameVerifier =
  m_sanNames :: "general_name list option"
  m_commonName :: "string option option"

definition new_HostnameVerifier :: "certificate \<Rightarrow> HostnameVerifier" where
  "new_HostnameVerifier x =
     (case x_san x of
        Some names \<Rightarrow> \<lparr>m_sanNames = Some names, m_commonName = None\<rparr>
      | None \<Rightarrow> \<lparr>m_sanNames = None, m_commonName = x_cn x\<rparr>)"

text \<open>The string of a name is passed on with its length.\<close>

definition isNameValid :: "string \<Rightarrow> string \<Rightarrow> bool option" where
  [simp]: "isNameValid name hostname = checkHostname hostname name"

fun isSanValid :: "general_name list \<Rightarrow> string \<Rightarrow> bool option" where
  "isSanValid [] hostname = Some False"
| "isSanValid (GEN_DNS name # names) hostname =
     do { ok \<leftarrow> isNameValid name hostname; if ok then Some True else isSanValid names hostname }"
| "isSanValid (GEN_OTHER # names) hostname = isSanValid names hostname"

definition isCnValid :: "string option \<Rightarrow> string \<Rightarrow> bool option" where
  "isCnValid commonName hostname =
     (case commonName of Some name \<Rightarrow> isNameValid name hostname | None \<Rightarrow> Some False)"

definition isValid :: "HostnameVerifier \<Rightarrow> string \<Rightarrow> bool option" where
  "isValid v hostname =
     (if hostname = [] then Some True
      else case m_sanNames v of
        Some names \<Rightarrow> isSanValid names hostname
      | None \<Rightarrow> (case m_commonName v of
          Some cn \<Rightarrow> isCnValid cn hostname
        | None \<Rightarrow> Some False))"

subsection \<open>What the loop finds\<close>

definition agree :: "string \<Rightarrow> string \<Rightarrow> bool" where
  "agree a b \<longleftrightarrow> list_all2 matchChar a b"

definition dots :: "string \<Rightarrow> nat" where
  "dots s = count_list s CHR ''.''"

lemma agree_Nil [simp]: "agree [] b \<longleftrightarrow> b = []" "agree a [] \<longleftrightarrow> a = []"
  by (simp_all add: agree_def)

lemma agree_Cons [simp]: "agree (x # a) (y # b) \<longleftrightarrow> matchChar x y \<and> agree a b"
  by (simp add: agree_def)

lemma agree_length: "agree a b \<Longrightarrow> length a = length b"
  by (simp add: agree_def list_all2_lengthD)

lemma agree_append: "length a = length b \<Longrightarrow> agree (a @ c) (b @ d) \<longleftrightarrow> agree a b \<and> agree c d"
  by (simp add: agree_def list_all2_append)

lemma match_back_le: "match_back hostname name c h d = (c', h', d') \<Longrightarrow> c' \<le> c"
  by (induction hostname name c h d rule: match_back.induct) (auto split: if_splits)

lemma match_back_spec:
  assumes "match_back hostname name c h d = (c', h', d')" and "c \<le> length name" and "h \<le> length hostname"
  shows "\<exists>u v. agree u v \<and> d' = d + dots v \<and>
    ((c' = 0 \<or> h' = 0) \<and> take h hostname = take h' hostname @ u \<and> take c name = take c' name @ v
     \<or> (\<not> matchChar (hostname ! h') (name ! c') \<and> h' < h \<and> c' < c
        \<and> take h hostname = take (Suc h') hostname @ u \<and> take c name = take (Suc c') name @ v))"
  using assms
proof (induction hostname name c h d rule: match_back.induct)
  case (1 hostname name c h d)
  show ?case
  proof (cases "matchChar (hostname ! h) (name ! c)")
    case True
    then have "match_back hostname name c h (if name ! c = CHR ''.'' then Suc d else d) = (c', h', d')"
      using 1(2) by simp
    from "1.IH" [OF _ this] True 1(3,4) obtain u v where uv: "agree u v"
      "d' = (if name ! c = CHR ''.'' then Suc d else d) + dots v"
      "(c' = 0 \<or> h' = 0) \<and> take h hostname = take h' hostname @ u \<and> take c name = take c' name @ v
       \<or> (\<not> matchChar (hostname ! h') (name ! c') \<and> h' < h \<and> c' < c
          \<and> take h hostname = take (Suc h') hostname @ u \<and> take c name = take (Suc c') name @ v)"
      by auto
    have "agree (u @ [hostname ! h]) (v @ [name ! c])"
      using uv(1) True agree_length [OF uv(1)] by (simp add: agree_append)
    moreover have "d' = d + dots (v @ [name ! c])" using uv(2) by (simp add: dots_def)
    moreover have "take (Suc h) hostname = take h hostname @ [hostname ! h]"
      "take (Suc c) name = take c name @ [name ! c]"
      using 1(3,4) by (simp_all add: take_Suc_conv_app_nth)
    ultimately show ?thesis using uv(3) by (intro exI [of _ "u @ [hostname ! h]"] exI [of _ "v @ [name ! c]"]) auto
  next
    case False
    then show ?thesis using 1(2) by (intro exI [of _ "[]"]) (auto simp: dots_def)
  qed
qed (auto simp: dots_def intro!: exI [of _ "[]"])

lemma of_char_lower:
  "(of_char (lower c) :: nat) = (if 65 < (of_char c :: nat) \<and> (of_char c :: nat) < 90 then of_char c + 32 else of_char c)"
  by (simp add: lower_def)

lemma matchChar_star: "matchChar c CHR ''*'' \<longleftrightarrow> c = CHR ''*''"
proof
  assume "matchChar c CHR ''*''"
  then have "(of_char (lower c) :: nat) = of_char CHR ''*''" by (simp add: matchChar_def lower_def)
  then have "(of_char c :: nat) = of_char CHR ''*''" by (auto simp: of_char_lower split: if_splits)
  then show "c = CHR ''*''" by (simp only: of_char_eq_iff)
qed (simp add: matchChar_def)

lemma agree_no_star: "agree u v \<Longrightarrow> CHR ''*'' \<notin> set u \<Longrightarrow> CHR ''*'' \<notin> set v"
proof (induction u arbitrary: v)
  case (Cons x u)
  then show ?case by (cases v) (auto simp: matchChar_star)
qed simp

text \<open>What the code takes for the same name: the first characters are not compared.\<close>

definition same_but_first :: "string \<Rightarrow> string \<Rightarrow> bool" where
  "same_but_first hostname name \<longleftrightarrow> length hostname = length name \<and> agree (tl hostname) (tl name)"

text \<open>A wildcard that covers a host name: whatever stands in front of the star, it stands for any
  characters, dots included, followed by a domain with at least two dots.\<close>

definition wildcard_for :: "string \<Rightarrow> string \<Rightarrow> bool" where
  "wildcard_for hostname name \<longleftrightarrow>
     (\<exists>pre suf label rest. name = pre @ CHR ''*'' # suf \<and> hostname = label @ rest \<and> label \<noteq> []
        \<and> agree rest suf \<and> suf \<noteq> [] \<and> hd suf = CHR ''.'' \<and> 2 \<le> dots suf)"

lemma append_split_at:
  assumes "xs @ ys = zs @ ws" and "length ws \<le> length ys"
  obtains ts where "ys = ts @ ws" "zs = xs @ ts"
proof -
  have "length xs \<le> length zs" using arg_cong [OF assms(1), of length] assms(2) by simp
  with assms(1) that show ?thesis by (auto simp: append_eq_append_conv2)
qed

lemma wildcard_at_mismatch:
  assumes "agree u v" and "CHR ''*'' \<notin> set u" and "\<not> matchChar y x"
  shows "wildcard_for (B @ y # u) (A @ x # v) \<longleftrightarrow> x = CHR ''*'' \<and> v \<noteq> [] \<and> hd v = CHR ''.'' \<and> 2 \<le> dots v"
proof
  assume "wildcard_for (B @ y # u) (A @ x # v)"
  then obtain pre suf label rest where w: "A @ x # v = pre @ CHR ''*'' # suf" "B @ y # u = label @ rest"
    "agree rest suf" "suf \<noteq> []" "hd suf = CHR ''.''" "2 \<le> dots suf" by (auto simp: wildcard_for_def)
  have nv: "CHR ''*'' \<notin> set v" using agree_no_star assms(1,2) .
  have len: "length u = length v" "length rest = length suf" using agree_length assms(1) w(3) by auto
  consider "length suf < length v" | "length suf = length v" | "length v < length suf" by linarith
  then show "x = CHR ''*'' \<and> v \<noteq> [] \<and> hd v = CHR ''.'' \<and> 2 \<le> dots v"
  proof cases
    case 1
    have "(A @ [x]) @ v = pre @ CHR ''*'' # suf" using w(1) by simp
    then obtain ts where "v = ts @ CHR ''*'' # suf" by (rule append_split_at) (use 1 in simp)
    then show ?thesis using nv by simp
  next
    case 2
    then show ?thesis using w(1,4-6) by auto
  next
    case 3
    have "(pre @ [CHR ''*'']) @ suf = A @ x # v" using w(1) by simp
    then obtain ts where ts: "suf = ts @ x # v" by (rule append_split_at) (use 3 in simp)
    have "label @ rest = B @ y # u" using w(2) by simp
    then obtain us where us: "rest = us @ y # u" by (rule append_split_at) (use 3 len in simp)
    have "length us = length ts" using len ts us by simp
    then have "matchChar y x" using w(3) by (simp add: ts us agree_append)
    then show ?thesis using assms(3) by simp
  qed
next
  assume "x = CHR ''*'' \<and> v \<noteq> [] \<and> hd v = CHR ''.'' \<and> 2 \<le> dots v"
  then show "wildcard_for (B @ y # u) (A @ x # v)"
    unfolding wildcard_for_def using assms(1)
    by (intro exI [of _ A] exI [of _ v] exI [of _ "B @ [y]"] exI [of _ u]) simp
qed

lemma no_wildcard_without_star: "CHR ''*'' \<notin> set name \<Longrightarrow> \<not> wildcard_for hostname name"
  by (auto simp: wildcard_for_def)

lemma no_wildcard_longer:
  assumes "agree hostname v" and "CHR ''*'' \<notin> set hostname"
  shows "\<not> wildcard_for hostname (A @ v)"
proof
  assume "wildcard_for hostname (A @ v)"
  then obtain pre suf label rest where w: "A @ v = pre @ CHR ''*'' # suf" "hostname = label @ rest"
    "label \<noteq> []" "agree rest suf" by (auto simp: wildcard_for_def)
  have "length (CHR ''*'' # suf) \<le> length v"
    using agree_length [OF assms(1)] agree_length [OF w(4)] w(2,3) by (cases label) auto
  with w(1) obtain ts where "v = ts @ CHR ''*'' # suf" by (rule append_split_at)
  then show False using agree_no_star [OF assms] by simp
qed

lemma same_but_first_mismatch:
  assumes "agree u v" and "\<not> matchChar y x" and "A \<noteq> [] \<or> B \<noteq> []"
  shows "\<not> same_but_first (B @ y # u) (A @ x # v)"
proof
  assume s: "same_but_first (B @ y # u) (A @ x # v)"
  then have l: "length B = length A" using agree_length [OF assms(1)] by (simp add: same_but_first_def)
  with assms(3) obtain a A' b B' where "A = a # A'" "B = b # B'" by (cases A; cases B) auto
  with s l show False using assms(1,2) by (simp add: same_but_first_def agree_append)
qed

text \<open>The three ways the loop can end: at the start of the certificate's name, at the start of the host name, or at
  two characters that differ.\<close>

lemma same_if_agree: "agree hostname name \<Longrightarrow> same_but_first hostname name"
  by (cases hostname; cases name) (auto simp: same_but_first_def dest: agree_length)

lemma verdict_name_used_up:
  assumes "agree u name" and "hostname = take h hostname @ u" and "name \<noteq> []" and "CHR ''*'' \<notin> set hostname"
  shows "verdict name 0 h d = Some True \<longleftrightarrow> same_but_first hostname name \<or> wildcard_for hostname name"
proof (cases "h = 0")
  case True
  then have "hostname = u" using assms(2) by (metis append_Nil take0)
  then show ?thesis using True assms(1) same_if_agree by (simp add: verdict_def)
next
  case False
  have "set u \<subseteq> set hostname" using assms(2) by (metis Un_upper2 set_append)
  then have ns: "CHR ''*'' \<notin> set name" using agree_no_star [OF assms(1)] assms(4) by blast
  have "u \<noteq> []" using assms(1,3) by auto
  then have "hostname \<noteq> []" using assms(2) by (metis append_is_Nil_conv)
  then have "take h hostname \<noteq> []" using False by simp
  with assms(2) obtain B where B: "hostname = B @ u" "B \<noteq> []" by metis
  have "\<not> same_but_first hostname name"
    unfolding B(1) using B(2) agree_length [OF assms(1)] by (auto simp: same_but_first_def)
  moreover have "name ! 0 \<noteq> CHR ''*''" using ns assms(3) by (metis length_greater_0_conv nth_mem)
  ultimately show ?thesis using False no_wildcard_without_star [OF ns] assms(3) by (auto simp: verdict_def char_at_def)
qed

lemma verdict_host_used_up:
  assumes "agree hostname v" and "name = take c name @ v" and "hostname \<noteq> []" and "CHR ''*'' \<notin> set hostname"
  shows "verdict name c 0 d = Some True \<longleftrightarrow> same_but_first hostname name \<or> wildcard_for hostname name"
proof (cases "c = 0")
  case True
  then have "name = v" using assms(2) by (metis append_Nil take0)
  then show ?thesis using True assms(1) same_if_agree by (simp add: verdict_def)
next
  case False
  have ns: "CHR ''*'' \<notin> set v" using agree_no_star [OF assms(1,4)] .
  have v: "v \<noteq> []" "v = drop c name" using assms by (auto, metis append_take_drop_id same_append_eq)
  then have cl: "c < length name" by simp
  then have "name ! c = hd v" using v by (simp add: hd_drop_conv_nth)
  then have "name ! c \<noteq> CHR ''*''" using ns v(1) by (metis list.set_sel(1))
  moreover have "\<not> same_but_first hostname name"
    using agree_length [OF assms(1)] v(2) cl False by (auto simp: same_but_first_def)
  moreover have "\<not> wildcard_for hostname name"
    using no_wildcard_longer [OF assms(1,4), of "take c name"] assms(2) by simp
  ultimately show ?thesis using False cl by (simp add: verdict_def char_at_def)
qed

lemma verdict_mismatch:
  assumes "agree u v" and m: "\<not> matchChar (hostname ! h) (name ! c)" and l: "h < length hostname" "c < length name"
    and e: "hostname = take (Suc h) hostname @ u" "name = take (Suc c) name @ v" and "CHR ''*'' \<notin> set hostname"
  shows "verdict name c h (dots v) = Some True \<longleftrightarrow> same_but_first hostname name \<or> wildcard_for hostname name"
proof -
  let ?B = "take h hostname" and ?A = "take c name" and ?y = "hostname ! h" and ?x = "name ! c"
  have hn: "hostname = ?B @ ?y # u" "name = ?A @ ?x # v"
    using l e by (simp_all add: take_Suc_conv_app_nth)
  have nu: "CHR ''*'' \<notin> set u" using assms(7) hn(1) by (metis Un_iff list.set_intros(2) set_append)
  have w: "wildcard_for hostname name \<longleftrightarrow> ?x = CHR ''*'' \<and> v \<noteq> [] \<and> hd v = CHR ''.'' \<and> 2 \<le> dots v"
    using wildcard_at_mismatch [OF assms(1) nu m, of ?B ?A] hn by simp
  have nx: "char_at name (c + 1) = (if v = [] then None else Some (hd v))"
  proof -
    have "v = drop (Suc c) name" using e(2) by (metis append_take_drop_id same_append_eq)
    then show ?thesis by (simp add: char_at_def hd_drop_conv_nth)
  qed
  show ?thesis
  proof (cases "c = 0 \<and> h = 0")
    case True
    then have "hostname = ?y # u" "name = ?x # v" using hn by simp_all
    then have "same_but_first hostname name"
      using assms(1) agree_length [OF assms(1)] by (metis length_Cons list.sel(3) same_but_first_def)
    then show ?thesis using True by (simp add: verdict_def)
  next
    case False
    then have "?A \<noteq> [] \<or> ?B \<noteq> []" using l by auto
    then have "\<not> same_but_first hostname name"
      using same_but_first_mismatch [OF assms(1) m, of ?A ?B] hn by simp
    then show ?thesis using False l(2) w nx by (auto simp: verdict_def char_at_def)
  qed
qed

text \<open>
  Property C22 (functional). Exactly which names of a certificate are taken for a host: the name itself, where the
  case of letters other than A and Z and, by mistake, the first character do not matter, and a star followed by
  a domain with at least two dots that ends the host name.
\<close>

theorem checkHostname_exact:
  assumes "hostname \<noteq> []" and "CHR ''*'' \<notin> set hostname" and "name \<noteq> []" and "CHR 0x00 \<notin> set name"
  shows "checkHostname hostname name = Some True \<longleftrightarrow> same_but_first hostname name \<or> wildcard_for hostname name"
proof -
  obtain c h d where m: "match_back hostname name (length name) (length hostname) 0 = (c, h, d)"
    using prod_cases3 by blast
  then have r: "checkHostname hostname name = verdict name c h d" using assms(3,4) by (simp add: checkHostname_def)
  from match_back_spec [OF m] obtain u v where uv: "agree u v" "d = dots v"
    and k: "(c = 0 \<or> h = 0) \<and> hostname = take h hostname @ u \<and> name = take c name @ v
      \<or> \<not> matchChar (hostname ! h) (name ! c) \<and> h < length hostname \<and> c < length name
        \<and> hostname = take (Suc h) hostname @ u \<and> name = take (Suc c) name @ v" by auto
  from k show ?thesis
  proof (elim disjE conjE)
    assume "hostname = take h hostname @ u" "name = take c name @ v" "c = 0"
    then show ?thesis using verdict_name_used_up [of u name hostname h d] uv assms r by simp
  next
    assume "hostname = take h hostname @ u" "name = take c name @ v" "h = 0"
    then show ?thesis using verdict_host_used_up [of hostname v name c d] uv assms r by simp
  next
    assume "\<not> matchChar (hostname ! h) (name ! c)" "h < length hostname" "c < length name"
      "hostname = take (Suc h) hostname @ u" "name = take (Suc c) name @ v"
    from verdict_mismatch [OF uv(1) this assms(2)] show ?thesis using r uv(2) by simp
  qed
qed

theorem checkHostname_exact_witness:
  "checkHostname ''www.domain.com'' ''*.domain.com'' = Some True
   \<longleftrightarrow> same_but_first ''www.domain.com'' ''*.domain.com'' \<or> wildcard_for ''www.domain.com'' ''*.domain.com''"
  by (rule checkHostname_exact) simp_all

text \<open>
  Two names of the same length that differ in nothing but their first character are taken for the
  same: a certificate for one host is accepted for the other.
\<close>

lemma first_character_is_not_checked:
  assumes "x \<noteq> CHR 0x00" and "CHR 0x00 \<notin> set t"
  shows "checkHostname (y # t) (x # t) = Some True"
proof -
  have a: "agree t t" by (simp add: agree_def matchChar_def list_all2_same)
  have "match_back (y # t) (x # t) (Suc n) (Suc n) k = (0, 0, k')"
    if "n \<le> length t" "k' = snd (snd (match_back (y # t) (x # t) (Suc n) (Suc n) k))" for n k k'
    using that
  proof (induction n arbitrary: k k')
    case (Suc n)
    have m: "matchChar ((y # t) ! Suc n) ((x # t) ! Suc n)" by (simp add: matchChar_def)
    show ?case
      using Suc.IH [of "snd (snd (match_back (y # t) (x # t) (Suc n) (Suc n) (if t ! n = CHR ''.'' then Suc k else k)))"
        "if t ! n = CHR ''.'' then Suc k else k"] Suc.prems m
      by (simp add: matchChar_def)
  qed (auto simp: matchChar_def)
  then obtain d where "match_back (y # t) (x # t) (Suc (length t)) (Suc (length t)) 0 = (0, 0, d)" by blast
  then show ?thesis using assms by (simp add: checkHostname_def verdict_def)
qed

text \<open>
  The look behind the star reads past the end of the name exactly when a name of more than
  one character, or compared with more than one, ends in a star.
\<close>

lemma checkHostname_reads_past_end_iff:
  assumes "hostname \<noteq> []" and "CHR ''*'' \<notin> set hostname"
  shows "checkHostname hostname name = None \<longleftrightarrow>
    CHR 0x00 \<notin> set name \<and> name \<noteq> [] \<and> last name = CHR ''*'' \<and> \<not> (length name = 1 \<and> length hostname = 1)"
proof (cases "name = [] \<or> CHR 0x00 \<in> set name")
  case True
  then show ?thesis by (auto simp: checkHostname_def)
next
  case False
  obtain n l where n: "length name = Suc n" and l: "length hostname = Suc l"
    using False assms(1) by (cases name; cases hostname) auto
  then have lst: "last name = name ! n" using False by (simp add: last_conv_nth)
  obtain c h d where m: "match_back hostname name (length name) (length hostname) 0 = (c, h, d)"
    using prod_cases3 by blast
  then have r: "checkHostname hostname name = verdict name c h d" using False by (simp add: checkHostname_def)
  show ?thesis
  proof (cases "last name = CHR ''*''")
    case True
    have "hostname ! l \<in> set hostname" using l by simp
    then have "\<not> matchChar (hostname ! l) (name ! n)" using assms(2) True lst matchChar_star by metis
    then have "c = n" "h = l" using m by (simp_all add: n l)
    then show ?thesis using r True False lst n l by (auto simp: verdict_def char_at_def)
  next
    case no: False
    have "c < length name"
      using m match_back_le [of hostname name n l _ c h d] by (fastforce simp: n l split: if_splits)
    moreover have "name ! c \<noteq> CHR ''*''" if "c + 1 \<ge> length name"
      using that no lst n \<open>c < length name\<close> by (metis Suc_eq_plus1 less_Suc_eq_le le_antisym Suc_le_mono)
    ultimately show ?thesis using r no by (auto simp: verdict_def char_at_def)
  qed
qed

definition names_of :: "certificate \<Rightarrow> string list" where
  "names_of x = (case x_san x of
     Some gs \<Rightarrow> concat (map (\<lambda>g. case g of GEN_DNS n \<Rightarrow> [n] | GEN_OTHER \<Rightarrow> []) gs)
   | None \<Rightarrow> (case x_cn x of Some (Some n) \<Rightarrow> [n] | _ \<Rightarrow> []))"

lemma isSanValid_names:
  "\<forall>n. GEN_DNS n \<in> set gs \<longrightarrow> checkHostname hostname n \<noteq> None \<Longrightarrow>
   isSanValid gs hostname = Some (\<exists>n. GEN_DNS n \<in> set gs \<and> checkHostname hostname n = Some True)"
proof (induction gs)
  case (Cons g gs)
  show ?case
  proof (cases g)
    case (GEN_DNS n)
    then obtain b where "checkHostname hostname n = Some b" using Cons.prems by auto
    with GEN_DNS Cons show ?thesis by (cases b) auto
  qed (use Cons in auto)
qed simp

text \<open>
  A certificate with alternative names is judged by them alone, one without by its
  common name, and it is accepted for a host exactly when one of these names is; no host name at all accepts every
  certificate.
\<close>

lemma isValid_names:
  assumes "\<forall>n \<in> set (names_of x). checkHostname hostname n \<noteq> None"
  shows "isValid (new_HostnameVerifier x) hostname
    = Some (hostname = [] \<or> (\<exists>n \<in> set (names_of x). checkHostname hostname n = Some True))"
proof (cases "x_san x")
  case (Some gs)
  have mem: "n \<in> set (names_of x) \<longleftrightarrow> GEN_DNS n \<in> set gs" for n
    using Some by (auto simp: names_of_def split: general_name.splits)
  with assms isSanValid_names [of gs hostname] Some show ?thesis
    by (auto simp: isValid_def new_HostnameVerifier_def)
next
  case None
  with assms show ?thesis
    by (auto simp: isValid_def new_HostnameVerifier_def isCnValid_def names_of_def split: option.splits)
qed

text \<open>
  Property C32 (equivalence). \<open>matchChar\<close> compares without ASCII case, as the reference \<open>ascii_lower\<close> does, except
  at the two ends of the alphabet: A and Z, which the bounds of its conversion leave out, only match themselves.
\<close>

definition ascii_lower :: "char \<Rightarrow> char" where
  "ascii_lower c = (if (of_char c :: nat) \<in> {65..90} then char_of ((of_char c :: nat) + 32) else c)"

theorem matchChar_ignores_case:
  "matchChar a b \<longleftrightarrow>
     (if {a, b} \<inter> {CHR ''A'', CHR ''Z''} = {} then ascii_lower a = ascii_lower b else a = b)"
proof -
  have n: "(of_char c :: nat) = 65 \<longleftrightarrow> c = CHR ''A''" "(of_char c :: nat) = 90 \<longleftrightarrow> c = CHR ''Z''" for c
    using of_char_eq_iff [of c "CHR ''A''", where ?'a = nat] of_char_eq_iff [of c "CHR ''Z''", where ?'a = nat] by simp_all
  have low: "lower c = (if c \<in> {CHR ''A'', CHR ''Z''} then c else ascii_lower c)" for c
  proof -
    have "65 < (of_char c :: nat) \<and> (of_char c :: nat) < 90 \<longleftrightarrow> (of_char c :: nat) \<in> {65..90} \<and> c \<notin> {CHR ''A'', CHR ''Z''}"
      using n [of c] by auto
    then show ?thesis by (simp add: lower_def ascii_lower_def)
  qed
  have up: "ascii_lower c \<notin> {CHR ''A'', CHR ''Z''}" for c
    using n [of "ascii_lower c"] n [of c] by (auto simp: ascii_lower_def split: if_splits)
  show ?thesis using up [of a] up [of b] by (auto simp: matchChar_def low)
qed

lemma A_does_not_match_a: "\<not> matchChar CHR ''A'' CHR ''a''" "\<not> matchChar CHR ''Z'' CHR ''z''"
  by (simp_all add: matchChar_def lower_def)

end
