(* ===== verification/Certificate_Check.thy ===== *)
theory Certificate_Check
  imports Forwarder_Connection Hostname_Verifier
begin

text \<open>
  Is the peer of a TLS connection the forwarder it should be: the digests
  (\<open>src/src/openssl/certificate_utilities.cpp\<close>), the check of one forwarder's host and pin
  (\<open>src/src/openssl/spki_verifier.cpp\<close>), the two callbacks OpenSSL runs
  (\<open>src/src/openssl/context.cpp\<close>) and the cache of the last certificate (\<open>src/src/verify_cache.cpp\<close>).
  The certificate of the peer is an argument, a null pointer is \<open>None\<close>; so are the outcome of
  OpenSSL's own checks and the time.
\<close>

subsection \<open>One forwarder\<close>

definition getCertificateHash :: "(certificate \<Rightarrow> bytes option) \<Rightarrow> certificate option \<Rightarrow> bytes" where
  "getCertificateHash digest cert =
     (case cert of None \<Rightarrow> [] | Some x \<Rightarrow> (case digest x of Some hash \<Rightarrow> hash | None \<Rightarrow> []))"

definition getHash :: "certificate option \<Rightarrow> bytes" where
  "getHash = getCertificateHash x_digest"

definition getPublicKeyHash :: "certificate option \<Rightarrow> bytes" where
  "getPublicKeyHash = getCertificateHash x_pubkey_digest"

definition verifyHash :: "Forwarder \<Rightarrow> certificate option \<Rightarrow> bool" where
  "verifyHash f cert \<longleftrightarrow> pin f \<noteq> [] \<and> getPublicKeyHash cert = pin f"

definition verifyHostname :: "Forwarder \<Rightarrow> certificate option \<Rightarrow> bool option" where
  "verifyHostname f cert =
     (if host f = [] then Some False
      else case cert of None \<Rightarrow> Some False | Some x \<Rightarrow> isValid (new_HostnameVerifier x) (host f))"

definition spki_verify :: "Forwarder \<Rightarrow> certificate option \<Rightarrow> int option" where
  "spki_verify f cert = do {
     let result = (if verifyHash f cert then 2 else 0);
     hostname_ok \<leftarrow> verifyHostname f cert;
     Some (if hostname_ok \<and> (result = 2 \<or> pin f = []) then 1 else result)
   }"

definition ssl_verify :: "SslConnection \<Rightarrow> certificate option \<Rightarrow> int option" where
  "ssl_verify ssl cert = (case m_verifier ssl of None \<Rightarrow> Some 1 | Some f \<Rightarrow> spki_verify f cert)"

subsection \<open>OpenSSL's callback for one certificate\<close>

text \<open>The values of \<open>x509_vfy.h\<close>: no issuer, self-signed leaf, self-signed in the chain, no local issuer,
  leaf not verifiable.\<close>

definition ALLOWED_ERRORS :: "int list" where
  "ALLOWED_ERRORS = [2, 18, 19, 20, 21]"

definition verifyTrampoline :: "int \<Rightarrow> int \<Rightarrow> SslConnection option \<Rightarrow> certificate option \<Rightarrow> int option" where
  "verifyTrampoline preverify error connection cert =
     (let allowedError = (preverify = 1 \<or> error \<in> set ALLOWED_ERRORS) in
      case connection of
        Some ssl \<Rightarrow>
          if allowedError then do {
            ret \<leftarrow> ssl_verify ssl cert;
            Some (if ret = 2 then 1 else if ret = 0 then 0 else preverify)
          }
          else Some preverify
      | None \<Rightarrow> Some preverify)"

lemma m_verifier_configured:
  assumes "\<not> disablePki f" and "m_verifier ssl = None"
  shows "m_verifier (configureVerifier f ssl) = (if host f = [] \<and> pin f = [] then None else Some f)"
  using assms by (simp add: configureVerifier_def ssl_setVerifier_def)

text \<open>
  Property C23 (functional). Which certificates a connection to a forwarder accepts: without host and pin those OpenSSL
  accepts.  With them, one that OpenSSL accepts or only cannot chain: on a right host and a right or no pin
  OpenSSL's answer stands, a right pin with a wrong or no host overrules it, everything else is refused.
\<close>

theorem certificate_accepted_iff:
  assumes "\<not> disablePki f" and "m_verifier ssl = None" and "verifyHostname f cert = Some host_ok"
  shows "verifyTrampoline (if ok then 1 else 0) error (Some (configureVerifier f ssl)) cert = Some 1 \<longleftrightarrow>
    (if host f = [] \<and> pin f = [] then ok
     else (ok \<or> error \<in> set ALLOWED_ERRORS)
       \<and> (verifyHash f cert \<and> \<not> host_ok \<or> ok \<and> host_ok \<and> (pin f = [] \<or> verifyHash f cert)))"
  using assms m_verifier_configured [OF assms(1,2)]
  by (auto simp: verifyTrampoline_def ssl_verify_def spki_verify_def Let_def)

definition sample_cert :: "bytes \<Rightarrow> certificate" where
  "sample_cert key = \<lparr>x_san = Some [GEN_DNS ''dns.example.com''], x_cn = None, x_digest = Some [1], x_pubkey_digest = Some key\<rparr>"

definition sample_ssl :: SslConnection where
  "sample_ssl = \<lparr>m_ssl = True, ssl_fd = None, ssl_verify = True, ssl_session = None, m_verifier = None\<rparr>"

definition pinned :: "string \<Rightarrow> bytes \<Rightarrow> Forwarder" where
  "pinned h p = \<lparr>remote = inet_addr 1 853, disablePki = False, host = h, pin = p\<rparr>"

lemma sample_hostname: "isValid (new_HostnameVerifier (sample_cert key)) ''dns.example.com'' = Some True"
  "isValid (new_HostnameVerifier (sample_cert key)) ''dns.example.org'' = Some False"
  unfolding sample_cert_def by (code_simp, code_simp)

theorem certificate_accepted_iff_witness:
  "verifyTrampoline (if True then 1 else 0) 0 (Some (configureVerifier (pinned ''dns.example.com'' [7]) sample_ssl)) (Some (sample_cert [7]))
   = Some 1"
proof -
  let ?f = "pinned ''dns.example.com'' [7]"
  have h: "verifyHostname ?f (Some (sample_cert [7])) = Some True"
    by (simp add: verifyHostname_def pinned_def sample_hostname)
  have f: "\<not> disablePki ?f" "m_verifier sample_ssl = None" by (simp_all add: pinned_def sample_ssl_def)
  show ?thesis
    unfolding certificate_accepted_iff [OF f h]
    by (simp add: pinned_def verifyHash_def getPublicKeyHash_def getCertificateHash_def sample_cert_def)
qed

text \<open>
  The two answers of the verifier are the wrong way round: a self-signed certificate with the
  right key is refused for the right host and accepted for a wrong one.
\<close>

lemma pin_overrules_only_wrong_host:
  assumes "\<not> disablePki f" and "m_verifier ssl = None" and "host f \<noteq> []" and "pin f \<noteq> []"
    and "x_pubkey_digest x = Some (pin f)" and "isValid (new_HostnameVerifier x) (host f) = Some host_ok"
  shows "verifyTrampoline 0 18 (Some (configureVerifier f ssl)) (Some x) = Some (if host_ok then 0 else 1)"
  using assms m_verifier_configured [OF assms(1,2)]
  by (simp add: verifyTrampoline_def ssl_verify_def spki_verify_def verifyHash_def verifyHostname_def
      getPublicKeyHash_def getCertificateHash_def ALLOWED_ERRORS_def)

end
