(* ===== verification/Ip_Lookup.thy ===== *)
theory Ip_Lookup
  imports Loop_Steps Certificate_Check Config_Parser
begin

unbundle bit_operations_syntax

text \<open>
  \<open>src/src/ip_lookup.cpp\<close>: the look-up of the host name and the pin of an address, with a loop and a socket
  of its own.  The object is a record over the world of the process; its three handlers all run \<open>connect\<close>.
  A null pointer dereferenced is \<open>None\<close>.  The peer's certificate is an argument of what is printed, Base64 a
  function.
\<close>

record IpLookup =
  il_world :: world
  il_socket :: "Socket option"
  il_read :: Registration
  il_write :: Registration
  il_exception :: Registration
  il_connection :: "SslConnection option"
  il_timeout :: int

abbreviation (input) lookup_loop :: "IpLookup \<Rightarrow> callback Loop" where
  "lookup_loop l \<equiv> w_loop (il_world l)"

definition lookup_reset_read :: "IpLookup \<Rightarrow> IpLookup" where
  "lookup_reset_read l = (let (r, m) = reset (il_read l) (lookup_loop l)
     in l\<lparr>il_read := r, il_world := (il_world l)\<lparr>w_loop := m\<rparr>\<rparr>)"

definition lookup_reset_write :: "IpLookup \<Rightarrow> IpLookup" where
  "lookup_reset_write l = (let (r, m) = reset (il_write l) (lookup_loop l)
     in l\<lparr>il_write := r, il_world := (il_world l)\<lparr>w_loop := m\<rparr>\<rparr>)"

definition lookup_reset_exception :: "IpLookup \<Rightarrow> IpLookup" where
  "lookup_reset_exception l = (let (r, m) = reset (il_exception l) (lookup_loop l)
     in l\<lparr>il_exception := r, il_world := (il_world l)\<lparr>w_loop := m\<rparr>\<rparr>)"

definition lookup_await_read :: "nat \<Rightarrow> IpLookup \<Rightarrow> IpLookup option" where
  "lookup_await_read this l = do {
     l \<leftarrow> (if reg_valid (il_read l) then Some l
           else do {
             s \<leftarrow> il_socket l;
             let (r, m) = registerRead (m_handle s) (Cb_connect this) (il_timeout l) (lookup_loop l);
             let (r, m) = move_assign (il_read l) r m;
             Some (l\<lparr>il_read := r, il_world := (il_world l)\<lparr>w_loop := m\<rparr>\<rparr>)
           });
     Some (lookup_reset_write l)
   }"

definition lookup_await_write :: "nat \<Rightarrow> IpLookup \<Rightarrow> IpLookup option" where
  "lookup_await_write this l = do {
     l \<leftarrow> (if reg_valid (il_write l) then Some l
           else do {
             s \<leftarrow> il_socket l;
             let (r, m) = registerWrite (m_handle s) (Cb_connect this) (il_timeout l) (lookup_loop l);
             let (r, m) = move_assign (il_write l) r m;
             Some (l\<lparr>il_write := r, il_world := (il_world l)\<lparr>w_loop := m\<rparr>\<rparr>)
           });
     Some (lookup_reset_read l)
   }"

definition lookup_connect :: "env \<Rightarrow> nat \<Rightarrow> IpLookup \<Rightarrow> IpLookup option" where
  "lookup_connect env this l = do {
     ssl \<leftarrow> il_connection l;
     let (result, w) = ssl_connect env ssl (il_world l);
     let l = l\<lparr>il_world := w\<rparr>;
     (case result of
        NEED_READ \<Rightarrow> lookup_await_read this l
      | NEED_WRITE \<Rightarrow> lookup_await_write this l
      | _ \<Rightarrow> Some (lookup_reset_exception l))
   }"

text \<open>The constructor up to the call of \<open>run\<close>.  The context is made for the look-up and never null.\<close>

definition new_IpLookup :: "env \<Rightarrow> nat \<Rightarrow> ConfigParser \<Rightarrow> world \<Rightarrow> IpLookup option" where
  "new_IpLookup env this config w =
     (let (so, w) = Socket_connect env (cp_ipLookup config) TCP w;
          (now, w) = call (e_time env) w;
          (ssl, w) = new_SslConnection env w
      in case so of
           None \<Rightarrow> None
         | Some s \<Rightarrow>
             let (r, m) = registerException (m_handle s) (Cb_connect this) (w_loop w);
                 (r, m) = move_assign no_registration r m
             in lookup_connect env this
               \<lparr>il_world = w\<lparr>w_loop := m\<rparr>, il_socket = Some s, il_read = no_registration, il_write = no_registration,
                il_exception = r, il_connection = Some (ssl_setSocket (m_handle s) ssl),
                il_timeout = now + cp_timeout config\<rparr>)"

definition lookup_exec :: "env \<Rightarrow> callback \<Rightarrow> int \<Rightarrow> IpLookup \<Rightarrow> IpLookup option" where
  "lookup_exec env cb handle l = (case cb of Cb_connect this \<Rightarrow> lookup_connect env this l | _ \<Rightarrow> Some l)"

text \<open>The states in which the loop of the look-up polls.\<close>

inductive lookup_polls :: "env \<Rightarrow> IpLookup \<Rightarrow> pollfd list \<Rightarrow> int \<Rightarrow> IpLookup \<Rightarrow> bool" for env l0 where
  enter: "run_enter lookup_loop (lookup_exec env) now l0 = Some (fds, tmo, l) \<Longrightarrow> lookup_polls env l0 fds tmo l"
| iterate: "lookup_polls env l0 fds tmo l \<Longrightarrow> fds \<noteq> [] \<Longrightarrow> length revents = length fds \<Longrightarrow>
    run_body lookup_loop (lookup_exec env) now revents fds l = Some (fds', tmo', l') \<Longrightarrow>
    lookup_polls env l0 fds' tmo' l'"


subsection \<open>What is registered\<close>

definition entry_ok :: "callback Loop \<Rightarrow> int \<Rightarrow> RegType \<Rightarrow> Registration \<Rightarrow> bool" where
  "entry_ok m h t r \<longleftrightarrow> (if reg_valid r then r = \<lparr>r_handle = h, r_type = t\<rparr> \<and> handler m t h \<noteq> None else handler m t h = None)"

definition connects :: "callback Loop \<Rightarrow> bool" where
  "connects m \<longleftrightarrow> (\<forall>t h cb tm. handler m t h = Some (cb, tm) \<longrightarrow> (\<exists>this. cb = Cb_connect this))"

definition table_ok :: "callback Loop \<Rightarrow> int \<Rightarrow> Registration \<Rightarrow> Registration \<Rightarrow> Registration \<Rightarrow> bool" where
  "table_ok m h rr rw re \<longleftrightarrow> loop_ok m \<and> connects m \<and> entry_ok m h Read rr \<and> entry_ok m h Write rw \<and> entry_ok m h Exception re"

definition lookup_ok :: "IpLookup \<Rightarrow> bool" where
  "lookup_ok l \<longleftrightarrow> il_connection l \<noteq> None
     \<and> (\<exists>s. il_socket l = Some s \<and> table_ok (lookup_loop l) (m_handle s) (il_read l) (il_write l) (il_exception l))"

definition waiting :: "IpLookup \<Rightarrow> bool" where
  "waiting l \<longleftrightarrow> reg_valid (il_read l) \<or> reg_valid (il_write l)"

lemma reg_types: "reg_valid \<lparr>r_handle = h, r_type = t\<rparr> \<longleftrightarrow> t \<noteq> Moved" "\<not> reg_valid (r\<lparr>r_type := Moved\<rparr>)"
  "\<not> reg_valid no_registration"
  by (simp_all add: reg_valid_def no_registration_def)

lemma connects_install: "connects m \<Longrightarrow> handler m' = install m t h e \<Longrightarrow> e = None \<or> e = Some (Cb_connect this, tm) \<Longrightarrow> connects m'"
  by (auto simp: connects_def install_apply)

lemma table_reset:
  assumes "table_ok m h rr rw re"
  shows "table_ok (snd (reset rr m)) h (rr\<lparr>r_type := Moved\<rparr>) rw re"
    and "table_ok (snd (reset rw m)) h rr (rw\<lparr>r_type := Moved\<rparr>) re"
    and "table_ok (snd (reset re m)) h rr rw (re\<lparr>r_type := Moved\<rparr>)"
proof -
  have c: "connects (snd (reset r m))" for r
    using assms by (auto simp: table_ok_def handler_reset connects_def install_apply split: if_splits)
  note t = assms [unfolded table_ok_def entry_ok_def]
  show "table_ok (snd (reset rr m)) h (rr\<lparr>r_type := Moved\<rparr>) rw re"
    using t c [of rr] unfolding table_ok_def entry_ok_def
    by (cases "reg_valid rr"; cases "reg_valid rw"; cases "reg_valid re")
      (simp_all add: loop_ok_reset handler_reset reg_types install_apply)
  show "table_ok (snd (reset rw m)) h rr (rw\<lparr>r_type := Moved\<rparr>) re"
    using t c [of rw] unfolding table_ok_def entry_ok_def
    by (cases "reg_valid rr"; cases "reg_valid rw"; cases "reg_valid re")
      (simp_all add: loop_ok_reset handler_reset reg_types install_apply)
  show "table_ok (snd (reset re m)) h rr rw (re\<lparr>r_type := Moved\<rparr>)"
    using t c [of re] unfolding table_ok_def entry_ok_def
    by (cases "reg_valid rr"; cases "reg_valid rw"; cases "reg_valid re")
      (simp_all add: loop_ok_reset handler_reset reg_types install_apply)
qed

lemma lookup_resets:
  assumes "lookup_ok l"
  shows "lookup_ok (lookup_reset_read l)" "lookup_ok (lookup_reset_write l)" "lookup_ok (lookup_reset_exception l)"
proof -
  from assms obtain s where s: "il_socket l = Some s" "il_connection l \<noteq> None"
    and t: "table_ok (lookup_loop l) (m_handle s) (il_read l) (il_write l) (il_exception l)"
    by (auto simp: lookup_ok_def)
  note r = table_reset [OF t]
  show "lookup_ok (lookup_reset_read l)" using s r(1)
    by (simp add: lookup_ok_def lookup_reset_read_def case_prod_beta reset_fst)
  show "lookup_ok (lookup_reset_write l)" using s r(2)
    by (simp add: lookup_ok_def lookup_reset_write_def case_prod_beta reset_fst)
  show "lookup_ok (lookup_reset_exception l)" using s r(3)
    by (simp add: lookup_ok_def lookup_reset_exception_def case_prod_beta reset_fst)
qed

lemma reset_keeps:
  "il_write (lookup_reset_read l) = il_write l" "il_read (lookup_reset_write l) = il_read l"
  "waiting (lookup_reset_exception l) = waiting l"
  by (simp_all add: lookup_reset_read_def lookup_reset_write_def lookup_reset_exception_def case_prod_beta waiting_def)

lemma lookup_await_read_ok:
  assumes "lookup_ok l"
  shows "\<exists>l'. lookup_await_read this l = Some l' \<and> lookup_ok l' \<and> waiting l'"
proof (cases "reg_valid (il_read l)")
  case True
  then show ?thesis using assms lookup_resets(2) by (simp add: lookup_await_read_def waiting_def reset_keeps)
next
  case False
  from assms obtain s where s: "il_socket l = Some s" "il_connection l \<noteq> None"
    and t: "table_ok (lookup_loop l) (m_handle s) (il_read l) (il_write l) (il_exception l)"
    by (auto simp: lookup_ok_def)
  have f: "loop_ok (lookup_loop l)" "handler (lookup_loop l) Read (m_handle s) = None"
    using t False by (simp_all add: table_ok_def entry_ok_def)
  note n = registerRead_fresh [OF f, of "Cb_connect this" "il_timeout l"]
  obtain r m where rm: "registerRead (m_handle s) (Cb_connect this) (il_timeout l) (lookup_loop l) = (r, m)" by fastforce
  have m: "snd (reset (il_read l) m) = m" using False by (simp add: reset_def reg_valid_def)
  let ?l = "l\<lparr>il_read := r, il_world := (il_world l)\<lparr>w_loop := m\<rparr>\<rparr>"
  have "connects m" using connects_install [OF _ n(3)] t rm by (auto simp: table_ok_def)
  then have "lookup_ok ?l" using s t n rm False
    by (auto simp: lookup_ok_def table_ok_def entry_ok_def reg_types install_apply)
  moreover have "reg_valid r" using n rm by (simp add: reg_types)
  moreover have "lookup_await_read this l = Some (lookup_reset_write ?l)"
    using False s by (simp add: lookup_await_read_def rm move_assign_def m)
  ultimately show ?thesis using lookup_resets(2) [of ?l] by (simp add: waiting_def reset_keeps)
qed

lemma lookup_await_write_ok:
  assumes "lookup_ok l"
  shows "\<exists>l'. lookup_await_write this l = Some l' \<and> lookup_ok l' \<and> waiting l'"
proof (cases "reg_valid (il_write l)")
  case True
  then show ?thesis using assms lookup_resets(1) by (simp add: lookup_await_write_def waiting_def reset_keeps)
next
  case False
  from assms obtain s where s: "il_socket l = Some s" "il_connection l \<noteq> None"
    and t: "table_ok (lookup_loop l) (m_handle s) (il_read l) (il_write l) (il_exception l)"
    by (auto simp: lookup_ok_def)
  have f: "loop_ok (lookup_loop l)" "handler (lookup_loop l) Write (m_handle s) = None"
    using t False by (simp_all add: table_ok_def entry_ok_def)
  note n = registerWrite_fresh [OF f, of "Cb_connect this" "il_timeout l"]
  obtain r m where rm: "registerWrite (m_handle s) (Cb_connect this) (il_timeout l) (lookup_loop l) = (r, m)" by fastforce
  have m: "snd (reset (il_write l) m) = m" using False by (simp add: reset_def reg_valid_def)
  let ?l = "l\<lparr>il_write := r, il_world := (il_world l)\<lparr>w_loop := m\<rparr>\<rparr>"
  have "connects m" using connects_install [OF _ n(3)] t rm by (auto simp: table_ok_def)
  then have "lookup_ok ?l" using s t n rm False
    by (auto simp: lookup_ok_def table_ok_def entry_ok_def reg_types install_apply)
  moreover have "reg_valid r" using n rm by (simp add: reg_types)
  moreover have "lookup_await_write this l = Some (lookup_reset_read ?l)"
    using False s by (simp add: lookup_await_write_def rm move_assign_def m)
  ultimately show ?thesis using lookup_resets(1) [of ?l] by (simp add: waiting_def reset_keeps)
qed

lemma lookup_connect_ok:
  assumes "lookup_ok l"
  shows "\<exists>l'. lookup_connect env this l = Some l' \<and> lookup_ok l' \<and> (waiting l \<longrightarrow> waiting l')"
proof -
  obtain ssl where ssl: "il_connection l = Some ssl" using assms by (auto simp: lookup_ok_def)
  obtain result w where r: "ssl_connect env ssl (il_world l) = (result, w)" by fastforce
  let ?l = "l\<lparr>il_world := w\<rparr>"
  have "w_loop w = lookup_loop l" using ssl_connect_world [OF r] by (simp add: same_but_session_def)
  then have ok: "lookup_ok ?l" and w: "waiting ?l = waiting l" using assms by (simp_all add: lookup_ok_def waiting_def)
  have "lookup_connect env this l = (case result of NEED_READ \<Rightarrow> lookup_await_read this ?l
      | NEED_WRITE \<Rightarrow> lookup_await_write this ?l | _ \<Rightarrow> Some (lookup_reset_exception ?l))"
    by (simp add: lookup_connect_def ssl r Let_def)
  then show ?thesis
    using lookup_await_read_ok [OF ok] lookup_await_write_ok [OF ok] lookup_resets(3) [OF ok] w
    by (cases result) (auto simp: reset_keeps)
qed

subsection \<open>The look-up does not end\<close>

lemma add_event_wanted: "ev \<noteq> 0 \<Longrightarrow> \<exists>fd \<in> set (add_event ev h fds). p_events fd \<noteq> 0"
proof (cases "\<exists>fd \<in> set fds. p_fd fd = h")
  case True
  then obtain fd where fd: "fd \<in> set fds" "p_fd fd = h" by blast
  assume "ev \<noteq> 0"
  then have "p_events (fd\<lparr>p_events := p_events fd OR ev\<rparr>) \<noteq> 0" by (simp add: or_eq_0_iff)
  moreover have "fd\<lparr>p_events := p_events fd OR ev\<rparr> \<in> set (add_event ev h fds)" using fd by (force simp: add_event_def)
  ultimately show ?thesis by blast
qed (auto simp: add_event_def)

lemma popluateFds_wanted:
  assumes "ev \<noteq> 0" and "m \<noteq> [] \<or> (\<exists>fd \<in> set fds. p_events fd \<noteq> 0)"
  shows "\<exists>fd \<in> set (popluateFds fds m ev). p_events fd \<noteq> 0"
  using assms(2)
proof (induction m arbitrary: fds)
  case (Cons x m)
  have "popluateFds fds (x # m) ev = popluateFds (add_event ev (fst x) fds) m ev" by (simp add: popluateFds_def)
  with Cons.IH add_event_wanted [OF assms(1)] show ?case by metis
qed (simp add: popluateFds_def)

lemma populateFds_nonempty:
  assumes "handler m Read h \<noteq> None \<or> handler m Write h \<noteq> None"
  shows "populateFds m fds \<noteq> []"
proof -
  have "m_readFunctions m \<noteq> [] \<or> m_writeFunctions m \<noteq> []" using assms by (auto simp: handler.simps)
  then have "\<exists>fd \<in> set (popluateFds (popluateFds (popluateFds (clearFds fds) (m_readFunctions m) POLLIN)
      (m_writeFunctions m) POLLOUT) (m_exceptFunctions m) POLLERR). p_events fd \<noteq> 0"
    using popluateFds_wanted poll_events_distinct_bits(1-3) by metis
  then show ?thesis by (auto simp: populateFds_def removeFds_def filter_empty_conv)
qed

interpretation lookup_turn: callbacks_within lookup_loop "lookup_exec env" lookup_ok
  "\<lambda>l l'. lookup_ok l' \<and> (waiting l \<longrightarrow> waiting l')" for env
proof unfold_locales
  fix l t h cb tm l'
  assume l: "lookup_ok l" and h: "handler (lookup_loop l) t h = Some (cb, tm)" and e: "lookup_exec env cb h l = Some l'"
  from l have "connects (lookup_loop l)" by (auto simp: lookup_ok_def table_ok_def)
  with h obtain this where "cb = Cb_connect this" unfolding connects_def by blast
  with lookup_connect_ok [OF l, of env this] e show "lookup_ok l' \<and> (waiting l \<longrightarrow> waiting l')"
    by (auto simp: lookup_exec_def)
qed auto

lemma waiting_polls:
  assumes "lookup_ok l" and "waiting l"
  shows "populateFds (lookup_loop l) fds \<noteq> []"
proof -
  from assms(1) obtain s :: Socket where t: "table_ok (lookup_loop l) (m_handle s) (il_read l) (il_write l) (il_exception l)"
    by (auto simp: lookup_ok_def)
  have "handler (lookup_loop l) Read (m_handle s) \<noteq> None \<or> handler (lookup_loop l) Write (m_handle s) \<noteq> None"
    using assms(2) t unfolding table_ok_def waiting_def entry_ok_def by presburger
  then show ?thesis by (rule populateFds_nonempty)
qed

lemma new_IpLookup_ok:
  assumes env: "env_ok env" and w: "w_loop w = empty_loop" and new: "new_IpLookup env this config w = Some l"
  shows "lookup_ok l"
proof -
  obtain so w1 where 1: "Socket_connect env (cp_ipLookup config) TCP w = (so, w1)" by fastforce
  obtain s where s: "so = Some s" using new by (cases so) (auto simp: new_IpLookup_def 1 split: prod.splits)
  have w1: "w_loop w1 = empty_loop"
    using Socket_connect_opens [OF env 1] w by (simp add: s opens_def same_but_tick_def)
  obtain now w2 where 2: "call (e_time env) w1 = (now, w2)" by fastforce
  obtain ssl w3 where 3: "new_SslConnection env w2 = (ssl, w3)" by fastforce
  have w3: "w_loop w3 = empty_loop" using 2 3 w1 by (auto simp: new_SslConnection_def call_def Let_def)
  obtain r m where rm: "registerException (m_handle s) (Cb_connect this) empty_loop = (r, m)" by fastforce
  note n = registerException_fresh [OF loop_ok_empty handler_empty, of "m_handle s" "Cb_connect this"]
  let ?l = "\<lparr>il_world = w3\<lparr>w_loop := m\<rparr>, il_socket = Some s, il_read = no_registration, il_write = no_registration,
     il_exception = r, il_connection = Some (ssl_setSocket (m_handle s) ssl), il_timeout = now + cp_timeout config\<rparr>"
  have h: "handler m = install empty_loop Exception (m_handle s) (Some (Cb_connect this, 0))" using n rm by simp
  have "table_ok m (m_handle s) no_registration no_registration r"
    using n rm h by (simp add: table_ok_def entry_ok_def connects_def install_apply reg_types)
  then have "lookup_ok ?l" by (simp add: lookup_ok_def)
  moreover have "lookup_connect env this ?l = Some l"
    using new by (simp add: new_IpLookup_def 1 2 3 s w3 rm move_assign_def reset_def no_registration_def)
  ultimately show ?thesis using lookup_connect_ok [of ?l env this] by auto
qed

lemma lookup_polls_ok:
  assumes "lookup_polls env l0 fds tmo l" and "lookup_ok l0" and "waiting l0"
  shows "lookup_ok l \<and> waiting l \<and> fds \<noteq> []"
  using assms(1)
proof (induction rule: lookup_polls.induct)
  case (enter now fds tmo l)
  with lookup_turn.run_enter_within [OF assms(2) enter] assms(3) have l: "lookup_ok l" "waiting l" by simp_all
  from enter have "fds = populateFds (lookup_loop l) []" 
    by (auto simp: run_enter_def bind_eq_Some_conv)
  with l waiting_polls show ?case by simp
next
  case (iterate fds tmo l revents now fds' tmo' l')
  with lookup_turn.run_body_within have l: "lookup_ok l'" "waiting l'" by blast+
  let ?fds = "map2 (\<lambda>fd r. fd\<lparr>p_revents := r\<rparr>) fds revents"
  from iterate.hyps obtain l1 where 1: "dispatch lookup_loop (lookup_exec env) ?fds l = Some l1"
    and fds: "fds' = populateFds (lookup_loop l1) ?fds"
    by (auto simp: run_body_def Let_def bind_eq_Some_conv)
  have "lookup_ok l1 \<and> waiting l1" using lookup_turn.dispatch_within [OF _ 1] iterate.IH by blast
  with l fds waiting_polls show ?case by simp
qed

text \<open>
  Property C38 (liveness). The look-up of an address does not end once its handshake has had to wait: when the
  handshake is over, \<open>connect\<close> drops the exception handler but neither the read nor the write handler, so
  whatever the peer and OpenSSL do, every later turn of the loop polls the socket again, and the host name
  and the pin are never printed.  Nor does the time-out end it, which only runs \<open>connect\<close> once more.
\<close>

theorem lookup_never_ends:
  assumes "env_ok env" and "new_IpLookup env this config new_world = Some l0" and "waiting l0"
    and "lookup_polls env l0 fds tmo l"
  shows "fds \<noteq> [] \<and> waiting l"
proof -
  have "w_loop new_world = empty_loop" by (simp add: new_world_def)
  from lookup_polls_ok [OF assms(4) new_IpLookup_ok [OF assms(1) this assms(2)] assms(3)] show ?thesis by simp
qed

text \<open>The handshake wants to read once, the next call succeeds: the loop polls on.\<close>

definition handshake_env :: env where
  "handshake_env = calm_env\<lparr>e_ssl_connect := \<lambda>n. if n < 9 then -1 else 1, e_ssl_error := \<lambda>n. SSL_ERROR_WANT_READ\<rparr>"

definition lookup_config :: ConfigParser where
  "lookup_config = (new_ConfigParser unspec_addr False unspec_addr)\<lparr>cp_ipLookup := inet_addr 0x09090909 853\<rparr>"

definition lookup_read :: IpLookup where
  "lookup_read = \<lparr>il_world = new_world\<lparr>w_tick := 9, w_open := [3], w_loop :=
       \<lparr>m_readFunctions = [(3, Cb_connect 0, 1005)], m_writeFunctions = [], m_exceptFunctions = [(3, Cb_connect 0)]\<rparr>\<rparr>,
     il_socket = Some \<lparr>m_handle = 3, m_domain = PF_INET\<rparr>, il_read = \<lparr>r_handle = 3, r_type = Read\<rparr>,
     il_write = no_registration, il_exception = \<lparr>r_handle = 3, r_type = Exception\<rparr>,
     il_connection = Some \<lparr>m_ssl = True, ssl_fd = Some 3, ssl_verify = True, ssl_session = None, m_verifier = None\<rparr>,
     il_timeout = 1005\<rparr>"

lemma lookup_starts: "new_IpLookup handshake_env 0 lookup_config new_world = Some lookup_read"
  apply (simp add: new_IpLookup_def Socket_connect_def new_socket_def socket_of_handle_def socket_connect_def call_def
      handshake_env_def calm_env_def new_world_def lookup_config_def new_SslConnection_def registerException_def empty_loop_def
      move_assign_def reset_def no_registration_def inet_addr_def lookup_connect_def ssl_setSocket_def ssl_connect_def doFunction_def
      SSL_ERROR_WANT_READ_def lookup_await_read_def registerRead_def reg_valid_def lookup_reset_write_def lookup_read_def Let_def
      new_ConfigParser_def)
  done

definition lookup_done :: IpLookup where
  "lookup_done = lookup_read\<lparr>il_exception := \<lparr>r_handle = 3, r_type = Moved\<rparr>,
     il_world := new_world\<lparr>w_tick := 11, w_open := [3], w_loop :=
       \<lparr>m_readFunctions = [(3, Cb_connect 0, 1005)], m_writeFunctions = [], m_exceptFunctions = []\<rparr>\<rparr>\<rparr>"

lemma lookup_handshake: "lookup_connect handshake_env 0 lookup_read = Some lookup_done"
  by (simp add: lookup_connect_def lookup_read_def ssl_connect_def doFunction_def call_def handshake_env_def calm_env_def Let_def
      lookup_reset_exception_def reset_def removeException_def new_world_def map_erase_def lookup_done_def)

lemma lookup_turns:
  "\<exists>fds tmo. lookup_polls handshake_env lookup_read fds tmo lookup_done"
proof -
  let ?L = "\<lambda>l. w_loop (il_world l)" and ?X = "lookup_exec handshake_env"
  have q: "overdue 0 sel (?L l) = {}" if "l \<in> {lookup_read, lookup_done}" "sel \<in> {m_readFunctions, m_writeFunctions}" for l sel
    using that by (auto simp: overdue_def lookup_read_def lookup_done_def)
  have p: "populateFds (?L lookup_read) [] = [\<lparr>p_fd = 3, p_events = 1, p_revents = 0\<rparr>]"
    by (simp add: lookup_read_def populateFds_def clearFds_def popluateFds_def add_event_def removeFds_def POLLIN_def POLLERR_def)
  obtain tmo where e: "run_enter ?L ?X 0 lookup_read = Some (populateFds (?L lookup_read) [], tmo, lookup_read)"
    by (simp add: run_enter_def timeout_def timeout_map_quiet q)
  have d: "dispatch ?L ?X (map2 (\<lambda>fd r. fd\<lparr>p_revents := r\<rparr>) (populateFds (?L lookup_read) []) [1]) lookup_read = Some lookup_done"
    unfolding p using lookup_handshake
    by (simp add: dispatch_fd_def callCallback_def lookup_exec_def POLLIN_def POLLOUT_def POLLERR_def POLLHUP_def POLLNVAL_def)
      (simp add: lookup_read_def lookup_exec_def)
  obtain fds tmo' where b: "run_body ?L ?X 0 [1] (populateFds (?L lookup_read) []) lookup_read = Some (fds, tmo', lookup_done)"
    using d by (simp add: run_body_def Let_def timeout_def timeout_map_quiet q)
  from lookup_polls.iterate [OF lookup_polls.enter [OF e] _ _ b] p show ?thesis by auto
qed

theorem lookup_never_ends_witness:
  "\<exists>fds tmo. lookup_polls handshake_env lookup_read fds tmo lookup_done \<and> fds \<noteq> [] \<and> \<not> reg_valid (il_exception lookup_done)"
proof -
  have env: "env_ok handshake_env" using env_ok_calm by (simp add: env_ok_def handshake_env_def)
  have w: "waiting lookup_read" by (simp add: waiting_def lookup_read_def reg_valid_def)
  obtain fds tmo where p: "lookup_polls handshake_env lookup_read fds tmo lookup_done" using lookup_turns by blast
  from lookup_never_ends [OF env lookup_starts w p] p show ?thesis by (auto simp: lookup_done_def reg_valid_def)
qed

text \<open>An address for which no socket can be connected is not looked up: the constructor uses the socket it did
  not get.\<close>

lemma unreachable_lookup_is_undefined:
  assumes "fst (Socket_connect env (cp_ipLookup config) TCP w) = None"
  shows "new_IpLookup env this config w = None"
  using assms by (auto simp: new_IpLookup_def Let_def split: prod.splits)

subsection \<open>What is printed\<close>

text \<open>\<open>hostname\<close> and \<open>pin\<close> read the certificate of the peer, if there is a connection object and the peer
  sent one.\<close>

definition toString :: "string option \<Rightarrow> string" where
  "toString text = (case text of Some t \<Rightarrow> t | None \<Rightarrow> [])"

definition getCommonName :: "certificate option \<Rightarrow> string" where
  "getCommonName cert =
     (case cert of None \<Rightarrow> [] | Some x \<Rightarrow> (case x_cn x of Some commonName \<Rightarrow> toString commonName | None \<Rightarrow> []))"

definition certificateOperation :: "(certificate option \<Rightarrow> 'a list) \<Rightarrow> SslConnection \<Rightarrow> certificate option \<Rightarrow> 'a list" where
  "certificateOperation utility ssl peer =
     (if m_ssl ssl then (case peer of None \<Rightarrow> [] | Some x \<Rightarrow> utility (Some x)) else [])"

definition ssl_getCommonName :: "SslConnection \<Rightarrow> certificate option \<Rightarrow> string" where
  "ssl_getCommonName ssl peer = certificateOperation getCommonName ssl peer"

definition ssl_getPeerCertificatePublicKeyHash :: "SslConnection \<Rightarrow> certificate option \<Rightarrow> bytes" where
  "ssl_getPeerCertificatePublicKeyHash ssl peer = certificateOperation getPublicKeyHash ssl peer"

definition lookup_hostname :: "certificate option \<Rightarrow> IpLookup \<Rightarrow> string" where
  "lookup_hostname peer l = (case il_connection l of Some ssl \<Rightarrow> ssl_getCommonName ssl peer | None \<Rightarrow> [])"

definition lookup_pin :: "(bytes \<Rightarrow> string) \<Rightarrow> certificate option \<Rightarrow> IpLookup \<Rightarrow> string" where
  "lookup_pin base64_encode peer l =
     (case il_connection l of Some ssl \<Rightarrow> base64_encode (ssl_getPeerCertificatePublicKeyHash ssl peer) | None \<Rightarrow> [])"

end
