(* ===== verification/Program.thy ===== *)
theory Program
  imports Vyatta Query_Path Process Ip_Lookup
begin

text \<open>
  \<open>main\<close> of \<open>src/src/main.cpp\<close>: the configuration from the command line, the store and the defaults, then one
  of three things: an exit, the look-up of an address, or the servers bound, the configuration watched and the
  loop entered.  The calls
  of the forwarding part ask the environment of \<open>World\<close>, those of the process the one of \<open>Process\<close>.  \<open>None\<close>
  is a store without an end or undefined behaviour in the look-up.
\<close>

datatype outcome =
  Exits int process
| Looks_up IpLookup process
| Runs ConfigParser PidFile system process

definition become_daemon :: "os \<Rightarrow> ConfigParser \<Rightarrow> process \<Rightarrow> int + process" where
  "become_daemon os config p = (if cp_daemonise config then daemonise os p else Inr p)"

text \<open>From the construction of \<open>Dote\<close> to \<open>run\<close>.  A return removes the PID file; \<open>_exit\<close>, when the privileges cannot
  be dropped, leaves it.\<close>

definition serve :: "env \<Rightarrow> os \<Rightarrow> ConfigParser \<Rightarrow> process \<Rightarrow> outcome" where
  "serve env os config p =
     (let s = new_dote (cp_forwarders config) (cp_timeout config) (nat (cp_maxConnections config));
          (pidFile, p) = new_PidFile os (cp_pidFile config) p
      in if \<not> pf_valid pidFile then Exits 1 (delete_PidFile os pidFile p)
         else let (ok, s) = listen env (map address (cp_servers config)) s
              in if \<not> ok then Exits 1 (delete_PidFile os pidFile p)
                 else (case dropPriviledges os p of
                         Inl code \<Rightarrow> Exits code p
                       | Inr p \<Rightarrow> Runs config pidFile (watch_configuration env s) p))"

definition main :: "env \<Rightarrow> os \<Rightarrow> platform \<Rightarrow> store \<Rightarrow> getopt \<Rightarrow> string list \<Rightarrow> ConfigParser \<Rightarrow> process \<Rightarrow> outcome option" where
  "main env os P config getopt argv clParser p = do {
     let clParser = parseConfig P (getopt argv) clParser;
     parser \<leftarrow> loadDefaults config P getopt clParser;
     (if \<not> cp_valid parser then Some (Exits 1 p)
      else if ss_family (cp_ipLookup parser) \<noteq> AF_UNSPEC then do {
        l \<leftarrow> new_IpLookup env 0 parser new_world;
        Some (Looks_up l p)
      }
      else (case become_daemon os parser p of
              Inl code \<Rightarrow> Some (Exits code p)
            | Inr p \<Rightarrow> Some (serve env os parser p)))
   }"

subsection \<open>The configuration that is served\<close>

lemma load_servers_ok:
  assumes "load_servers_from config P getopt index parser = Some cp"
  shows "parser_ok parser \<longrightarrow> parser_ok cp"
proof -
  have "parser_ok (snd ((((config, P), getopt), index), parser)) \<longrightarrow> parser_ok cp"
  proof (rule load_servers_from.raw_induct [where Pa = "\<lambda>x cp. parser_ok (snd x) \<longrightarrow> parser_ok cp", OF _ assms], goal_cases)
    case 1
    then show ?case using parseConfig_ok by (fastforce simp: Let_def split: if_splits)
  qed
  then show ?thesis by simp
qed

lemma load_forwarders_ok:
  assumes "load_forwarders_from config P getopt index parser = Some cp"
  shows "parser_ok parser \<longrightarrow> parser_ok cp"
proof -
  have "parser_ok (snd ((((config, P), getopt), index), parser)) \<longrightarrow> parser_ok cp"
  proof (rule load_forwarders_from.raw_induct [where Pa = "\<lambda>x cp. parser_ok (snd x) \<longrightarrow> parser_ok cp", OF _ assms], goal_cases)
    case 1
    then show ?case using parseConfig_ok by (fastforce simp: Let_def split: if_splits)
  qed
  then show ?thesis by simp
qed

lemma loadDefaults_ok:
  assumes "parser_ok parser" and "loadDefaults config P getopt parser = Some cp"
  shows "parser_ok cp"
proof -
  from assms(2) obtain c1 c2 where 1: "load_servers_from config P getopt 0 parser = Some c1"
    and 2: "load_forwarders_from config P getopt 0 c1 = Some c2" and cp: "cp = setDefaults P c2"
    by (auto simp: loadDefaults_def loadConfig_def loadServers_def loadForwarders_def bind_eq_Some_conv)
  with load_servers_ok [OF 1] load_forwarders_ok [OF 2] assms(1) setDefaults_ok show ?thesis by blast
qed

lemma dropPriviledges_files: "dropPriviledges os p = Inr p' \<Longrightarrow> p_table p' = p_table p \<and> p_files p' = p_files p"
  by (auto simp: dropPriviledges_def setreuid_def no_new_privs_def ask_def Let_def split: if_splits)

text \<open>The PID file that was asked for is open and begins with the PID that the system answered.\<close>

definition pid_recorded :: "os \<Rightarrow> string \<Rightarrow> PidFile \<Rightarrow> process \<Rightarrow> bool" where
  "pid_recorded os filename f p \<longleftrightarrow> filename = []
     \<or> 0 \<le> pf_handle f \<and> (pf_handle f, filename, ''r+'') \<in> set (p_table p)
       \<and> (\<exists>t rest. p_files p filename = Some (pid_contents (o_getpid os t) @ rest))"

lemma new_PidFile_recorded:
  assumes "new_PidFile os filename p = (f, p')" and "pf_valid f"
  shows "pid_recorded os filename f p'"
proof (cases "filename = []")
  case False
  from new_PidFile_effect [OF assms(1) False] assms(2) show ?thesis
    by (auto simp: pid_recorded_def Let_def)
qed (simp add: pid_recorded_def)

lemma serve_runs:
  assumes "serve env os config p = Runs config' pidFile s p'"
  shows "config' = config \<and> pid_recorded os (cp_pidFile config) pidFile p'
    \<and> started env (cp_forwarders config) (cp_timeout config) (nat (cp_maxConnections config)) (map address (cp_servers config)) s
    \<and> (\<exists>p1. dropPriviledges os p1 = Inr p' \<and> p_euid p1 = p_euid p)"
proof -
  obtain f p1 where 1: "new_PidFile os (cp_pidFile config) p = (f, p1)" by fastforce
  have "p_euid p1 = p_euid p"
    using 1 by (auto simp: new_PidFile_def ask_def pid_open_def open_file_def close_file_def pid_write_def unlink_file_def Let_def
      split: if_splits prod.splits)
  moreover have "config' = config \<and> pidFile = f \<and> pf_valid f \<and> dropPriviledges os p1 = Inr p'
    \<and> started env (cp_forwarders config) (cp_timeout config) (nat (cp_maxConnections config)) (map address (cp_servers config)) s"
    using assms 1 by (auto simp: serve_def started_def Let_def split: if_splits prod.splits sum.splits)
  moreover from this have "pid_recorded os (cp_pidFile config) pidFile p'"
    using new_PidFile_recorded [OF 1] dropPriviledges_files [of os p1 p'] by (simp add: pid_recorded_def)
  ultimately show ?thesis by blast
qed

lemma become_daemon_euid: "become_daemon os config p = Inr p' \<Longrightarrow> p_euid p' = p_euid p"
  by (auto simp: become_daemon_def daemonise_def fork_off_def must_def reopen_def close_all_def ask_def open_file_def Let_def
      split: if_splits sum.splits)

text \<open>The watch of the configuration is set up when the system lets it.\<close>

lemma watch_set_up:
  assumes "started env fs t m servers s" and "\<forall>n hs. 0 \<le> e_inotify_init env n hs" and "\<forall>n. e_add_watch env n \<noteq> -1"
  shows "watch_handles s \<noteq> []"
proof -
  obtain s1 where s: "s = watch_configuration env s1" using assms(1) by (auto simp: started_def split: prod.splits)
  obtain v w where v: "new_VyattaCheck env (s_world s1) = (v, w)" "0 \<le> vc_fd v"
    using assms(2,3) by (simp add: new_VyattaCheck_def call_def Let_def)
  then show ?thesis
    by (auto simp: s watch_configuration_def configure_watch_def watch_handles_def split: prod.splits)
qed

text \<open>
  Property C6 (safety). What the program is when it enters its loop, and stays: its configuration is valid and in range, the
  servers of the configuration are bound, a PID file that was asked for is open and begins with the process's PID, a process that
  was started with root privileges has no user id of root left.  The configuration is watched when the system provides the
  watch, and the program goes on without it otherwise.  In all states the loop reaches from there, every server socket and the
  watch, if there is one, are being read, and the invariant of the whole system holds with at most the configured number of
  connections, which is not more than 6000.
\<close>

theorem main_serves_safely:
  assumes "env_ok env" and "main env os P config getopt argv (new_ConfigParser junk flag junk') p = Some (Runs cfg pidFile s p')"
    and "reachable env s fds tmo s'"
  shows "cp_valid cfg \<and> in_range cfg \<and> pid_recorded os (cp_pidFile cfg) pidFile p'
    \<and> started env (cp_forwarders cfg) (cp_timeout cfg) (nat (cp_maxConnections cfg)) (map address (cp_servers cfg)) s
    \<and> (p_euid p = 0 \<longrightarrow> 0 \<notin> {p_euid p', p_ruid p', p_suid p'})
    \<and> ((\<forall>n hs. 0 \<le> e_inotify_init env n hs) \<and> (\<forall>n. e_add_watch env n \<noteq> -1) \<longrightarrow> watch_handles s \<noteq> [])
    \<and> (\<forall>h \<in> set (watch_handles s). handler (system_loop s') Read h = Some (Cb_config, 0))
    \<and> (\<forall>h \<in> set (socket_handles s). handler (system_loop s') Read h = Some (Cb_server, 0))
    \<and> inv env s' \<and> length (s_forwarders s') \<le> nat (cp_maxConnections cfg) \<and> nat (cp_maxConnections cfg) \<le> 6000"
proof -
  from assms(2) obtain p1 where l: "loadDefaults config P getopt (parseConfig P (getopt argv) (new_ConfigParser junk flag junk')) = Some cfg"
    and v: "cp_valid cfg" and d: "become_daemon os cfg p = Inr p1" and s: "serve env os cfg p1 = Runs cfg pidFile s p'"
    using serve_runs by (fastforce simp: main_def Let_def bind_eq_Some_conv split: if_splits sum.splits)
  have r: "in_range cfg" using loadDefaults_ok [OF first_parse_ok l] v by (simp add: parser_ok_def)
  note sr = serve_runs [OF s]
  then obtain p2 where p2: "dropPriviledges os p2 = Inr p'" "p_euid p2 = p_euid p1" by blast
  have root: "p_euid p = 0 \<longrightarrow> 0 \<notin> {p_euid p', p_ruid p', p_suid p'}"
    using dropPriviledges_user [OF p2(1)] p2(2) become_daemon_euid [OF d] by auto
  have st: "started env (cp_forwarders cfg) (cp_timeout cfg) (nat (cp_maxConnections cfg)) (map address (cp_servers cfg)) s"
    using sr by blast
  note i = started_inv [OF assms(1) st]
  with reachable_step_ok [OF assms(3)] have "inv env s'" "s_max s' = nat (cp_maxConnections cfg)"
    and same: "(s_servers s', s_watch s') = (s_servers s, s_watch s)" by (auto simp: step_ok_def)
  then have pool: "pool_ok (s_forwarders s') s'" by (simp add: inv_def sys_ok_def)
  have hs: "watch_handles s' = watch_handles s" "socket_handles s' = socket_handles s"
    using same by (simp_all add: watch_handles_def socket_handles_def)
  have read: "\<forall>h \<in> set (server_handles s'). server_ok s' h" "distinct (server_handles s')" using pool by (simp_all add: pool_ok_def)
  have "\<forall>h \<in> set (watch_handles s). handler (system_loop s') Read h = Some (Cb_config, 0)"
    "\<forall>h \<in> set (socket_handles s). handler (system_loop s') Read h = Some (Cb_server, 0)"
    using read by (auto simp: server_ok_def server_handles_def hs)
  note watched = this watch_set_up [OF st]
  from i reachable_step_ok [OF assms(3)] have "inv env s'" "s_max s' = nat (cp_maxConnections cfg)" by (auto simp: step_ok_def)
  moreover from this have "length (s_forwarders s') \<le> nat (cp_maxConnections cfg)"
    by (auto simp: inv_def sys_ok_def pool_ok_def)
  moreover have "nat (cp_maxConnections cfg) \<le> 6000" using r by (auto simp: in_range_def)
  ultimately show ?thesis using v r sr root st watched by blast
qed

text \<open>A command line with a server, a pool of one and two forwarders, run as root.\<close>

definition line_platform :: platform where
  "line_platform = sample_platform\<lparr>inet_pton4 := \<lambda>s. if s = ''127.0.0.1'' then Some 0x7F000001
     else if s = ''0.0.0.1'' then Some 1 else if s = ''0.0.0.2'' then Some 2 else None\<rparr>"

definition line_getopt :: getopt where
  "line_getopt args = ([(CHR ''s'', ''127.0.0.1''), (CHR ''m'', ''1''), (CHR ''f'', ''0.0.0.1''), (CHR ''f'', ''0.0.0.2'')], False)"

definition line_parser :: ConfigParser where "line_parser = new_ConfigParser unspec_addr False unspec_addr"

definition line_config :: ConfigParser where
  "line_config = line_parser\<lparr>cp_forwarders := [forwarder_at 1, forwarder_at 2], cp_ciphers := DEFAULT_CIPHERS,
     cp_servers := [\<lparr>address = inet_addr 0x7F000001 53\<rparr>], cp_maxConnections := 1\<rparr>"

lemma line_loaded:
  "loadDefaults None line_platform line_getopt (parseConfig line_platform (line_getopt argv) line_parser) = Some line_config"
proof -
  have n: "strtol ''1'' = (1, [])" by code_simp
  have "parseConfig line_platform (line_getopt argv) line_parser = line_config\<lparr>cp_ciphers := []\<rparr>"
    by (simp add: parseConfig_def line_getopt_def line_parser_def line_config_def new_ConfigParser_def Let_def n
        apply_option_def parser_addServer_def parser_addForwarder_def setMaxConnections_def pushForwarder_def empty_forwarder_def
        parseServer_def split_address_def parse_port_def line_platform_def unspec_addr_def inet_addr_def forwarder_at_def)
  moreover have "loadConfig None line_platform line_getopt cp = Some cp" for cp
    by (simp add: loadConfig_def loadServers_def loadForwarders_def load_servers_from.simps load_forwarders_from.simps getValue_def)
  moreover have "setDefaults line_platform (line_config\<lparr>cp_ciphers := []\<rparr>) = line_config"
    by (simp add: setDefaults_def line_config_def)
  ultimately show ?thesis by (simp add: loadDefaults_def)
qed

lemma main_line:
  "\<exists>p'. main busy_env sample_os line_platform None line_getopt argv line_parser root_process
     = Some (Runs line_config \<lparr>pf_filename = [], pf_handle = -1\<rparr> sample_started p')"
proof -
  have v: "cp_valid line_config" "ss_family (cp_ipLookup line_config) = AF_UNSPEC" "\<not> cp_daemonise line_config"
    "cp_pidFile line_config = []" "cp_forwarders line_config = [forwarder_at 1, forwarder_at 2]" "cp_timeout line_config = 5"
    "nat (cp_maxConnections line_config) = 1" "map address (cp_servers line_config) = sample_servers"
    by (simp_all add: line_config_def line_parser_def new_ConfigParser_def sample_servers_def)
  obtain p1 where p: "new_PidFile sample_os [] root_process = (\<lparr>pf_filename = [], pf_handle = -1\<rparr>, p1)"
    by (simp add: new_PidFile_def ask_def)
  obtain p2 where "dropPriviledges sample_os p1 = Inr p2"
    by (cases "dropPriviledges sample_os p1") (auto simp: dropPriviledges_def setreuid_def ask_def sample_os_def Let_def split: if_splits)
  moreover obtain s1 where "listen busy_env sample_servers (new_dote [forwarder_at 1, forwarder_at 2] 5 1) = (True, s1)"
    "sample_started = watch_configuration busy_env s1"
    using started_sample by (auto simp: started_def split: prod.splits)
  ultimately have "serve busy_env sample_os line_config root_process
      = Runs line_config \<lparr>pf_filename = [], pf_handle = -1\<rparr> sample_started p2"
    using v by (simp add: serve_def p pf_valid_def)
  then show ?thesis using v by (simp add: main_def line_loaded become_daemon_def)
qed

theorem main_serves_safely_witness:
  "\<exists>fds tmo p'. main busy_env sample_os line_platform None line_getopt [] line_parser root_process
       = Some (Runs line_config \<lparr>pf_filename = [], pf_handle = -1\<rparr> sample_started p')
     \<and> reachable busy_env sample_started fds tmo busy_two \<and> in_range line_config \<and> 0 \<notin> {p_euid p', p_ruid p', p_suid p'}"
proof -
  obtain p' where m: "main busy_env sample_os line_platform None line_getopt [] line_parser root_process
     = Some (Runs line_config \<lparr>pf_filename = [], pf_handle = -1\<rparr> sample_started p')" using main_line by blast
  obtain fds tmo where r: "reachable busy_env sample_started fds tmo busy_two" using reachable_two by blast
  have "p_euid root_process = 0" by (simp add: root_process_def)
  with main_serves_safely [OF env_ok_busy m [unfolded line_parser_def] r] m r show ?thesis by blast
qed

end
