(* ===== verification/Teardown.thy ===== *)
theory Teardown
  imports Program Turn
begin

text \<open>
  The end of the program: the signal handler of \<open>src/src/main.cpp\<close> and \<open>Dote::shutdown\<close>, and what is destroyed
  after the loop has ended, which it does at the latest when the signal makes \<open>poll\<close> fail: the watch, the PID
  file and, after the return from \<open>main\<close>, the static \<open>Dote\<close> with the server and the pool.

  The signal may also come while a handler runs; the last section has the turns of the loop that follow then.

  The sockets of the server are shared with the queries: a query in the queue and the callback of a connection
  own the socket they have to answer on, and the last owner closes it.
\<close>

subsection \<open>Who owns a socket\<close>

definition reply_socket :: "ForwarderConnection \<Rightarrow> int option" where
  "reply_socket c = map_option rp_socket (c_incoming c)"

definition pool_holds :: "system \<Rightarrow> nat list \<Rightarrow> int \<Rightarrow> bool" where
  "pool_holds s is h \<longleftrightarrow> (\<exists>i \<in> set is. Option.bind (s_heap s i) reply_socket = Some h)"

definition queue_holds :: "QueuedQuery list \<Rightarrow> int \<Rightarrow> bool" where
  "queue_holds qs h \<longleftrightarrow> (\<exists>q \<in> set qs. rp_socket (q_reply q) = h)"

lemma holds_Nil [simp]: "pool_holds s [] = (\<lambda>h. False)" "queue_holds [] = (\<lambda>h. False)"
  by (intro ext, simp add: pool_holds_def queue_holds_def)+

lemma queue_holds_Cons: "queue_holds (q # qs) h \<longleftrightarrow> rp_socket (q_reply q) = h \<or> queue_holds qs h"
  by (auto simp: queue_holds_def)

subsection \<open>The destructors\<close>

text \<open>The vector of the server destroys its pairs, in each the registration before the socket.\<close>

fun release_servers :: "(int \<Rightarrow> bool) \<Rightarrow> (Socket \<times> Registration) list \<Rightarrow> world \<Rightarrow> world" where
  "release_servers held [] w = w"
| "release_servers held ((s, r) # rest) w =
     (let w = w\<lparr>w_loop := snd (reset r (w_loop w))\<rparr>
      in release_servers held rest (if held (m_handle s) then w else snd (socket_close s w)))"

definition Dote_shutdown :: "system \<Rightarrow> system" where
  "Dote_shutdown s =
     s\<lparr>s_world := release_servers (\<lambda>h. pool_holds s (s_forwarders s) h \<or> queue_holds (s_queue s) h) (s_servers s) (s_world s),
       s_servers := []\<rparr>"

text \<open>The handler of SIGINT and SIGTERM, which are set when \<open>g_dote\<close> is.\<close>

definition shutdownHandler :: "system \<Rightarrow> system" where
  "shutdownHandler s = Dote_shutdown s"

definition delete_VyattaCheck :: "VyattaCheck \<Rightarrow> world \<Rightarrow> world" where
  "delete_VyattaCheck v w =
     (let w = (if vc_fd v \<ge> 0 then close_handle (vc_fd v) w else w)
      in w\<lparr>w_loop := snd (reset (vc_read v) (w_loop w))\<rparr>)"

fun drop_queue :: "(int \<Rightarrow> bool) \<Rightarrow> QueuedQuery list \<Rightarrow> world \<Rightarrow> world" where
  "drop_queue held [] w = w"
| "drop_queue held (q # qs) w =
     (let h = rp_socket (q_reply q)
      in drop_queue held qs (if held h \<or> queue_holds qs h then w else close_handle h w))"

text \<open>The connections of the vector, each with the socket its callback owns.\<close>

fun destroy_pool :: "nat list \<Rightarrow> system \<Rightarrow> system option" where
  "destroy_pool [] s = Some s"
| "destroy_pool (i # is) s = do {
     c \<leftarrow> s_heap s i;
     s \<leftarrow> destroy i s;
     let s = (case reply_socket c of
                Some h \<Rightarrow> if pool_holds s is h then s else s\<lparr>s_world := close_handle h (s_world s)\<rparr>
              | None \<Rightarrow> s);
     destroy_pool is s
   }"

text \<open>The queue is declared after the connections and goes first.\<close>

definition delete_ClientForwarders :: "system \<Rightarrow> system option" where
  "delete_ClientForwarders s =
     destroy_pool (s_forwarders s)
       (s\<lparr>s_world := drop_queue (pool_holds s (s_forwarders s)) (s_queue s) (s_world s), s_queue := []\<rparr>)"

definition delete_Dote :: "system \<Rightarrow> system option" where
  "delete_Dote s = delete_ClientForwarders (Dote_shutdown s)"

text \<open>From the end of \<open>run\<close>: the watch and the PID file are locals of \<open>main\<close>, \<open>g_dote\<close> is static.\<close>

definition leave_main :: "os \<Rightarrow> PidFile \<Rightarrow> system \<Rightarrow> process \<Rightarrow> (system \<times> process) option" where
  "leave_main os pidFile s p = do {
     let s = (case s_watch s of
                Some v \<Rightarrow> s\<lparr>s_world := delete_VyattaCheck v (s_world s), s_watch := None\<rparr>
              | None \<Rightarrow> s);
     let p = delete_PidFile os pidFile p;
     s \<leftarrow> delete_Dote s;
     Some (s, p)
   }"

subsection \<open>What the destructors do\<close>

definition plain_pair :: "Socket \<times> Registration \<Rightarrow> bool" where
  "plain_pair e \<longleftrightarrow> snd e = \<lparr>r_handle = m_handle (fst e), r_type = Read\<rparr> \<and> m_handle (fst e) \<noteq> -1"

definition plain_watch :: "VyattaCheck \<Rightarrow> bool" where
  "plain_watch v \<longleftrightarrow> vc_read v = (if vc_fd v \<ge> 0 then \<lparr>r_handle = vc_fd v, r_type = Read\<rparr> else no_registration)"

text \<open>Nothing but the handles \<open>H\<close> is open and read from, or open because a query waits for its answer.\<close>

definition only_these :: "int set \<Rightarrow> (int \<Rightarrow> bool) \<Rightarrow> world \<Rightarrow> bool" where
  "only_these H held w \<longleftrightarrow> loop_ok (w_loop w) \<and> distinct (w_open w) \<and> set (w_open w) \<subseteq> H \<union> Collect held
     \<and> (\<forall>t h. handler (w_loop w) t h \<noteq> None \<longrightarrow> t = Read \<and> h \<in> H)"

lemma only_these_drop:
  assumes "only_these (insert h H) held w"
  shows "only_these H held (close_handle h (w\<lparr>w_loop := snd (reset \<lparr>r_handle = h, r_type = Read\<rparr> (w_loop w))\<rparr>))"
    and "held h \<Longrightarrow> only_these H held (w\<lparr>w_loop := snd (reset \<lparr>r_handle = h, r_type = Read\<rparr> (w_loop w))\<rparr>)"
proof -
  let ?l = "snd (reset \<lparr>r_handle = h, r_type = Read\<rparr> (w_loop w))"
  have o: "loop_ok (w_loop w)" "distinct (w_open w)" "set (w_open w) \<subseteq> insert h H \<union> Collect held"
    "\<And>t k. handler (w_loop w) t k \<noteq> None \<Longrightarrow> t = Read \<and> k \<in> insert h H"
    using assms unfolding only_these_def by blast+
  have "handler ?l t k = (if t = Read \<and> k = h then None else handler (w_loop w) t k)" for t k
    by (simp add: handler_reset reg_valid_def install_apply)
  with o(4) have hd: "\<forall>t k. handler ?l t k \<noteq> None \<longrightarrow> t = Read \<and> k \<in> H" by (metis insertE)
  have l: "loop_ok ?l" using o(1) by (rule loop_ok_reset)
  show "only_these H held (close_handle h (w\<lparr>w_loop := ?l\<rparr>))"
    using o(2,3) hd l by (auto simp: only_these_def close_handle_def set_remove1_eq)
  show "only_these H held (w\<lparr>w_loop := ?l\<rparr>)" if "held h"
    using o(2,3) hd l that by (auto simp: only_these_def)
qed

lemma release_servers_only:
  "\<forall>e \<in> set es. plain_pair e \<Longrightarrow> only_these ((\<lambda>e. m_handle (fst e)) ` set es \<union> H) held w \<Longrightarrow>
   only_these H held (release_servers held es w)"
proof (induction es arbitrary: w)
  case (Cons e es)
  obtain k r where e: "e = (k, r)" by fastforce
  with Cons.prems(1) have r: "r = \<lparr>r_handle = m_handle k, r_type = Read\<rparr>" "m_handle k \<noteq> -1" by (auto simp: plain_pair_def)
  have "only_these (insert (m_handle k) ((\<lambda>e. m_handle (fst e)) ` set es \<union> H)) held w" using Cons.prems(2) by (simp add: e)
  note d = only_these_drop [OF this]
  show ?case
    using Cons.IH d Cons.prems(1) r by (cases "held (m_handle k)") (simp_all add: e socket_close_def)
qed simp

lemma drop_queue_only:
  "only_these {} (queue_holds qs) w \<Longrightarrow> only_these {} (\<lambda>h. False) (drop_queue (\<lambda>h. False) qs w)"
proof (induction qs arbitrary: w)
  case (Cons q qs)
  let ?h = "rp_socket (q_reply q)"
  have "only_these {} (queue_holds qs) (if queue_holds qs ?h then w else close_handle ?h w)"
    using Cons.prems by (auto simp: only_these_def close_handle_def queue_holds_Cons set_remove1_eq)
  from Cons.IH [OF this] show ?case by (simp add: Let_def)
qed (auto simp: only_these_def)

lemma only_these_none: "only_these {} (\<lambda>h. False) w \<longleftrightarrow> loop_ok (w_loop w) \<and> w_open w = [] \<and> (\<forall>t h. handler (w_loop w) t h = None)"
  by (simp add: only_these_def) (metis distinct.simps(1) not_None_eq surj_pair)

text \<open>A system without connections in which every open handle has its owner.\<close>

definition idle :: "system \<Rightarrow> bool" where
  "idle s \<longleftrightarrow> s_forwarders s = [] \<and> (\<forall>e \<in> set (s_servers s). plain_pair e)
     \<and> (\<forall>v. s_watch s = Some v \<longrightarrow> plain_watch v)
     \<and> only_these (set (server_handles s)) (queue_holds (s_queue s)) (s_world s)"

lemma idle_shutdown:
  assumes "idle s"
  shows "idle (Dote_shutdown s) \<and> s_servers (Dote_shutdown s) = [] \<and> s_watch (Dote_shutdown s) = s_watch s"
proof -
  have "pool_holds s (s_forwarders s) = (\<lambda>h. False)" using assms by (auto simp: idle_def)
  moreover have "only_these (set (watch_handles s)) (queue_holds (s_queue s))
      (release_servers (queue_holds (s_queue s)) (s_servers s) (s_world s))"
    using assms by (intro release_servers_only) (auto simp: idle_def server_handles_def socket_handles_def)
  ultimately show ?thesis
    using assms by (simp add: idle_def Dote_shutdown_def server_handles_def socket_handles_def watch_handles_def)
qed

lemma idle_leaves:
  assumes i: "idle s"
  shows "\<exists>s'. leave_main os f s p = Some (s', delete_PidFile os f p) \<and> w_open (s_world s') = []
    \<and> (\<forall>t h. handler (system_loop s') t h = None)"
proof -
  define s1 where "s1 = (case s_watch s of
      Some v \<Rightarrow> s\<lparr>s_world := delete_VyattaCheck v (s_world s), s_watch := None\<rparr> | None \<Rightarrow> s)"
  have "idle s1 \<and> s_watch s1 = None"
  proof (cases "s_watch s")
    case (Some v)
    have pw: "plain_watch v" using i Some by (simp add: idle_def)
    have o: "only_these (set (socket_handles s) \<union> set (watch_handles s)) (queue_holds (s_queue s)) (s_world s)"
      using i by (simp add: idle_def server_handles_def)
    have "only_these (set (socket_handles s)) (queue_holds (s_queue s)) (delete_VyattaCheck v (s_world s))"
    proof (cases "vc_fd v \<ge> 0")
      case True
      then have "only_these (insert (vc_fd v) (set (socket_handles s))) (queue_holds (s_queue s)) (s_world s)"
        using o Some by (simp add: watch_handles_def)
      from only_these_drop(1) [OF this] show ?thesis
        using pw True by (simp add: delete_VyattaCheck_def plain_watch_def close_handle_def only_these_def)
    next
      case False
      then show ?thesis
        using o pw Some by (simp add: delete_VyattaCheck_def plain_watch_def watch_handles_def no_registration_def reset_def)
    qed
    with i Some show ?thesis
      by (simp add: s1_def idle_def server_handles_def socket_handles_def watch_handles_def)
  qed (use i in \<open>simp add: s1_def\<close>)
  with idle_shutdown [of s1] have d: "idle (Dote_shutdown s1)" "server_handles (Dote_shutdown s1) = []"
    by (simp_all add: server_handles_def socket_handles_def watch_handles_def)
  let ?s = "Dote_shutdown s1"
  have np: "pool_holds ?s (s_forwarders ?s) = (\<lambda>h. False)" "s_forwarders ?s = []" using d(1) by (auto simp: idle_def)
  have "only_these {} (queue_holds (s_queue ?s)) (s_world ?s)" using d by (simp add: idle_def)
  from drop_queue_only [OF this] obtain w where
    w: "w = drop_queue (\<lambda>h. False) (s_queue ?s) (s_world ?s)" "w_open w = []" "\<forall>t h. handler (w_loop w) t h = None"
    by (simp add: only_these_none)
  have "delete_Dote s1 = Some (?s\<lparr>s_world := w, s_queue := []\<rparr>)"
    using np w(1) by (simp add: delete_Dote_def delete_ClientForwarders_def)
  then have "leave_main os f s p = Some (?s\<lparr>s_world := w, s_queue := []\<rparr>, delete_PidFile os f p)"
    by (simp add: leave_main_def s1_def [symmetric])
  with w(2,3) show ?thesis by (simp add: system_loop_def)
qed

text \<open>A connection that is destroyed calls its owner.\<close>

lemma fc_close_calls:
  assumes "c_socket c \<noteq> None" and "c_shutdown c"
  shows "snd (snd (fc_close c w)) = Call_shutdown"
  using assms by (auto simp: fc_close_def reset_read_def reset_write_def reset_exception_def split: option.splits prod.splits)

lemma busy_does_not_leave:
  assumes "s_forwarders s = i # is" and "s_heap s i = Some c" and "c_socket c \<noteq> None" and "c_shutdown c"
  shows "leave_main os f s p = None"
proof -
  have "destroy i s' = None" if "s_heap s' = s_heap s" for s'
    using fc_close_calls [OF assms(3,4), of "s_world s'"] assms(2) that
    by (cases "fc_close c (s_world s')") (simp add: destroy_def)
  then have "destroy_pool (i # is) s' = None" if "s_heap s' = s_heap s" for s'
    using assms(2) that by simp
  then show ?thesis
    using assms(1,2) by (simp add: leave_main_def delete_Dote_def delete_ClientForwarders_def Dote_shutdown_def del: destroy_pool.simps
        split: option.split)
qed

subsection \<open>The states the loop ends in\<close>

lemma started_plain:
  assumes env: "env_ok env" and st: "started env fs t m servers s"
  shows "(\<forall>e \<in> set (s_servers s). plain_pair e) \<and> (\<forall>v. s_watch s = Some v \<longrightarrow> plain_watch v)"
proof -
  obtain b s1 where l: "listen_all env servers (new_dote fs t m) = (b, s1)" by fastforce
  with st have s: "s = watch_configuration env s1" by (auto simp: started_def listen_def split: if_splits)
  note n = new_dote_ok [of fs t m] new_dote_fields(3) [of fs t m]
  have d: "plain_servers (new_dote fs t m)" by (simp add: plain_servers_def new_dote_def new_system_def)
  have pl: "plain_servers s1" using listen_all_plain [OF env _ _ d l] n by blast
  have "sys_ok s1" using listen_all_ok [OF env _ _ _ l] n by blast
  then have ho: "handlers_open (s_world s1)" by (simp add: sys_ok_def pool_ok_def)
  obtain v w where nv: "new_VyattaCheck env (s_world s1) = (v, w)" by fastforce
  have h: "e_inotify_init env t hs = -1 \<or> 0 \<le> e_inotify_init env t hs \<and> e_inotify_init env t hs \<notin> set hs" for t hs
    using env by (simp add: env_ok_def)
  have v: "vc_read v = no_registration"
    "0 \<le> vc_fd v \<Longrightarrow> w_loop w = w_loop (s_world s1) \<and> vc_fd v \<notin> set (w_open (s_world s1))"
    using nv h [of "w_tick (s_world s1)" "w_open (s_world s1)"]
    by (auto simp: new_VyattaCheck_def call_def close_handle_def Let_def split: if_splits)
  have "plain_watch (fst (configure_watch v w))"
  proof (cases "0 \<le> vc_fd v")
    case True
    then have "handler (w_loop w) Read (vc_fd v) = None" "loop_ok (w_loop w)"
      using v(2) ho by (simp_all add: handlers_open_def)
    from registerRead_fresh(1) [OF this(2,1), of Cb_config 0] True v(1) show ?thesis
      by (cases "registerRead (vc_fd v) Cb_config 0 (w_loop w)") (simp add: configure_watch_def plain_watch_def move_assign_empty)
  qed (use v(1) in \<open>simp add: configure_watch_def plain_watch_def\<close>)
  moreover have "s_watch s = Some (fst (configure_watch v w))" "s_servers s = s_servers s1"
    by (simp_all add: s watch_configuration_def nv split: prod.splits)
  ultimately show ?thesis using pl by (auto simp: plain_servers_def plain_pair_def)
qed

lemma reachable_idle:
  assumes env: "env_ok env" and st: "started env fs t m servers s0" and r: "reachable env s0 fds tmo s"
    and "s_forwarders s = []"
  shows "idle s"
proof -
  note i = started_inv [OF env st]
  from reachable_step_ok [OF r] i have ok: "sys_ok s" and same: "s_servers s = s_servers s0" "s_watch s = s_watch s0"
    by (auto simp: inv_def step_ok_def)
  have pool: "pool_ok [] s" using ok assms(4) by (simp add: sys_ok_def)
  have "t = Read \<and> h \<in> set (server_handles s)" if hd: "handler (system_loop s) t h \<noteq> None" for t h
  proof -
    have h: "h \<in> set (server_handles s)" using pool_owned [OF pool hd] by simp
    then have "server_ok s h" using pool by (simp add: pool_ok_def)
    with hd h show ?thesis by (cases t) (simp_all add: server_ok_def)
  qed
  then have "only_these (set (server_handles s)) (queue_holds (s_queue s)) (s_world s)"
    using pool by (auto simp: only_these_def pool_ok_def handlers_open_def system_loop_def)
  then show ?thesis using started_plain [OF env st] same assms(4) by (simp add: idle_def)
qed

text \<open>
  Property C11 (error). The end of the program, after a signal or without one, is defined exactly when no connection is in
  the pool.  Then every socket is closed, also those that queries held, and no handler is left.  With a connection in
  the pool, a request in progress, its destructor calls back into the pool that is being destroyed.
\<close>

theorem exit_is_defined_iff_idle:
  assumes "env_ok env" and "started env fs t m servers s0" and "reachable env s0 fds tmo s"
    and "s' = (if signalled then shutdownHandler s else s)"
  shows "(leave_main os f s' p \<noteq> None \<longleftrightarrow> s_forwarders s = [])
    \<and> (\<forall>s1 p1. leave_main os f s' p = Some (s1, p1) \<longrightarrow>
         w_open (s_world s1) = [] \<and> (\<forall>ty h. handler (system_loop s1) ty h = None) \<and> p1 = delete_PidFile os f p)"
proof (cases "s_forwarders s")
  case Nil
  have "idle s" by (rule reachable_idle [OF assms(1-3) Nil])
  then have "idle s'" using idle_shutdown assms(4) by (simp add: shutdownHandler_def)
  from idle_leaves [OF this, of os f p] Nil show ?thesis by auto
next
  case (Cons i rest)
  have "sys_ok s" using reachable_step_ok [OF assms(3)] started_inv [OF assms(1,2)] by (auto simp: inv_def)
  then have "live s i" using Cons by (simp add: sys_ok_def pool_ok_def)
  then obtain c where c: "s_heap s i = Some c" "c_socket c \<noteq> None" "c_shutdown c"
    by (auto simp: live_def conn_ok_def conn_core_def)
  have "s_forwarders s' = i # rest" "s_heap s' = s_heap s"
    using Cons assms(4) by (simp_all add: shutdownHandler_def Dote_shutdown_def)
  from busy_does_not_leave [OF this(1), of c] this(2) c Cons show ?thesis by simp
qed

theorem exit_is_defined_iff_idle_witness:
  "leave_main sample_os \<lparr>pf_filename = [], pf_handle = -1\<rparr> (shutdownHandler busy_two) root_process = None
   \<and> (\<exists>s1 p1. leave_main sample_os \<lparr>pf_filename = [], pf_handle = -1\<rparr> (shutdownHandler sample_reloaded) root_process = Some (s1, p1)
        \<and> w_open (s_world s1) = [] \<and> w_open (s_world sample_reloaded) = [9, 3])"
proof -
  let ?f = "\<lparr>pf_filename = [], pf_handle = -1\<rparr>"
  obtain fds tmo where r: "reachable busy_env sample_started fds tmo busy_two" using reachable_two by blast
  have "s_forwarders busy_two \<noteq> []" by (simp add: busy_two_def busy_one_def)
  with exit_is_defined_iff_idle [OF env_ok_busy started_sample r, of "shutdownHandler busy_two" True sample_os ?f root_process]
  have 1: "leave_main sample_os ?f (shutdownHandler busy_two) root_process = None" by (metis not_None_eq)
  obtain fds tmo where r: "reachable watch_env sample_watched fds tmo sample_reloaded" using reachable_reloaded by blast
  have "s_forwarders sample_reloaded = []"
    by (simp add: sample_reloaded_def sample_watched_def sample_started_def)
  with exit_is_defined_iff_idle [OF env_ok_watch started_watched r, of "shutdownHandler sample_reloaded" True sample_os ?f root_process]
  obtain s1 p1 where "leave_main sample_os ?f (shutdownHandler sample_reloaded) root_process = Some (s1, p1)" "w_open (s_world s1) = []"
    by auto
  with 1 show ?thesis by (simp add: sample_reloaded_def sample_watched_def)
qed

subsection \<open>The loop after the signal\<close>

text \<open>The signal may arrive while a handler runs, so that \<open>poll\<close> does not fail, and turns follow.\<close>

lemma handler_release:
  "\<forall>e \<in> set es. plain_pair e \<Longrightarrow> handler (w_loop (release_servers held es w)) t h =
     (if t = Read \<and> h \<in> (\<lambda>e. m_handle (fst e)) ` set es then None else handler (w_loop w) t h)"
proof (induction es arbitrary: w)
  case (Cons e es)
  obtain k r where e: "e = (k, r)" by fastforce
  with Cons.prems have "r = \<lparr>r_handle = m_handle k, r_type = Read\<rparr>" "m_handle k \<noteq> -1" "\<forall>e \<in> set es. plain_pair e" by (auto simp: plain_pair_def)
  then show ?case
    using Cons.IH by (simp add: e Let_def socket_close_def close_handle_def handler_reset reg_valid_def install_apply) auto
qed simp

lemma populateFds_Nil_iff:
  "populateFds m fds = [] \<longleftrightarrow> m_readFunctions m = [] \<and> m_writeFunctions m = [] \<and> m_exceptFunctions m = []"
proof
  assume p: "populateFds m fds = []"
  show "m_readFunctions m = [] \<and> m_writeFunctions m = [] \<and> m_exceptFunctions m = []"
  proof (rule ccontr)
    assume "\<not> ?thesis"
    then have "\<exists>fd \<in> set (popluateFds (popluateFds (popluateFds (clearFds fds) (m_readFunctions m) POLLIN)
        (m_writeFunctions m) POLLOUT) (m_exceptFunctions m) POLLERR). p_events fd \<noteq> 0"
      using popluateFds_wanted poll_events_distinct_bits(1-3) by metis
    with p show False by (auto simp: populateFds_def removeFds_def filter_empty_conv)
  qed
qed (auto simp: populateFds_def removeFds_def popluateFds_def clearFds_def)

lemma populateFds_Nil_handlers: "populateFds m fds = [] \<longleftrightarrow> (\<forall>t h. handler m t h = None)"
proof -
  have e: "xs = [] \<longleftrightarrow> (\<forall>h. map_of xs h = None)" for xs :: "(int \<times> 'b) list"
    by (cases xs) (auto simp: fun_eq_iff split: if_splits)
  have "(\<forall>t h. handler m t h = None) \<longleftrightarrow> (\<forall>h. handler m Read h = None) \<and> (\<forall>h. handler m Write h = None) \<and> (\<forall>h. handler m Exception h = None)"
    by (metis RegType.exhaust handler.simps(4))
  then show ?thesis
    unfolding populateFds_Nil_iff e by (simp add: handler.simps)
qed

text \<open>Nothing but the watch is left.\<close>

definition watching :: "int list \<Rightarrow> system \<Rightarrow> bool" where
  "watching hs s \<longleftrightarrow> (\<forall>t h. handler (system_loop s) t h = (if t = Read \<and> h \<in> set hs then Some (Cb_config, 0) else None))"

lemma config_keeps_loop: "handleConfigRead env s = Some s' \<Longrightarrow> system_loop s' = system_loop s"
  by (auto simp: handleConfigRead_def call_def system_loop_def bind_eq_Some_conv)

interpretation watch_turn: callbacks_within system_loop "exec env" "watching hs" "\<lambda>s s'. watching hs s'" for env hs
proof unfold_locales
  fix s t h cb tm s'
  assume "watching hs s" "handler (system_loop s) t h = Some (cb, tm)" and e: "exec env cb h s = Some s'"
  then have "cb = Cb_config" "watching hs s" unfolding watching_def by (metis option.distinct(1) option.inject prod.inject)+
  with e show "watching hs s'" using config_keeps_loop [of env s s'] by (simp add: watching_def)
qed

lemma runs_on_watching: "runs_on env s0 s \<Longrightarrow> watching hs s0 \<Longrightarrow> watching hs s"
proof (induction rule: runs_on.induct)
  case (turn s now revents fds fds' tmo s')
  then show ?case using watch_turn.run_body_within [of hs s] by blast
qed

lemma shut_down_handlers:
  assumes "env_ok env" and "started env fs t m servers s0" and "reachable env s0 fds tmo s"
  shows "handler (system_loop (shutdownHandler s)) ty h =
    (if ty = Read \<and> h \<in> set (socket_handles s) then None else handler (system_loop s) ty h)"
proof -
  have "s_servers s = s_servers s0" using reachable_step_ok [OF assms(3)] started_inv [OF assms(1,2)] by (auto simp: inv_def step_ok_def)
  then show ?thesis
    using handler_release [of "s_servers s"] started_plain [OF assms(1,2)]
    by (simp add: shutdownHandler_def Dote_shutdown_def system_loop_def socket_handles_def)
qed

text \<open>
  Property C12 (liveness). Right after the signal the loop has something left to poll exactly while there are
  requests in progress or the configuration is watched.  When the signal comes while no request is in progress, this
  stays so whatever turns follow: without the watch nothing is ever left to poll, with it no sequence of turns, whatever is
  polled and reloaded, empties the loop.
\<close>

theorem shutdown_ends_loop_iff:
  assumes "env_ok env" and "started env fs t m servers s0" and "reachable env s0 fds tmo s"
  shows "(populateFds (system_loop (shutdownHandler s)) old = [] \<longleftrightarrow> s_forwarders s = [] \<and> watch_handles s = [])
    \<and> (s_forwarders s = [] \<and> runs_on env (shutdownHandler s) s' \<longrightarrow> (populateFds (system_loop s') old = [] \<longleftrightarrow> watch_handles s = []))"
proof -
  note down = shut_down_handlers [OF assms]
  have ok: "sys_ok s" using reachable_step_ok [OF assms(3)] started_inv [OF assms(1,2)] by (auto simp: inv_def)
  show ?thesis
  proof (cases "s_forwarders s")
    case Nil
    have pool: "pool_ok [] s" using ok Nil by (simp add: sys_ok_def)
    then have d: "h \<notin> set (socket_handles s)" if "h \<in> set (watch_handles s)" for h
      using that by (auto simp: pool_ok_def server_handles_def)
    have w: "server_ok s h" if "h \<in> set (server_handles s)" for h using pool that by (simp add: pool_ok_def)
    have "handler (system_loop (shutdownHandler s)) ty h = (if ty = Read \<and> h \<in> set (watch_handles s) then Some (Cb_config, 0) else None)" for ty h
    proof (cases "handler (system_loop s) ty h")
      case (Some e)
      then have "h \<in> set (server_handles s)" using pool_owned [OF pool, of ty h] by simp
      with w [OF this] Some d show ?thesis by (cases ty) (auto simp: down server_ok_def server_handles_def)
    next
      case None
      then show ?thesis using w [of h] by (auto simp: down server_ok_def server_handles_def)
    qed
    then have "watching (watch_handles s) (shutdownHandler s)" by (simp add: watching_def)
    moreover have "populateFds (system_loop r) old = [] \<longleftrightarrow> watch_handles s = []" if "watching (watch_handles s) r" for r
      using that by (cases "watch_handles s") (auto simp: populateFds_Nil_handlers watching_def)
    ultimately show ?thesis using Nil runs_on_watching by blast
  next
    case (Cons i rest)
    then have "live s i" using ok by (simp add: sys_ok_def pool_ok_def)
    then obtain c where "conn_ok i (conn_handle c) c (s_world s)" by (auto simp: live_def)
    then have "handler (system_loop s) Exception (conn_handle c) \<noteq> None"
      by (auto simp: conn_ok_def conn_core_def slot_def system_loop_def split: if_splits)
    then have "handler (system_loop (shutdownHandler s)) Exception (conn_handle c) \<noteq> None" by (simp add: down)
    then show ?thesis using Cons by (auto simp: populateFds_Nil_handlers)
  qed
qed

theorem shutdown_ends_loop_iff_witness:
  "populateFds (system_loop (shutdownHandler sample_started)) [] = [] \<and> populateFds (system_loop (shutdownHandler busy_two)) [] \<noteq> []
   \<and> (\<exists>s'. runs_on watch_env (shutdownHandler sample_reloaded) s' \<and> populateFds (system_loop s') [] \<noteq> [])"
proof -
  have q: "overdue 0 m_readFunctions (system_loop sample_started) = {}" "overdue 0 m_writeFunctions (system_loop sample_started) = {}"
    by (auto simp: overdue_def system_loop_def sample_started_def)
  obtain fds tmo where e: "run_enter system_loop (exec busy_env) 0 sample_started = Some (fds, tmo, sample_started)"
    by (simp add: run_enter_def timeout_def timeout_map_quiet q)
  have 1: "s_forwarders sample_started = []" "watch_handles sample_started = []" "s_forwarders busy_two \<noteq> []"
    by (simp_all add: sample_started_def watch_handles_def busy_two_def busy_one_def)
  have 2: "s_forwarders sample_reloaded = []" "watch_handles sample_reloaded \<noteq> []"
    by (simp_all add: sample_reloaded_def sample_watched_def sample_started_def watch_handles_def)
  obtain f2 t2 where r2: "reachable busy_env sample_started f2 t2 busy_two" using reachable_two by blast
  obtain f3 t3 where r3: "reachable watch_env sample_watched f3 t3 sample_reloaded" using reachable_reloaded by blast
  note a = shutdown_ends_loop_iff [OF env_ok_busy started_sample reachable.enter [OF e], of "[]"]
  note b = shutdown_ends_loop_iff [OF env_ok_busy started_sample r2, of "[]"]
  note c = shutdown_ends_loop_iff [OF env_ok_watch started_watched r3, of "[]"]
  from a b c 1 2 runs_on.here show ?thesis by blast
qed

end
