(* ===== verification/Verify_Cache.thy ===== *)
theory Verify_Cache
  imports Certificate_Check
begin

text \<open>
  \<open>src/src/verify_cache.cpp\<close>: the certificate that was accepted last is accepted again for a while without
  a look at it.  A call gets the answer the wrapped verifier would give, \<open>None\<close> when there is none, and
  the time of the steady clock in nanoseconds.  \<open>chainVerifyTrampoline\<close> of
  \<open>src/src/openssl/context.cpp\<close>, which OpenSSL calls in place of its own verification, comes to it.
\<close>

record VerifyCache =
  v_timeout :: int
  m_cache :: bytes
  m_expiry :: int

definition new_VerifyCache :: "int \<Rightarrow> VerifyCache" where
  "new_VerifyCache seconds = \<lparr>v_timeout = seconds, m_cache = [], m_expiry = 0\<rparr>"

definition SECOND :: int where "SECOND = 1000000000"

definition forwardVerify :: "int option \<Rightarrow> int" where
  "forwardVerify verifier = (case verifier of Some answer \<Rightarrow> answer | None \<Rightarrow> 0)"

definition cache_verify :: "certificate option \<Rightarrow> int option \<Rightarrow> int \<Rightarrow> VerifyCache \<Rightarrow> int \<times> VerifyCache" where
  "cache_verify cert verifier now c =
     (let currentHash = getHash cert;
          c = (if now > m_expiry c then c\<lparr>m_cache := []\<rparr> else c)
      in if currentHash \<noteq> [] \<and> currentHash = m_cache c then (1, c)
         else let result = forwardVerify verifier
              in (result, if result = 1 then c\<lparr>m_cache := currentHash, m_expiry := now + v_timeout c * SECOND\<rparr> else c))"

definition chainVerifyTrampoline :: "VerifyCache option \<Rightarrow> certificate option \<Rightarrow> int option \<Rightarrow> int \<Rightarrow> int \<times> VerifyCache option" where
  "chainVerifyTrampoline chainVerifier cert verifier now =
     (case chainVerifier of
        Some c \<Rightarrow> (let (result, c) = cache_verify cert verifier now c in (result, Some c))
      | None \<Rightarrow> (0, None))"

subsection \<open>A sequence of verifications\<close>

record verification =
  vf_cert :: "certificate option"
  vf_answer :: "int option"
  vf_time :: int

fun cache_run :: "verification list \<Rightarrow> VerifyCache \<Rightarrow> int list \<times> VerifyCache" where
  "cache_run [] c = ([], c)"
| "cache_run (v # vs) c =
     (let (r, c) = cache_verify (vf_cert v) (vf_answer v) (vf_time v) c; (rs, c) = cache_run vs c in (r # rs, c))"

definition backed :: "int \<Rightarrow> verification list \<Rightarrow> bytes \<Rightarrow> int \<Rightarrow> bool" where
  "backed seconds vs hash expiry \<longleftrightarrow>
     (\<exists>v \<in> set vs. getHash (vf_cert v) = hash \<and> vf_answer v = Some 1 \<and> expiry = vf_time v + seconds * SECOND)"

lemma cache_verify_step:
  assumes "cache_verify (vf_cert v) (vf_answer v) (vf_time v) c = (r, c')"
    and "m_cache c \<noteq> [] \<longrightarrow> backed (v_timeout c) vs (m_cache c) (m_expiry c)"
  shows "v_timeout c' = v_timeout c" "m_cache c' \<noteq> [] \<longrightarrow> backed (v_timeout c) (vs @ [v]) (m_cache c') (m_expiry c')"
    "r = 1 \<longrightarrow> (\<exists>expiry. backed (v_timeout c) (vs @ [v]) (getHash (vf_cert v)) expiry \<and> (vf_answer v = Some 1 \<or> vf_time v \<le> expiry))"
  using assms by (auto simp: cache_verify_def backed_def forwardVerify_def Let_def split: if_splits option.splits)

lemma cache_run_backed:
  assumes "cache_run vs c = (rs, c')" and "m_cache c \<noteq> [] \<longrightarrow> backed (v_timeout c) us (m_cache c) (m_expiry c)"
  shows "length rs = length vs \<and> (\<forall>k < length vs. rs ! k = 1 \<longrightarrow>
    (\<exists>expiry. backed (v_timeout c) (us @ take (Suc k) vs) (getHash (vf_cert (vs ! k))) expiry
       \<and> (vf_answer (vs ! k) = Some 1 \<or> vf_time (vs ! k) \<le> expiry)))"
  using assms
proof (induction vs arbitrary: c us rs)
  case (Cons v vs)
  obtain r c1 where r: "cache_verify (vf_cert v) (vf_answer v) (vf_time v) c = (r, c1)" by fastforce
  obtain rs1 c2 where rs: "cache_run vs c1 = (rs1, c2)" by fastforce
  with Cons.prems(1) r have e: "rs = r # rs1" "cache_run vs c1 = (rs1, c')" by auto
  note st = cache_verify_step [OF r Cons.prems(2)]
  from Cons.IH [OF e(2), of "us @ [v]"] st(1,2) have ih: "length rs1 = length vs \<and> (\<forall>k < length vs. rs1 ! k = 1 \<longrightarrow>
    (\<exists>expiry. backed (v_timeout c) (us @ take (Suc (Suc k)) (v # vs)) (getHash (vf_cert (vs ! k))) expiry
       \<and> (vf_answer (vs ! k) = Some 1 \<or> vf_time (vs ! k) \<le> expiry)))" by simp
  show ?case
  proof (intro conjI allI impI)
    show "length rs = length (v # vs)" using ih e(1) by simp
    fix k assume k: "k < length (v # vs)" "rs ! k = 1"
    show "\<exists>expiry. backed (v_timeout c) (us @ take (Suc k) (v # vs)) (getHash (vf_cert ((v # vs) ! k))) expiry
       \<and> (vf_answer ((v # vs) ! k) = Some 1 \<or> vf_time ((v # vs) ! k) \<le> expiry)"
      using k e(1) st(3) ih by (cases k) auto
  qed
qed simp

text \<open>
  Property C27 (safety). The cache never invents an acceptance: whenever a verification is answered with 1, then the
  wrapped verifier said so for a certificate with the same digest, in this or an earlier verification that is
  no longer ago than the time-out.
\<close>

theorem cached_acceptance_is_recent:
  assumes "cache_run vs (new_VerifyCache seconds) = (rs, c)" and "k < length vs" and "rs ! k = 1" and "0 \<le> seconds"
  shows "\<exists>j \<le> k. getHash (vf_cert (vs ! j)) = getHash (vf_cert (vs ! k)) \<and> vf_answer (vs ! j) = Some 1
    \<and> vf_time (vs ! k) \<le> vf_time (vs ! j) + seconds * SECOND"
proof (cases "vf_answer (vs ! k) = Some 1")
  case True
  then show ?thesis using assms(4) by (intro exI [of _ k]) (simp add: SECOND_def)
next
  case False
  from cache_run_backed [OF assms(1), of "[]"] assms(2,3) False obtain expiry where
    "backed seconds (take (Suc k) vs) (getHash (vf_cert (vs ! k))) expiry" "vf_time (vs ! k) \<le> expiry"
    by (auto simp: new_VerifyCache_def)
  then obtain v where v: "v \<in> set (take (Suc k) vs)" "getHash (vf_cert v) = getHash (vf_cert (vs ! k))" "vf_answer v = Some 1"
    "vf_time (vs ! k) \<le> vf_time v + seconds * SECOND" by (auto simp: backed_def)
  from v(1) obtain j where "j < length (take (Suc k) vs)" "take (Suc k) vs ! j = v" by (metis in_set_conv_nth)
  then have "j \<le> k" "vs ! j = v" by auto
  with v(2-4) show ?thesis by blast
qed

definition seen :: "int option \<Rightarrow> int \<Rightarrow> verification" where
  "seen answer t = \<lparr>vf_cert = Some (sample_cert [7]), vf_answer = answer, vf_time = t\<rparr>"

theorem cached_acceptance_is_recent_witness:
  "fst (cache_run [seen (Some 1) 5, seen (Some 0) 9] (new_VerifyCache 10)) ! 1 = 1
   \<and> (\<exists>j \<le> 1. vf_answer ([seen (Some 1) 5, seen (Some 0) 9] ! j) = Some 1)"
proof -
  have r: "cache_run [seen (Some 1) 5, seen (Some 0) 9] (new_VerifyCache 10)
    = ([1, 1], \<lparr>v_timeout = 10, m_cache = [1], m_expiry = 10000000005\<rparr>)"
    by (simp add: cache_verify_def seen_def new_VerifyCache_def getHash_def getCertificateHash_def sample_cert_def forwardVerify_def SECOND_def)
  from cached_acceptance_is_recent [OF r, of 1] r show ?thesis by auto
qed

text \<open>
  Property C31 (error). A certificate in the cache is accepted whatever the wrapped verifier would say, and so
  without the callback that checks host and pin: one that was accepted for one forwarder is accepted for every
  other until the cache expires.
\<close>

theorem cached_certificate_skips_checks:
  assumes "fst (cache_verify cert (Some 1) t c) = 1" and "getHash cert \<noteq> []" and "m_expiry c < t"
    and "t \<le> t'" and "t' \<le> t + v_timeout c * SECOND"
  shows "fst (chainVerifyTrampoline (Some (snd (cache_verify cert (Some 1) t c))) cert answer t') = 1"
  using assms by (simp add: chainVerifyTrampoline_def cache_verify_def forwardVerify_def)

theorem cached_certificate_skips_checks_witness:
  "fst (chainVerifyTrampoline (Some (snd (cache_verify (Some (sample_cert [7])) (Some 1) 5 (new_VerifyCache 10))))
     (Some (sample_cert [7])) (Some 0) 9) = 1"
  by (rule cached_certificate_skips_checks)
    (simp_all add: cache_verify_def new_VerifyCache_def getHash_def getCertificateHash_def sample_cert_def forwardVerify_def SECOND_def)

end
