(* ===== verification/Ssl_Context.thy ===== *)
theory Ssl_Context
  imports Verify_Cache "HOL-Library.Multiset"
begin

text \<open>
  \<open>src/src/openssl/context.cpp\<close> with the constructor and destructor of \<open>ssl_connection.cpp\<close>: the life of the OpenSSL
  context, from the constructor, which may have to initialise the library, to the destructor; the cached session with
  the reference it holds; the SSL objects of the connections, and how the callback of a verification finds the
  connection it is for.

  What is in OpenSSL is the record \<open>library\<close>: the contexts that are not freed, with what was set on them, the
  references to contexts the program holds, the SSL objects that are not freed, each with the context it refers to, the
  references to sessions the program owns, the extra data of the SSL objects, and the two static variables of the file.
  A context is freed with the last reference to it, of the program or of an SSL object.  What its calls answer is the record \<open>openssl\<close> of functions from the number of the call, as in \<open>World\<close>.
\<close>

datatype ssl_option = NO_SSLv2 | NO_SSLv3 | NO_COMPRESSION

record ssl_ctx =
  sc_ciphers :: string
  sc_options :: "ssl_option list"
  sc_default_paths :: bool
  sc_verify_peer :: bool
  sc_trampoline :: bool
  sc_chain :: bool

record library =
  lb_tick :: nat
  lb_ctxs :: "(nat \<times> ssl_ctx) list"
  lb_held :: "nat list"
  lb_ssls :: "(nat \<times> nat) list"
  lb_next :: nat
  lb_sessions :: "nat multiset"
  lb_data :: "(nat \<times> int) \<rightharpoonup> nat"
  lb_initialised :: bool
  lb_index :: int

record openssl =
  os_method :: "nat \<Rightarrow> bool"
  os_ctx_new :: "nat \<Rightarrow> bool"
  os_new_index :: "nat \<Rightarrow> int"
  os_ciphers :: "nat \<Rightarrow> bool"
  os_default_paths :: "nat \<Rightarrow> bool"
  os_ssl_new :: "nat \<Rightarrow> bool"
  os_set_data :: "nat \<Rightarrow> bool"
  os_get1_session :: "nat \<Rightarrow> nat option"

record Context =
  x_context :: "nat option"
  x_session :: "nat option"
  x_chain :: bool

definition invoke :: "(nat \<Rightarrow> 'a) \<Rightarrow> library \<Rightarrow> 'a \<times> library" where
  "invoke f lb = (f (lb_tick lb), lb\<lparr>lb_tick := Suc (lb_tick lb)\<rparr>)"

definition new_ssl_ctx :: ssl_ctx where
  "new_ssl_ctx = \<lparr>sc_ciphers = [], sc_options = [], sc_default_paths = False, sc_verify_peer = False,
     sc_trampoline = False, sc_chain = False\<rparr>"

definition SSL_CTX_new :: "openssl \<Rightarrow> library \<Rightarrow> nat option \<times> library" where
  "SSL_CTX_new ossl lb =
     (let (ok, lb) = invoke (os_ctx_new ossl) lb in
      if ok then (Some (lb_next lb), lb\<lparr>lb_ctxs := (lb_next lb, new_ssl_ctx) # lb_ctxs lb, lb_held := lb_next lb # lb_held lb,
                                        lb_next := Suc (lb_next lb)\<rparr>)
      else (None, lb))"

definition collect :: "library \<Rightarrow> library" where
  "collect lb = lb\<lparr>lb_ctxs := filter (\<lambda>e. fst e \<in> set (lb_held lb) \<union> snd ` set (lb_ssls lb)) (lb_ctxs lb)\<rparr>"

definition SSL_CTX_free :: "nat \<Rightarrow> library \<Rightarrow> library" where
  "SSL_CTX_free c lb = collect (lb\<lparr>lb_held := remove1 c (lb_held lb)\<rparr>)"

definition change_ctx :: "nat \<Rightarrow> (ssl_ctx \<Rightarrow> ssl_ctx) \<Rightarrow> library \<Rightarrow> library" where
  "change_ctx c f lb = lb\<lparr>lb_ctxs := map (\<lambda>(i, k). (i, if i = c then f k else k)) (lb_ctxs lb)\<rparr>"

text \<open>Extra data can be stored under no negative index, and storing it may fail.\<close>

definition SSL_set_ex_data :: "openssl \<Rightarrow> nat \<Rightarrow> int \<Rightarrow> nat option \<Rightarrow> library \<Rightarrow> library" where
  "SSL_set_ex_data ossl s i d lb =
     (let (ok, lb) = invoke (os_set_data ossl) lb in if ok \<and> 0 \<le> i then lb\<lparr>lb_data := (lb_data lb)((s, i) := d)\<rparr> else lb)"

definition SSL_get_ex_data :: "nat \<Rightarrow> int \<Rightarrow> library \<Rightarrow> nat option" where
  "SSL_get_ex_data s i lb = (if 0 \<le> i then lb_data lb (s, i) else None)"

subsection \<open>The class\<close>

text \<open>The result of setting the default paths is not looked at.\<close>

definition configureContext :: "openssl \<Rightarrow> nat \<Rightarrow> library \<Rightarrow> library" where
  "configureContext ossl c lb =
     (let lb = change_ctx c (\<lambda>k. k\<lparr>sc_options := [NO_SSLv2, NO_SSLv3, NO_COMPRESSION]\<rparr>) lb;
          (ok, lb) = invoke (os_default_paths ossl) lb;
          lb = change_ctx c (\<lambda>k. k\<lparr>sc_default_paths := ok\<rparr>) lb
      in change_ctx c (\<lambda>k. k\<lparr>sc_verify_peer := True, sc_trampoline := True\<rparr>) lb)"

text \<open>The library is initialised at most once, when a context cannot be made without.\<close>

definition first_context :: "openssl \<Rightarrow> library \<Rightarrow> nat option \<times> library" where
  "first_context ossl lb =
     (let (have_method, lb) = invoke (os_method ossl) lb;
          (c, lb) = (if have_method then SSL_CTX_new ossl lb else (None, lb))
      in if c = None \<and> \<not> lb_initialised lb then
           let lb = lb\<lparr>lb_initialised := True\<rparr>;
               (c, lb) = SSL_CTX_new ossl lb;
               (i, lb) = invoke (os_new_index ossl) lb
           in (c, lb\<lparr>lb_index := i\<rparr>)
         else (c, lb))"

definition new_Context :: "openssl \<Rightarrow> string \<Rightarrow> library \<Rightarrow> Context \<times> library" where
  "new_Context ossl ciphers lb =
     (let (c, lb) = first_context ossl lb in
      case c of
        None \<Rightarrow> (\<lparr>x_context = None, x_session = None, x_chain = False\<rparr>, lb)
      | Some c \<Rightarrow>
          let (ok, lb) = invoke (os_ciphers ossl) lb in
          if ok then (\<lparr>x_context = Some c, x_session = None, x_chain = False\<rparr>,
                      configureContext ossl c (change_ctx c (\<lambda>k. k\<lparr>sc_ciphers := ciphers\<rparr>) lb))
          else (\<lparr>x_context = None, x_session = None, x_chain = False\<rparr>, SSL_CTX_free c lb))"

text \<open>The context takes the reference it is given and gives up the one it had.\<close>

definition context_cacheSession :: "nat option \<Rightarrow> Context \<Rightarrow> library \<Rightarrow> Context \<times> library" where
  "context_cacheSession session x lb =
     (let lb = (case x_session x of Some s \<Rightarrow> lb\<lparr>lb_sessions := lb_sessions lb - {#s#}\<rparr> | None \<Rightarrow> lb)
      in (x\<lparr>x_session := session\<rparr>, lb))"

definition delete_Context :: "Context \<Rightarrow> library \<Rightarrow> library" where
  "delete_Context x lb =
     (let (x, lb) = context_cacheSession None x lb
      in case x_context x of Some c \<Rightarrow> SSL_CTX_free c lb | None \<Rightarrow> lb)"

definition setChainVerifier :: "Context \<Rightarrow> library \<Rightarrow> Context \<times> library" where
  "setChainVerifier x lb =
     (case x_context x of
        Some c \<Rightarrow> (x\<lparr>x_chain := True\<rparr>, change_ctx c (\<lambda>k. k\<lparr>sc_chain := True\<rparr>) lb)
      | None \<Rightarrow> (x, lb))"

definition setSslConnection :: "openssl \<Rightarrow> Context \<Rightarrow> nat option \<Rightarrow> nat option \<Rightarrow> library \<Rightarrow> library" where
  "setSslConnection ossl x ssl connection lb =
     (case ssl of
        Some s \<Rightarrow> if x_context x \<noteq> None then SSL_set_ex_data ossl s (lb_index lb) connection lb else lb
      | None \<Rightarrow> lb)"

text \<open>What \<open>verifyTrampoline\<close> reads before it decides.\<close>

definition connection_of :: "nat option \<Rightarrow> library \<Rightarrow> nat option" where
  "connection_of ssl lb = (case ssl of Some s \<Rightarrow> SSL_get_ex_data s (lb_index lb) lb | None \<Rightarrow> None)"

subsection \<open>The SSL object of a connection\<close>

definition SSL_new :: "openssl \<Rightarrow> nat option \<Rightarrow> library \<Rightarrow> nat option \<times> library" where
  "SSL_new ossl context lb =
     (let (ok, lb) = invoke (os_ssl_new ossl) lb in
      case context of
        Some c \<Rightarrow> if ok then (Some (lb_next lb), lb\<lparr>lb_ssls := (lb_next lb, c) # lb_ssls lb, lb_next := Suc (lb_next lb)\<rparr>)
                  else (None, lb)
      | None \<Rightarrow> (None, lb))"

text \<open>The extra data and the reference to the context go with the object.\<close>

definition SSL_free :: "nat \<Rightarrow> library \<Rightarrow> library" where
  "SSL_free s lb = collect (lb\<lparr>lb_ssls := filter (\<lambda>e. fst e \<noteq> s) (lb_ssls lb),
     lb_data := (\<lambda>(t, i). if t = s then None else lb_data lb (t, i))\<rparr>)"

text \<open>The constructor of \<open>SslConnection\<close>; the session it sets on the object is the object's own reference.\<close>

definition attach_ssl :: "openssl \<Rightarrow> nat \<Rightarrow> Context \<Rightarrow> library \<Rightarrow> nat option \<times> library" where
  "attach_ssl ossl this x lb =
     (let (ssl, lb) = SSL_new ossl (x_context x) lb in (ssl, setSslConnection ossl x ssl (Some this) lb))"

definition delete_SslConnection :: "openssl \<Rightarrow> nat option \<Rightarrow> Context \<Rightarrow> library \<Rightarrow> library" where
  "delete_SslConnection ossl ssl x lb =
     (let lb = setSslConnection ossl x ssl None lb
      in case ssl of Some s \<Rightarrow> SSL_free s lb | None \<Rightarrow> lb)"

subsection \<open>What connections do with the context\<close>

text \<open>A connection is made and destroyed, its handshake succeeds, with a session or without one, or fails for good; \<open>Dote\<close>
  sets the verifier.  \<open>SSL_get1_session\<close> adds a reference for the caller.  The objects that exist are a map from their
  addresses to their SSL objects.\<close>

datatype context_use =
  Make nat
| Drop nat
| Handshake_done
| Handshake_failed
| Set_chain

type_synonym in_use = "Context \<times> (nat \<rightharpoonup> nat option) \<times> library"

definition handshake_done :: "openssl \<Rightarrow> Context \<Rightarrow> library \<Rightarrow> Context \<times> library" where
  "handshake_done ossl x lb =
     (let (session, lb) = invoke (os_get1_session ossl) lb in
      case session of
        Some s \<Rightarrow> context_cacheSession session x (lb\<lparr>lb_sessions := add_mset s (lb_sessions lb)\<rparr>)
      | None \<Rightarrow> (x, lb))"

fun use_context :: "openssl \<Rightarrow> context_use \<Rightarrow> in_use \<Rightarrow> in_use" where
  "use_context ossl (Make i) (x, cs, lb) =
     (if cs i = None then let (ssl, lb) = attach_ssl ossl i x lb in (x, cs(i \<mapsto> ssl), lb) else (x, cs, lb))"
| "use_context ossl (Drop i) (x, cs, lb) =
     (case cs i of Some ssl \<Rightarrow> (x, cs(i := None), delete_SslConnection ossl ssl x lb) | None \<Rightarrow> (x, cs, lb))"
| "use_context ossl Handshake_done (x, cs, lb) = (let (x, lb) = handshake_done ossl x lb in (x, cs, lb))"
| "use_context ossl Handshake_failed (x, cs, lb) = (let (x, lb) = context_cacheSession None x lb in (x, cs, lb))"
| "use_context ossl Set_chain (x, cs, lb) = (let (x, lb) = setChainVerifier x lb in (x, cs, lb))"

definition use_all :: "openssl \<Rightarrow> context_use list \<Rightarrow> in_use \<Rightarrow> in_use" where
  "use_all ossl uses = fold (use_context ossl) uses"

definition start_use :: "Context \<times> library \<Rightarrow> in_use" where
  "start_use r = (fst r, Map.empty, snd r)"

subsection \<open>The invariant of a context\<close>

text \<open>Beside the contexts and the references there were there are at most the one context, configured to the
  program's policy, and the reference to the cached session.\<close>

definition strict :: "string \<Rightarrow> ssl_ctx \<Rightarrow> bool" where
  "strict ciphers k \<longleftrightarrow> sc_ciphers k = ciphers \<and> {NO_SSLv2, NO_SSLv3, NO_COMPRESSION} \<subseteq> set (sc_options k)
     \<and> sc_verify_peer k \<and> sc_trampoline k"

text \<open>Every context is one the program holds or an SSL object refers to.\<close>

definition referred :: "library \<Rightarrow> nat set" where
  "referred lb = set (lb_held lb) \<union> snd ` set (lb_ssls lb)"

definition context_ok :: "string \<Rightarrow> library \<Rightarrow> Context \<Rightarrow> library \<Rightarrow> bool" where
  "context_ok ciphers before x lb \<longleftrightarrow>
     lb_sessions lb = lb_sessions before + (case x_session x of Some s \<Rightarrow> {#s#} | None \<Rightarrow> {#})
     \<and> (case x_context x of
          None \<Rightarrow> lb_ctxs lb = lb_ctxs before \<and> lb_held lb = lb_held before
        | Some c \<Rightarrow> lb_held lb = c # lb_held before \<and> c \<notin> fst ` set (lb_ctxs before) \<union> referred before
            \<and> (\<exists>k. lb_ctxs lb = (c, k) # lb_ctxs before \<and> strict ciphers k \<and> (x_chain x \<longleftrightarrow> sc_chain k)))"

text \<open>Every SSL object that is not freed, beside those there were, is that of one connection and refers to the context; it
  leads to no other connection, and to this one when OpenSSL could store it.\<close>

definition owned_ssls :: "(nat \<rightharpoonup> nat option) \<Rightarrow> nat set" where
  "owned_ssls cs = {s. \<exists>i. cs i = Some (Some s)}"

definition leads_to :: "openssl \<Rightarrow> library \<Rightarrow> nat \<Rightarrow> nat \<Rightarrow> bool" where
  "leads_to ossl lb s i \<longleftrightarrow> connection_of (Some s) lb \<in> {None, Some i}
     \<and> ((\<forall>n. os_set_data ossl n) \<and> 0 \<le> lb_index lb \<longrightarrow> connection_of (Some s) lb = Some i)"

definition connections_ok :: "openssl \<Rightarrow> library \<Rightarrow> Context \<Rightarrow> (nat \<rightharpoonup> nat option) \<Rightarrow> library \<Rightarrow> bool" where
  "connections_ok ossl before x cs lb \<longleftrightarrow>
     set (lb_ssls lb) = set (lb_ssls before) \<union> {(s, c). s \<in> owned_ssls cs \<and> x_context x = Some c}
     \<and> fst ` set (lb_ssls before) \<inter> owned_ssls cs = {} \<and> (\<forall>s \<in> fst ` set (lb_ssls lb). s < lb_next lb)
     \<and> (\<forall>s i. lb_data lb (s, i) \<noteq> None \<longrightarrow> s < lb_next lb)
     \<and> (\<forall>i j s. cs i = Some (Some s) \<and> cs j = Some (Some s) \<longrightarrow> i = j)
     \<and> (\<forall>i s. cs i = Some (Some s) \<longrightarrow> x_context x \<noteq> None \<and> leads_to ossl lb s i)"

text \<open>A library in which ids are not used twice and no context is left that nothing refers to.\<close>

definition fresh_ids :: "library \<Rightarrow> bool" where
  "fresh_ids lb \<longleftrightarrow> (\<forall>c \<in> fst ` set (lb_ctxs lb) \<union> referred lb \<union> fst ` set (lb_ssls lb). c < lb_next lb)
     \<and> (\<forall>s i. lb_data lb (s, i) \<noteq> None \<longrightarrow> s < lb_next lb) \<and> fst ` set (lb_ctxs lb) \<subseteq> referred lb"

lemma change_other: "c \<notin> fst ` set es \<Longrightarrow> map (\<lambda>(i, k). (i, if i = c then f k else k)) es = es"
  by (induction es) auto

text \<open>A change of the context on top leaves the others alone.\<close>

lemma change_top: "c \<notin> fst ` set others \<Longrightarrow> lb_ctxs lb = (c, k) # others \<Longrightarrow> lb_ctxs (change_ctx c f lb) = (c, f k) # others"
  by (simp add: change_ctx_def change_other)

lemma change_rest [simp]:
  "lb_sessions (change_ctx c f lb) = lb_sessions lb" "lb_ssls (change_ctx c f lb) = lb_ssls lb" "lb_next (change_ctx c f lb) = lb_next lb"
  "lb_held (change_ctx c f lb) = lb_held lb" "lb_data (change_ctx c f lb) = lb_data lb" "lb_index (change_ctx c f lb) = lb_index lb"
  by (simp_all add: change_ctx_def)

lemma set_data_rest [simp]:
  "lb_sessions (SSL_set_ex_data ossl s i d lb) = lb_sessions lb" "lb_ssls (SSL_set_ex_data ossl s i d lb) = lb_ssls lb"
  "lb_next (SSL_set_ex_data ossl s i d lb) = lb_next lb" "lb_held (SSL_set_ex_data ossl s i d lb) = lb_held lb"
  "lb_ctxs (SSL_set_ex_data ossl s i d lb) = lb_ctxs lb" "lb_index (SSL_set_ex_data ossl s i d lb) = lb_index lb"
  by (simp_all add: SSL_set_ex_data_def invoke_def)

lemma set_data_other: "t \<noteq> s \<Longrightarrow> lb_data (SSL_set_ex_data ossl s i d lb) (t, j) = lb_data lb (t, j)"
  by (simp add: SSL_set_ex_data_def invoke_def)

lemma collect_rest [simp]:
  "lb_sessions (collect lb) = lb_sessions lb" "lb_ssls (collect lb) = lb_ssls lb" "lb_next (collect lb) = lb_next lb"
  "lb_held (collect lb) = lb_held lb" "lb_data (collect lb) = lb_data lb" "lb_index (collect lb) = lb_index lb"
  by (simp_all add: collect_def)

lemma collect_ctxs: "lb_ctxs (collect lb) = filter (\<lambda>e. fst e \<in> referred lb) (lb_ctxs lb)"
  by (simp add: collect_def referred_def)

lemma all_referred: "fst ` set es \<subseteq> R \<Longrightarrow> filter (\<lambda>e. fst e \<in> R) es = es"
  by (rule filter_True) auto

lemma first_context_ok:
  assumes "first_context ossl lb = (c, lb')"
  shows "lb_sessions lb' = lb_sessions lb \<and> lb_ssls lb' = lb_ssls lb \<and> lb_next lb \<le> lb_next lb' \<and> lb_data lb' = lb_data lb
    \<and> (case c of None \<Rightarrow> lb_ctxs lb' = lb_ctxs lb \<and> lb_held lb' = lb_held lb
       | Some i \<Rightarrow> lb_ctxs lb' = (i, new_ssl_ctx) # lb_ctxs lb \<and> lb_held lb' = i # lb_held lb \<and> lb_next lb \<le> i)"
  using assms by (fastforce simp: first_context_def SSL_CTX_new_def invoke_def Let_def split: if_splits prod.splits)

lemma configured_strict:
  assumes "lb_ctxs lb = (i, new_ssl_ctx) # others" and "i \<notin> fst ` set others"
  shows "\<exists>k. lb_ctxs (configureContext ossl i (change_ctx i (\<lambda>k. k\<lparr>sc_ciphers := ciphers\<rparr>) lb)) = (i, k) # others
    \<and> strict ciphers k \<and> \<not> sc_chain k"
proof -
  note top = change_top [OF assms(2)]
  show ?thesis
    unfolding configureContext_def invoke_def Let_def prod.case
    by (rule exI, intro conjI, rule top, rule top, simp, rule top, rule top, rule assms(1)) (simp_all add: strict_def new_ssl_ctx_def)
qed

lemma configure_rest [simp]:
  "lb_sessions (configureContext ossl c lb) = lb_sessions lb" "lb_ssls (configureContext ossl c lb) = lb_ssls lb"
  "lb_next (configureContext ossl c lb) = lb_next lb" "lb_held (configureContext ossl c lb) = lb_held lb"
  "lb_data (configureContext ossl c lb) = lb_data lb"
  by (simp_all add: configureContext_def invoke_def Let_def)

lemma new_Context_ok:
  assumes fresh: "fresh_ids lb" and new: "new_Context ossl ciphers lb = (x, lb')"
  shows "context_ok ciphers lb x lb' \<and> connections_ok ossl lb x Map.empty lb'"
proof -
  obtain c lb1 where 1: "first_context ossl lb = (c, lb1)" by fastforce
  note f = first_context_ok [OF 1]
  have rest: "lb_sessions lb' = lb_sessions lb \<and> lb_ssls lb' = lb_ssls lb \<and> lb_next lb \<le> lb_next lb' \<and> lb_data lb' = lb_data lb \<and> x_session x = None"
    using new f by (auto simp: new_Context_def 1 invoke_def SSL_CTX_free_def Let_def split: option.splits if_splits)
  have "\<forall>s \<in> fst ` set (lb_ssls lb). s < lb_next lb" "\<forall>s i. lb_data lb (s, i) \<noteq> None \<longrightarrow> s < lb_next lb"
    using fresh unfolding fresh_ids_def by blast+
  then have "\<forall>s \<in> fst ` set (lb_ssls lb'). s < lb_next lb'" "\<forall>s i. lb_data lb' (s, i) \<noteq> None \<longrightarrow> s < lb_next lb'"
    using rest by (metis less_le_trans)+
  then have conns: "connections_ok ossl lb x Map.empty lb'"
    using rest by (simp add: connections_ok_def owned_ssls_def)
  show ?thesis
  proof (cases c)
    case (Some i)
    have low: "\<forall>j \<in> fst ` set (lb_ctxs lb) \<union> referred lb. j < lb_next lb" and all: "fst ` set (lb_ctxs lb) \<subseteq> referred lb"
      using fresh by (auto simp: fresh_ids_def)
    have n: "lb_ctxs lb1 = (i, new_ssl_ctx) # lb_ctxs lb" "lb_held lb1 = i # lb_held lb" "lb_ssls lb1 = lb_ssls lb" "lb_next lb \<le> i"
      using f Some by simp_all
    then have i: "i \<notin> fst ` set (lb_ctxs lb)" "i \<notin> referred lb" using low by (meson UnI1 UnI2 leD)+
    let ?lb = "lb1\<lparr>lb_tick := Suc (lb_tick lb1)\<rparr>"
    have "lb_ctxs ?lb = (i, new_ssl_ctx) # lb_ctxs lb" using n(1) by simp
    note k = configured_strict [OF this i(1), of ossl ciphers]
    have "lb_ctxs (SSL_CTX_free i ?lb) = lb_ctxs lb" "lb_held (SSL_CTX_free i ?lb) = lb_held lb"
      using n i all_referred [OF all] by (simp_all add: SSL_CTX_free_def collect_ctxs referred_def)
    then show ?thesis
      using Some rest conns n i k new by (auto simp: new_Context_def 1 invoke_def context_ok_def Let_def split: if_splits)
  qed (use f rest conns new in \<open>auto simp: new_Context_def 1 context_ok_def\<close>)
qed

lemma context_same:
  "context_ok ciphers before x lb \<Longrightarrow> lb_ctxs lb' = lb_ctxs lb \<Longrightarrow> lb_held lb' = lb_held lb \<Longrightarrow> lb_sessions lb' = lb_sessions lb \<Longrightarrow>
   context_ok ciphers before x lb'"
  by (cases "x_context x") (simp_all add: context_ok_def)

lemma context_session:
  assumes "context_ok ciphers before x lb" and "lb_ctxs lb' = lb_ctxs lb" and "lb_held lb' = lb_held lb"
    and "lb_sessions lb' = lb_sessions before + (case v of Some s \<Rightarrow> {#s#} | None \<Rightarrow> {#})"
  shows "context_ok ciphers before (x\<lparr>x_session := v\<rparr>) lb'"
  using assms by (cases "x_context x") (simp_all add: context_ok_def)

lemma connections_okD:
  assumes "connections_ok ossl before x cs lb"
  shows "set (lb_ssls lb) = set (lb_ssls before) \<union> {(s, c). s \<in> owned_ssls cs \<and> x_context x = Some c}"
    and "fst ` set (lb_ssls before) \<inter> owned_ssls cs = {}" and "\<forall>s \<in> fst ` set (lb_ssls lb). s < lb_next lb"
    and "\<forall>s i. lb_data lb (s, i) \<noteq> None \<longrightarrow> s < lb_next lb"
    and "\<forall>i j s. cs i = Some (Some s) \<and> cs j = Some (Some s) \<longrightarrow> i = j"
    and "\<forall>i s. cs i = Some (Some s) \<longrightarrow> x_context x \<noteq> None \<and> leads_to ossl lb s i"
  using assms unfolding connections_ok_def by blast+

lemma connections_same:
  assumes "connections_ok ossl before x cs lb" and "x_context x' = x_context x" "lb_ssls lb' = lb_ssls lb" "lb_next lb' = lb_next lb"
    "lb_data lb' = lb_data lb" "lb_index lb' = lb_index lb"
  shows "connections_ok ossl before x' cs lb'"
proof -
  have "leads_to ossl lb' = leads_to ossl lb"
    using assms(5,6) by (intro ext) (simp add: leads_to_def connection_of_def SSL_get_ex_data_def)
  with assms show ?thesis by (simp add: connections_ok_def)
qed

text \<open>A connection without an SSL object changes nothing.\<close>

lemma connections_none:
  assumes ok: "connections_ok ossl before x cs lb" and "cs i = None \<or> cs i = Some None" and "v = None \<or> v = Some None"
  shows "connections_ok ossl before x (cs(i := v)) lb"
proof -
  have e: "(cs(i := v)) j = Some (Some s) \<longleftrightarrow> cs j = Some (Some s)" for j s using assms(2,3) by auto
  then have "owned_ssls (cs(i := v)) = owned_ssls cs" by (simp add: owned_ssls_def)
  with ok show ?thesis unfolding connections_ok_def e by simp
qed

lemma make_connection:
  assumes ok: "connections_ok ossl before x cs lb" and none: "cs i = None" and c: "x_context x = Some c" and n: "n = lb_next lb"
    and ssls: "lb_ssls lb1 = (n, c) # lb_ssls lb" and rest: "lb_next lb1 = Suc n" "lb_data lb1 = lb_data lb" "lb_index lb1 = lb_index lb"
  shows "connections_ok ossl before x (cs(i \<mapsto> Some n)) (SSL_set_ex_data ossl n (lb_index lb1) (Some i) lb1)"
proof -
  let ?lb = "SSL_set_ex_data ossl n (lb_index lb1) (Some i) lb1"
  have lim: "\<forall>s \<in> fst ` set (lb_ssls lb). s < n" "\<forall>s i. lb_data lb (s, i) \<noteq> None \<longrightarrow> s < n"
    using connections_okD(3,4) [OF ok] n by blast+
  have new: "n \<notin> fst ` set (lb_ssls lb)" "lb_data lb (n, k) = None" for k using lim by (blast, meson less_irrefl)
  have e: "(cs(i \<mapsto> Some n)) j = Some (Some s) \<longleftrightarrow> j = i \<and> s = n \<or> cs j = Some (Some s)" for j s using none by auto
  then have o: "owned_ssls (cs(i \<mapsto> Some n)) = insert n (owned_ssls cs)" unfolding owned_ssls_def by auto
  have old: "s \<in> fst ` set (lb_ssls lb)" if "cs j = Some (Some s)" for j s
  proof -
    have "s \<in> owned_ssls cs" using that by (auto simp: owned_ssls_def)
    then have "(s, c) \<in> set (lb_ssls lb)" using connections_okD(1) [OF ok] c by simp
    then show ?thesis by force
  qed
  have "leads_to ossl ?lb n i"
    using new(2) rest(2) by (simp add: leads_to_def connection_of_def SSL_get_ex_data_def SSL_set_ex_data_def invoke_def)
  moreover have "leads_to ossl ?lb s j" if "cs j = Some (Some s)" for j s
  proof -
    have "s \<noteq> n" using old [OF that] new(1) by blast
    moreover have "leads_to ossl lb s j" using connections_okD(6) [OF ok] that by blast
    moreover have idx: "lb_index ?lb = lb_index lb" using rest(3) by simp
    moreover have "connection_of (Some s) ?lb = connection_of (Some s) lb"
      using \<open>s \<noteq> n\<close> idx rest(2) by (simp add: connection_of_def SSL_get_ex_data_def set_data_other)
    ultimately show ?thesis by (simp add: leads_to_def)
  qed
  ultimately have leads: "\<forall>j s. (cs(i \<mapsto> Some n)) j = Some (Some s) \<longrightarrow> x_context x \<noteq> None \<and> leads_to ossl ?lb s j"
    using c unfolding e by blast
  note inj0 = connections_okD(5) [OF ok]
  have inj: "\<forall>j k s. (cs(i \<mapsto> Some n)) j = Some (Some s) \<and> (cs(i \<mapsto> Some n)) k = Some (Some s) \<longrightarrow> j = k"
    using inj0 old new(1) unfolding e by blast
  have data: "s < Suc n" if d: "lb_data ?lb (s, k) \<noteq> None" for s k
  proof (cases "s = n")
    case False
    with d have "lb_data lb (s, k) \<noteq> None" using rest(2) by (simp add: set_data_other)
    then show ?thesis using lim(2) by (meson less_SucI)
  qed simp
  have low: "\<forall>s \<in> fst ` set (lb_ssls ?lb). s < Suc n" using lim(1) by (auto simp: ssls)
  have "set (lb_ssls ?lb) = insert (n, c) (set (lb_ssls lb))" by (simp add: ssls)
  also have "\<dots> = set (lb_ssls before) \<union> {(s, c). s \<in> owned_ssls (cs(i \<mapsto> Some n)) \<and> x_context x = Some c}"
    unfolding connections_okD(1) [OF ok] o c by blast
  finally have all: "set (lb_ssls ?lb) = set (lb_ssls before) \<union> {(s, c). s \<in> owned_ssls (cs(i \<mapsto> Some n)) \<and> x_context x = Some c}" .
  have "fst ` set (lb_ssls before) \<subseteq> fst ` set (lb_ssls lb)" using connections_okD(1) [OF ok] by (intro image_mono) blast
  then have apart: "fst ` set (lb_ssls before) \<inter> owned_ssls (cs(i \<mapsto> Some n)) = {}"
    using connections_okD(2) [OF ok] new(1) unfolding o by blast
  have nx: "lb_next ?lb = Suc n" using rest(1) by simp
  have "\<forall>s i. lb_data ?lb (s, i) \<noteq> None \<longrightarrow> s < Suc n" using data by blast
  with all apart low inj leads show ?thesis unfolding connections_ok_def nx by blast
qed

lemma drop_connection:
  assumes ok: "connections_ok ossl before x cs lb" and i: "cs i = Some (Some s)"
  shows "connections_ok ossl before x (cs(i := None)) (SSL_free s (SSL_set_ex_data ossl s k d lb))"
proof -
  let ?lb = "SSL_free s (SSL_set_ex_data ossl s k d lb)"
  have one: "cs j = Some (Some s) \<Longrightarrow> j = i" for j using connections_okD(5) [OF ok] i by blast
  have e: "(cs(i := None)) j = Some (Some t) \<longleftrightarrow> cs j = Some (Some t) \<and> t \<noteq> s" for j t
    using i one [of j] by (cases "j = i") auto
  then have o: "owned_ssls (cs(i := None)) = owned_ssls cs - {s}" unfolding owned_ssls_def by blast
  have s: "s \<in> owned_ssls cs" using i by (auto simp: owned_ssls_def)
  have data: "lb_data ?lb (t, j) = (if t = s then None else lb_data lb (t, j))" for t j
    by (simp add: SSL_free_def set_data_other)
  have "leads_to ossl ?lb t j" if "cs j = Some (Some t)" "t \<noteq> s" for t j
  proof -
    have "leads_to ossl lb t j" using connections_okD(6) [OF ok] that(1) by blast
    moreover have idx: "lb_index ?lb = lb_index lb" by (simp add: SSL_free_def)
    moreover have "connection_of (Some t) ?lb = connection_of (Some t) lb"
      using that(2) idx by (simp add: connection_of_def SSL_get_ex_data_def data)
    ultimately show ?thesis by (simp add: leads_to_def)
  qed
  moreover have "set (lb_ssls ?lb) = {e \<in> set (lb_ssls lb). fst e \<noteq> s}" "lb_next ?lb = lb_next lb" by (simp_all add: SSL_free_def)
  moreover note connections_okD [OF ok]
  ultimately show ?thesis unfolding connections_ok_def e o data using s by auto
qed

lemma use_context_ok:
  assumes all: "fst ` set (lb_ctxs before) \<subseteq> referred before"
    and ctx: "context_ok ciphers before x lb" and ok: "connections_ok ossl before x cs lb"
    and u: "use_context ossl u (x, cs, lb) = (x', cs', lb')"
  shows "context_ok ciphers before x' lb' \<and> connections_ok ossl before x' cs' lb'"
proof (cases u)
  case (Make i)
  obtain ssl lb1 where 1: "SSL_new ossl (x_context x) lb = (ssl, lb1)" by fastforce
  then have same: "lb_ctxs lb1 = lb_ctxs lb" "lb_held lb1 = lb_held lb" "lb_sessions lb1 = lb_sessions lb" "lb_data lb1 = lb_data lb" "lb_index lb1 = lb_index lb"
    by (auto simp: SSL_new_def invoke_def split: option.splits if_splits)
  consider "cs i \<noteq> None" | "cs i = None" "ssl = None" | s where "cs i = None" "ssl = Some s" by blast
  then show ?thesis
  proof cases
    case 1
    then show ?thesis using u ctx ok Make by auto
  next
    case 2
    then have "lb_ssls lb1 = lb_ssls lb" "lb_next lb1 = lb_next lb"
      using 1 by (auto simp: SSL_new_def invoke_def split: option.splits if_splits)
    with connections_same [OF connections_none [OF ok, of i "Some None"] refl, of lb1] same 2
    have c: "connections_ok ossl before x (cs(i \<mapsto> None)) lb1" by simp
    have "x' = x" "cs' = cs(i \<mapsto> None)" "lb' = lb1" using u Make 1 2 by (simp_all add: attach_ssl_def setSslConnection_def)
    then show ?thesis using context_same [OF ctx same(1-3)] c by simp
  next
    case 3
    then obtain c where c: "x_context x = Some c" "s = lb_next lb" "lb_ssls lb1 = (s, c) # lb_ssls lb" "lb_next lb1 = Suc s"
      using 1 by (auto simp: SSL_new_def invoke_def split: option.splits if_splits)
    from make_connection [OF ok 3(1) c(1,2,3,4) same(4,5)]
    have k: "connections_ok ossl before x (cs(i \<mapsto> Some s)) (SSL_set_ex_data ossl s (lb_index lb1) (Some i) lb1)" .
    have "x' = x" "cs' = cs(i \<mapsto> Some s)" "lb' = SSL_set_ex_data ossl s (lb_index lb1) (Some i) lb1"
      using u Make 1 3 c(1) by (simp_all add: attach_ssl_def setSslConnection_def)
    then show ?thesis using context_same [OF ctx, of "SSL_set_ex_data ossl s (lb_index lb1) (Some i) lb1"] same k by simp
  qed
next
  case (Drop i)
  consider "cs i = None" | "cs i = Some None" | s where "cs i = Some (Some s)" by (metis option.exhaust)
  then show ?thesis
  proof cases
    case 1
    then show ?thesis using u ctx ok Drop by simp
  next
    case 2
    then show ?thesis using u ctx connections_none [OF ok, of i None] Drop by (auto simp: delete_SslConnection_def setSslConnection_def)
  next
    case 3
    then obtain c where c: "x_context x = Some c" using connections_okD(6) [OF ok] by blast
    let ?lb = "SSL_free s (SSL_set_ex_data ossl s (lb_index lb) None lb)"
    note d = drop_connection [OF ok 3, of "lb_index lb" None]
    have r: "x' = x" "cs' = cs(i := None)" "lb' = ?lb" using u Drop 3 c by (simp_all add: delete_SslConnection_def setSslConnection_def)
    obtain k where k: "lb_held lb = c # lb_held before" "lb_ctxs lb = (c, k) # lb_ctxs before" using ctx c by (auto simp: context_ok_def)
    have "set (lb_ssls before) \<subseteq> set (lb_ssls ?lb)" using d by (auto simp: connections_ok_def)
    then have "fst ` set (lb_ctxs lb) \<subseteq> referred ?lb" using all k by (auto simp: referred_def SSL_free_def)
    from all_referred [OF this] have "lb_ctxs ?lb = lb_ctxs lb" by (simp add: SSL_free_def collect_ctxs referred_def)
    moreover have "lb_held ?lb = lb_held lb" "lb_sessions ?lb = lb_sessions lb" by (simp_all add: SSL_free_def)
    ultimately show ?thesis using d context_same [OF ctx, of ?lb] unfolding r by simp
  qed
next
  case Handshake_done
  have se: "lb_sessions lb = lb_sessions before + (case x_session x of Some s \<Rightarrow> {#s#} | None \<Rightarrow> {#})"
    using ctx by (simp add: context_ok_def)
  show ?thesis
  proof (cases "os_get1_session ossl (lb_tick lb)")
    case None
    then have r: "x' = x" "cs' = cs" "lb' = lb\<lparr>lb_tick := Suc (lb_tick lb)\<rparr>"
      using Handshake_done u by (simp_all add: handshake_done_def invoke_def)
    then show ?thesis using context_same [OF ctx, of lb'] connections_same [OF ok, of x lb'] by simp
  next
    case (Some v)
    then have r: "x' = x\<lparr>x_session := Some v\<rparr>" "cs' = cs" "lb_ctxs lb' = lb_ctxs lb" "lb_held lb' = lb_held lb"
      "lb_ssls lb' = lb_ssls lb" "lb_next lb' = lb_next lb" "lb_data lb' = lb_data lb" "lb_index lb' = lb_index lb"
      "lb_sessions lb' = lb_sessions before + {#v#}"
      using Handshake_done u se
      by (cases "x_session x"; auto simp: handshake_done_def invoke_def context_cacheSession_def Let_def)+
    then show ?thesis using context_session [OF ctx r(3,4), of "Some v"] connections_same [OF ok, of x' lb'] by simp
  qed
next
  case Handshake_failed
  have se: "lb_sessions lb = lb_sessions before + (case x_session x of Some s \<Rightarrow> {#s#} | None \<Rightarrow> {#})"
    using ctx by (simp add: context_ok_def)
  have r: "x' = x\<lparr>x_session := None\<rparr>" "cs' = cs" "lb_ctxs lb' = lb_ctxs lb" "lb_held lb' = lb_held lb"
    "lb_ssls lb' = lb_ssls lb" "lb_next lb' = lb_next lb" "lb_data lb' = lb_data lb" "lb_index lb' = lb_index lb"
    "lb_sessions lb' = lb_sessions before"
    using Handshake_failed u se by (cases "x_session x"; auto simp: context_cacheSession_def Let_def)+
  then show ?thesis using context_session [OF ctx r(3,4), of None] connections_same [OF ok, of x' lb'] by simp
next
  case Set_chain
  show ?thesis
  proof (cases "x_context x")
    case None
    then show ?thesis using Set_chain u ctx ok by (simp add: setChainVerifier_def)
  next
    case (Some c)
    then have r: "x' = x\<lparr>x_chain := True\<rparr>" "cs' = cs" "lb' = change_ctx c (\<lambda>k. k\<lparr>sc_chain := True\<rparr>) lb"
      using Set_chain u by (simp_all add: setChainVerifier_def)
    obtain k where k: "lb_held lb = c # lb_held before" "c \<notin> fst ` set (lb_ctxs before)" "c \<notin> referred before"
      "lb_ctxs lb = (c, k) # lb_ctxs before" "strict ciphers k" using ctx Some by (auto simp: context_ok_def)
    have "strict ciphers (k\<lparr>sc_chain := True\<rparr>)" using k(5) by (simp add: strict_def)
    then have "context_ok ciphers before x' lb'"
      using ctx Some k change_top [OF k(2,4)] unfolding r by (simp add: context_ok_def)
    then show ?thesis using connections_same [OF ok, of x' lb'] r by simp
  qed
qed

lemma use_all_ok:
  assumes "fst ` set (lb_ctxs before) \<subseteq> referred before"
    and "context_ok ciphers before x lb \<and> connections_ok ossl before x cs lb" and "use_all ossl uses (x, cs, lb) = (x', cs', lb')"
  shows "context_ok ciphers before x' lb' \<and> connections_ok ossl before x' cs' lb'"
  using assms(2,3)
proof (induction uses arbitrary: x cs lb)
  case (Cons u us)
  obtain y ds lb1 where u: "use_context ossl u (x, cs, lb) = (y, ds, lb1)" using prod_cases3 by blast
  with Cons.prems(2) have "use_all ossl us (y, ds, lb1) = (x', cs', lb')" by (simp add: use_all_def)
  with Cons.IH use_context_ok [OF assms(1) _ _ u] Cons.prems(1) show ?case by blast
qed (simp add: use_all_def)

text \<open>The destructor gives up the references; the context goes with them unless SSL objects still refer to it.\<close>

lemma delete_Context_ok:
  assumes all: "fst ` set (lb_ctxs before) \<subseteq> referred before" and ok: "connections_ok ossl before x cs lb"
    and ctx: "context_ok ciphers before x lb"
  shows "lb_sessions (delete_Context x lb) = lb_sessions before \<and> lb_held (delete_Context x lb) = lb_held before
    \<and> lb_ssls (delete_Context x lb) = lb_ssls lb \<and> (lb_ctxs (delete_Context x lb) = (if owned_ssls cs = {} then lb_ctxs before else lb_ctxs lb))"
proof -
  let ?x = "fst (context_cacheSession None x lb)" and ?lb = "snd (context_cacheSession None x lb)"
  have 1: "lb_sessions ?lb = lb_sessions before" "lb_held ?lb = lb_held lb" "lb_ssls ?lb = lb_ssls lb" "lb_ctxs ?lb = lb_ctxs lb"
    "x_context ?x = x_context x"
    using ctx by (auto simp: context_cacheSession_def context_ok_def Let_def split: option.splits)
  have del: "delete_Context x lb = (case x_context x of Some c \<Rightarrow> SSL_CTX_free c ?lb | None \<Rightarrow> ?lb)"
    using 1(5) by (cases "context_cacheSession None x lb"; cases "x_context x") (simp_all add: delete_Context_def)
  show ?thesis
  proof (cases "x_context x")
    case None
    then have "owned_ssls cs = {}" using ok by (auto simp: connections_ok_def owned_ssls_def)
    with None del 1 ctx show ?thesis by (simp add: context_ok_def)
  next
    case (Some c)
    obtain k where k: "lb_held lb = c # lb_held before" "lb_ctxs lb = (c, k) # lb_ctxs before" "c \<notin> referred before"
      using ctx Some by (auto simp: context_ok_def)
    have s: "set (lb_ssls lb) = set (lb_ssls before) \<union> {(s, c'). s \<in> owned_ssls cs \<and> c' = c}" using ok Some by (auto simp: connections_ok_def)
    let ?l = "?lb\<lparr>lb_held := lb_held before\<rparr>"
    have d: "delete_Context x lb = collect ?l" using del Some 1 k(1) by (simp add: SSL_CTX_free_def)
    have r: "referred ?l = (if owned_ssls cs = {} then referred before else insert c (referred before))"
      using 1 s by (auto simp: referred_def image_Un image_iff)
    have f: "filter (\<lambda>e. fst e \<in> R) (lb_ctxs before) = lb_ctxs before" if "referred before \<subseteq> R" for R
      using all that by (intro all_referred) auto
    have "lb_ctxs (collect ?l) = (if owned_ssls cs = {} then lb_ctxs before else lb_ctxs lb)"
      unfolding collect_ctxs r using 1(4) k f [of "referred before"] f [of "insert c (referred before)"] by auto
    then show ?thesis using d 1 by simp
  qed
qed

text \<open>
  Property C24 (safety). Whatever OpenSSL answers and whatever the connections do with it, a context is either none or one
  that allows no SSL, no compression, and verifies its peers with the program's callback; one session reference is
  held exactly while a session is cached; the SSL objects alive are those of the live connections, one for each, with a
  reference to the context each.  The callback of a verification never finds the connection of another object; it finds its own
  when storing extra data does not fail and the index is not negative, and none under a negative index, which the
  code does not check for.  When the connections are gone the destructor leaves the contexts, objects and
  references there were before.
\<close>

theorem context_is_strict_and_released:
  assumes "fresh_ids lb" and "use_all ossl uses (start_use (new_Context ossl ciphers lb)) = (x, cs, lb')"
  shows "(\<forall>c. x_context x = Some c \<longrightarrow> (\<exists>k. map_of (lb_ctxs lb') c = Some k \<and> strict ciphers k \<and> (sc_chain k \<longleftrightarrow> x_chain x)))
    \<and> lb_sessions lb' = lb_sessions lb + (case x_session x of Some s \<Rightarrow> {#s#} | None \<Rightarrow> {#})
    \<and> set (lb_ssls lb') = set (lb_ssls lb) \<union> {(s, c). (\<exists>i. cs i = Some (Some s)) \<and> x_context x = Some c}
    \<and> (\<forall>i s. cs i = Some (Some s) \<longrightarrow> connection_of (Some s) lb' \<in> {None, Some i}
         \<and> ((\<forall>n. os_set_data ossl n) \<and> 0 \<le> lb_index lb' \<longrightarrow> connection_of (Some s) lb' = Some i)
         \<and> (lb_index lb' < 0 \<longrightarrow> connection_of (Some s) lb' = None))
    \<and> (cs = Map.empty \<longrightarrow> lb_ctxs (delete_Context x lb') = lb_ctxs lb \<and> lb_held (delete_Context x lb') = lb_held lb
         \<and> set (lb_ssls (delete_Context x lb')) = set (lb_ssls lb) \<and> lb_sessions (delete_Context x lb') = lb_sessions lb)"
proof -
  obtain y lb1 where n: "new_Context ossl ciphers lb = (y, lb1)" by fastforce
  have all: "fst ` set (lb_ctxs lb) \<subseteq> referred lb" using assms(1) by (simp add: fresh_ids_def)
  from use_all_ok [OF all new_Context_ok [OF assms(1) n], of uses] assms(2)
  have ok: "context_ok ciphers lb x lb'" "connections_ok ossl lb x cs lb'" by (simp_all add: n start_use_def)
  have ssls: "set (lb_ssls lb') = set (lb_ssls lb) \<union> {(s, c). (\<exists>i. cs i = Some (Some s)) \<and> x_context x = Some c}"
    and finds: "\<forall>i s. cs i = Some (Some s) \<longrightarrow> leads_to ossl lb' s i"
    using ok(2) by (simp_all add: connections_ok_def owned_ssls_def)
  have neg: "lb_index lb' < 0 \<longrightarrow> connection_of (Some s) lb' = None" for s by (simp add: connection_of_def SSL_get_ex_data_def)
  have "cs = Map.empty \<longrightarrow> owned_ssls cs = {} \<and> set (lb_ssls lb') = set (lb_ssls lb)" using ssls by (simp add: owned_ssls_def)
  with delete_Context_ok [OF all ok(2,1)] ok(1) ssls finds neg show ?thesis
    by (auto simp: context_ok_def leads_to_def)
qed

definition sample_openssl :: openssl where
  "sample_openssl = \<lparr>os_method = \<lambda>n. True, os_ctx_new = \<lambda>n. n > 1, os_new_index = \<lambda>n. 5, os_ciphers = \<lambda>n. True,
     os_default_paths = \<lambda>n. False, os_ssl_new = \<lambda>n. True, os_set_data = \<lambda>n. True, os_get1_session = \<lambda>n. Some n\<rparr>"

definition empty_library :: library where
  "empty_library = \<lparr>lb_tick = 0, lb_ctxs = [], lb_held = [], lb_ssls = [], lb_next = 0, lb_sessions = {#}, lb_data = Map.empty,
     lb_initialised = False, lb_index = 0\<rparr>"

theorem context_is_strict_and_released_witness:
  "\<exists>x cs lb. use_all sample_openssl [Set_chain, Make 8, Handshake_done, Make 9, Handshake_done, Drop 9]
      (start_use (new_Context sample_openssl ''DEFAULT'' empty_library)) = (x, cs, lb)
    \<and> x_context x = Some 0 \<and> x_session x = Some 11 \<and> lb_sessions lb = {#11#} \<and> set (lb_ssls lb) = {(1, 0)}
    \<and> connection_of (Some 1) lb = Some 8"
proof -
  obtain x cs lb where u: "use_all sample_openssl [Set_chain, Make 8, Handshake_done, Make 9, Handshake_done, Drop 9]
      (start_use (new_Context sample_openssl ''DEFAULT'' empty_library)) = (x, cs, lb)" using prod_cases3 by blast
  have f: "fresh_ids empty_library" by (simp add: fresh_ids_def referred_def empty_library_def)
  have c: "x_context x = Some 0 \<and> x_session x = Some 11 \<and> cs = [8 \<mapsto> Some 1] \<and> lb_index lb = 5"
    using u by (auto simp: use_all_def start_use_def new_Context_def first_context_def SSL_CTX_new_def invoke_def sample_openssl_def
      empty_library_def configureContext_def change_ctx_def setChainVerifier_def setSslConnection_def handshake_done_def
      context_cacheSession_def attach_ssl_def SSL_new_def delete_SslConnection_def SSL_free_def SSL_set_ex_data_def collect_def Let_def)
  have "{s. \<exists>i. cs i = Some (Some s)} = {1}" using c by (auto split: if_splits)
  with context_is_strict_and_released [OF f u] u c show ?thesis
    by (auto simp: empty_library_def sample_openssl_def)
qed

text \<open>A verification that finds no connection leaves OpenSSL's verdict alone: the host and the pin are not looked at.\<close>

lemma unfound_connection_is_not_verified: "verifyTrampoline preverify error None cert = Some preverify"
  by (simp add: verifyTrampoline_def)

end
