(* ===== verification/Vyatta_Library.thy ===== *)
theory Vyatta_Library
  imports Vyatta
begin

text \<open>
  The rest of \<open>src/src/vyatta.cpp\<close>: the VyOS library is loaded, its symbols are looked up, a handle of the
  configuration is made and values are read through it; the destructor gives both back.  What is loaded and made is the
  record \<open>modules\<close>.  The library is the record \<open>vyos\<close>: which symbols it has, whether the calls succeed, and the
  value at a path.  \<open>None\<close> is a call through a null pointer.
\<close>

record vyos =
  vy_loads :: bool
  vy_symbols :: "string list"
  vy_config :: bool
  vy_value :: "string list \<Rightarrow> string option"

record modules =
  md_loaded :: nat
  md_configs :: nat

record Vyatta =
  vt_handle :: bool
  vt_free :: bool
  vt_get :: bool
  vt_config :: bool

definition dlopen_vyatta :: "vyos \<Rightarrow> modules \<Rightarrow> bool \<times> modules" where
  "dlopen_vyatta V m = (if vy_loads V then (True, m\<lparr>md_loaded := Suc (md_loaded m)\<rparr>) else (False, m))"

definition dlsym_vyatta :: "vyos \<Rightarrow> string \<Rightarrow> bool" where
  "dlsym_vyatta V name \<longleftrightarrow> name \<in> set (vy_symbols V)"

definition new_Vyatta :: "vyos \<Rightarrow> modules \<Rightarrow> Vyatta \<times> modules" where
  "new_Vyatta V m =
     (let (handle, m) = dlopen_vyatta V m;
          free = handle \<and> dlsym_vyatta V ''cstore_free'';
          get = handle \<and> dlsym_vyatta V ''cstore_cfg_path_get_effective_value'';
          (config, m) = (if handle \<and> free \<and> get \<and> dlsym_vyatta V ''cstore_init'' \<and> vy_config V
                         then (True, m\<lparr>md_configs := Suc (md_configs m)\<rparr>) else (False, m))
      in (\<lparr>vt_handle = handle, vt_free = free, vt_get = get, vt_config = config\<rparr>, m))"

definition delete_Vyatta :: "Vyatta \<Rightarrow> modules \<Rightarrow> modules" where
  "delete_Vyatta v m =
     (let m = (if vt_config v \<and> vt_free v then m\<lparr>md_configs := md_configs m - 1\<rparr> else m)
      in if vt_handle v then m\<lparr>md_loaded := md_loaded m - 1\<rparr> else m)"

definition vyatta_getValue :: "vyos \<Rightarrow> Vyatta \<Rightarrow> string list \<Rightarrow> string option" where
  "vyatta_getValue V v paths =
     (if \<not> vt_config v then Some []
      else if \<not> vt_get v then None
      else Some (case vy_value V paths of Some value \<Rightarrow> value | None \<Rightarrow> []))"

text \<open>The store that the rest of the development reads.\<close>

definition store_of :: "vyos \<Rightarrow> Vyatta \<Rightarrow> store" where
  "store_of V v = (if vt_config v then Some (vy_value V) else None)"

text \<open>
  Whatever of the library is there, reading through it is reading the store of the configuration:
  no null pointer is called, without the library or one of its symbols every value is empty; and the destructor
  gives back the library and the handle exactly when they were taken.
\<close>

lemma library_refines_store:
  assumes "new_Vyatta V m = (v, m')"
  shows "vyatta_getValue V v paths = Some (getValue (store_of V v) paths)
    \<and> (vt_config v \<longleftrightarrow> vy_loads V \<and> vy_config V
         \<and> {''cstore_free'', ''cstore_cfg_path_get_effective_value'', ''cstore_init''} \<subseteq> set (vy_symbols V))
    \<and> delete_Vyatta v m' = m"
  using assms
  by (auto simp: new_Vyatta_def dlopen_vyatta_def dlsym_vyatta_def vyatta_getValue_def store_of_def getValue_def delete_Vyatta_def Let_def
      split: if_splits option.splits)

end
