(* ===== verification/Command_Line.thy ===== *)
theory Command_Line
  imports Vyatta
begin

text \<open>
  The options of \<open>ConfigParser::parseConfig\<close> and what \<open>getopt_long\<close> of the GNU C library, which it calls with
  them, makes of a command line: short options alone, grouped or with their argument attached, long options
  with an argument behind them or after an equals sign and abbreviated where that is unique, arguments that are no
  options moved behind the others, and \<open>--\<close> as the end of the options.  It is an instance of the parameter
  \<open>getopt\<close> of \<open>main\<close> and of the store.
\<close>

subsection \<open>The options\<close>

definition short_options :: string where
  "short_options = ''s:f:h:p:ic:m:dP:l:t:''"

text \<open>The name, whether an argument is required, and the character that is returned.\<close>

definition long_options :: "(string \<times> bool \<times> char) list" where
  "long_options =
     [(''server'', True, CHR ''s''), (''forwarder'', True, CHR ''f''), (''hostname'', True, CHR ''h''),
      (''pin'', True, CHR ''p''), (''insecure'', False, CHR ''i''), (''ciphers'', True, CHR ''c''),
      (''connections'', True, CHR ''m''), (''daemonise'', False, CHR ''d''), (''pid_file'', True, CHR ''P''),
      (''ip_lookup'', True, CHR ''l''), (''timeout'', True, CHR ''t'')]"

text \<open>The lines that \<open>usage\<close> of \<open>src/src/main.cpp\<close> prints for the options: character, name and argument.\<close>

definition usage_options :: "(char \<times> string \<times> string) list" where
  "usage_options =
     [(CHR ''s'', ''server'', ''IP[:port]''), (CHR ''f'', ''forwarder'', ''IP[:port]''), (CHR ''h'', ''hostname'', ''hostname''),
      (CHR ''p'', ''pin'', ''hash''), (CHR ''i'', ''insecure'', []), (CHR ''c'', ''ciphers'', ''ciphers''),
      (CHR ''m'', ''connections'', ''max''), (CHR ''d'', ''daemonise'', []), (CHR ''P'', ''pid_file'', ''filename''),
      (CHR ''l'', ''ip_lookup'', ''IP''), (CHR ''t'', ''timeout'', ''timeout'')]"

text \<open>Whether a character is a short option, and if so whether it has an argument.\<close>

fun option_in :: "string \<Rightarrow> char \<Rightarrow> bool option" where
  "option_in [] c = None"
| "option_in (x # xs) c = (if x = c then Some (xs \<noteq> [] \<and> hd xs = CHR '':'') else option_in xs c)"

definition option_kind :: "char \<Rightarrow> bool option" where
  "option_kind c = (if c = CHR '':'' then None else option_in short_options c)"

subsection \<open>Scanning the arguments\<close>

text \<open>A wrong option is returned as a question mark.\<close>

abbreviation wrong_option :: "char \<times> string" where
  "wrong_option \<equiv> (CHR ''?'', [])"

text \<open>The characters behind a dash, with the arguments that follow: the options and the arguments that are left.\<close>

fun short_group :: "string \<Rightarrow> string list \<Rightarrow> (char \<times> string) list \<times> string list" where
  "short_group [] rest = ([], rest)"
| "short_group (c # cs) rest =
     (case option_kind c of
        None \<Rightarrow> (wrong_option # fst (short_group cs rest), snd (short_group cs rest))
      | Some False \<Rightarrow> ((c, []) # fst (short_group cs rest), snd (short_group cs rest))
      | Some True \<Rightarrow>
          if cs \<noteq> [] then ([(c, cs)], rest)
          else (case rest of [] \<Rightarrow> ([wrong_option], []) | a # rest' \<Rightarrow> ([(c, a)], rest')))"

definition find_long :: "string \<Rightarrow> (string \<times> bool \<times> char) option" where
  "find_long name =
     (case filter (\<lambda>opt. fst opt = name) long_options of
        opt # _ \<Rightarrow> Some opt
      | [] \<Rightarrow> (case filter (\<lambda>opt. take (length name) (fst opt) = name) long_options of
                [opt] \<Rightarrow> Some opt
              | _ \<Rightarrow> None))"

definition long_option :: "string \<Rightarrow> string list \<Rightarrow> (char \<times> string) \<times> string list" where
  "long_option arg rest =
     (let name = takeWhile (\<lambda>c. c \<noteq> CHR ''='') arg; behind = dropWhile (\<lambda>c. c \<noteq> CHR ''='') arg in
      case find_long name of
        None \<Rightarrow> (wrong_option, rest)
      | Some (_, required, c) \<Rightarrow>
          if behind \<noteq> [] then (if required then (c, tl behind) else wrong_option, rest)
          else if \<not> required then ((c, []), rest)
          else (case rest of [] \<Rightarrow> (wrong_option, []) | a # rest' \<Rightarrow> ((c, a), rest')))"

lemma short_group_shorter: "length (snd (short_group cs rest)) \<le> length rest"
  by (induction cs rest rule: short_group.induct) (auto split: option.split bool.split list.split)

lemma long_option_shorter: "length (snd (long_option arg rest)) \<le> length rest"
  by (auto simp: long_option_def Let_def split: option.split list.split)

function scan_arguments :: "string list \<Rightarrow> (char \<times> string) list \<times> bool" where
  "scan_arguments args =
     (case args of
        [] \<Rightarrow> ([], False)
      | a # rest \<Rightarrow>
          if a = ''--'' then ([], rest \<noteq> [])
          else if take 2 a = ''--'' then
            let r = scan_arguments (snd (long_option (drop 2 a) rest))
            in (fst (long_option (drop 2 a) rest) # fst r, snd r)
          else if a \<noteq> [] \<and> hd a = CHR ''-'' \<and> tl a \<noteq> [] then
            let r = scan_arguments (snd (short_group (tl a) rest))
            in (fst (short_group (tl a) rest) @ fst r, snd r)
          else (fst (scan_arguments rest), True))"
  by pat_completeness auto
termination
  by (relation "measure length") (auto simp: short_group_shorter long_option_shorter le_imp_less_Suc)

declare scan_arguments.simps [simp del]

definition getopt_long :: "getopt" where
  "getopt_long argv = scan_arguments (tl argv)"

subsection \<open>Writing options\<close>

text \<open>What the usage text says of a character: whether the option it names has an argument, and its long name.\<close>

definition documented :: "char \<Rightarrow> bool option" where
  "documented c = map_option (\<lambda>(_, _, arg). arg \<noteq> []) (List.find (\<lambda>opt. fst opt = c) usage_options)"

definition documented_name :: "char \<Rightarrow> string" where
  "documented_name c = (case List.find (\<lambda>opt. fst opt = c) usage_options of Some (_, name, _) \<Rightarrow> name | None \<Rightarrow> [])"

text \<open>The ways to write an option with its argument: apart, attached, by its long name, or that with an equals sign.\<close>

datatype spelling = Apart | Attached | Long_name | Long_equals

fun spell :: "spelling \<Rightarrow> char \<times> string \<Rightarrow> string list" where
  "spell Apart (c, arg) = (if documented c = Some True then [[CHR ''-'', c], arg] else [[CHR ''-'', c]])"
| "spell Attached (c, arg) = [CHR ''-'' # c # arg]"
| "spell Long_name (c, arg) = (if documented c = Some True then [''--'' @ documented_name c, arg] else [''--'' @ documented_name c])"
| "spell Long_equals (c, arg) =
     (if documented c = Some True then [''--'' @ documented_name c @ ''='' @ arg] else [''--'' @ documented_name c])"

definition written :: "(spelling \<times> char \<times> string) list \<Rightarrow> string list" where
  "written opts = concat (map (\<lambda>(w, opt). spell w opt) opts)"

text \<open>An option of the usage text, with an argument exactly when it takes one; one that is attached is not empty.\<close>

definition proper :: "spelling \<times> char \<times> string \<Rightarrow> bool" where
  "proper e \<longleftrightarrow> (case e of (w, c, arg) \<Rightarrow>
     documented c \<noteq> None \<and> (documented c = Some False \<longrightarrow> arg = []) \<and> (w = Attached \<and> documented c = Some True \<longrightarrow> arg \<noteq> []))"

lemma option_kinds: "option_kind c = (if c \<in> set ''sfhpcmPlt'' then Some True else if c \<in> set ''id'' then Some False else None)"
  by (simp add: option_kind_def short_options_def)

text \<open>The tables agree with the usage text: the options it lists are the short ones, each with its long name and the same kind
  of argument.\<close>

lemma documented_kind: "documented c = option_kind c"
  unfolding option_kinds by (simp add: documented_def usage_options_def)

lemma tables_agree:
  "\<forall>c \<in> set ''sfhpcmPltid''. case option_kind c of None \<Rightarrow> False | Some required \<Rightarrow>
     find_long (documented_name c) = Some (documented_name c, required, c) \<and> CHR ''='' \<notin> set (documented_name c) \<and> documented_name c \<noteq> []"
  by code_simp

lemma long_name_found:
  assumes "option_kind c = Some required"
  shows "find_long (documented_name c) = Some (documented_name c, required, c) \<and> CHR ''='' \<notin> set (documented_name c) \<and> documented_name c \<noteq> []"
proof -
  have "c \<in> set ''sfhpcmPltid''" using assms unfolding option_kinds by (auto split: if_split_asm)
  from bspec [OF tables_agree this] assms show ?thesis by simp
qed

lemma scan_short:
  assumes "c \<noteq> CHR ''-''"
  shows "scan_arguments ((CHR ''-'' # c # cs) # rest) =
    (fst (short_group (c # cs) rest) @ fst (scan_arguments (snd (short_group (c # cs) rest))),
     snd (scan_arguments (snd (short_group (c # cs) rest))))"
  using assms by (subst scan_arguments.simps) (simp add: Let_def del: short_group.simps)

lemma scan_long:
  assumes "name \<noteq> []"
  shows "scan_arguments ((''--'' @ name) # rest) =
    (fst (long_option name rest) # fst (scan_arguments (snd (long_option name rest))),
     snd (scan_arguments (snd (long_option name rest))))"
  using assms by (subst scan_arguments.simps) (simp add: Let_def)

lemma long_option_apart:
  assumes k: "option_kind c = Some required"
  shows "long_option (documented_name c) (if required then arg # rest else rest) = ((c, if required then arg else []), rest)"
proof -
  note n = long_name_found [OF k]
  then have "\<forall>x \<in> set (documented_name c). x \<noteq> CHR ''=''" by auto
  then have tw: "takeWhile (\<lambda>x. x \<noteq> CHR ''='') (documented_name c) = documented_name c" "dropWhile (\<lambda>x. x \<noteq> CHR ''='') (documented_name c) = []"
    by simp_all
  show ?thesis unfolding long_option_def Let_def tw by (cases required) (simp_all add: n)
qed

lemma long_option_equals:
  assumes k: "option_kind c = Some required"
  shows "long_option (documented_name c @ (if required then CHR ''='' # arg else [])) rest = ((c, if required then arg else []), rest)"
proof -
  note n = long_name_found [OF k]
  then have "\<forall>x \<in> set (documented_name c). x \<noteq> CHR ''=''" by auto
  then have tw: "takeWhile (\<lambda>x. x \<noteq> CHR ''='') (documented_name c @ CHR ''='' # arg) = documented_name c"
    "dropWhile (\<lambda>x. x \<noteq> CHR ''='') (documented_name c @ CHR ''='' # arg) = CHR ''='' # arg"
    by (simp_all add: takeWhile_append2 dropWhile_append2)
  have "long_option (documented_name c @ CHR ''='' # arg) rest = ((c, arg), rest)" if required
    unfolding long_option_def Let_def tw using that by (simp add: n)
  then show ?thesis using long_option_apart [OF k, of arg rest] by (cases required) simp_all
qed

lemma scan_spelled:
  assumes "proper (w, c, arg)"
  shows "scan_arguments (spell w (c, arg) @ rest) = ((c, arg) # fst (scan_arguments rest), snd (scan_arguments rest))"
proof -
  obtain required where k: "option_kind c = Some required" "documented c = Some required"
    using assms by (auto simp: proper_def documented_kind)
  have c: "c \<noteq> CHR ''-''" using k by (auto simp: option_kinds)
  have a: "required \<or> arg = []" "w = Attached \<and> required \<longrightarrow> arg \<noteq> []" using assms k by (auto simp: proper_def)
  note n = long_name_found [OF k(1)]
  have sh: "spell w (c, arg) @ rest = (CHR ''-'' # c # cs) # args \<Longrightarrow> short_group (c # cs) args = ([(c, arg)], rest) \<Longrightarrow> ?thesis" for cs args
    by (simp only: scan_short [OF c]) simp
  have lo: "spell w (c, arg) @ rest = (''--'' @ name) # args \<Longrightarrow> name \<noteq> [] \<Longrightarrow> long_option name args = ((c, arg), rest) \<Longrightarrow> ?thesis"
    for name args using scan_long [of name args] by simp
  have arg: "(if required then arg else []) = arg" using a(1) by auto
  show ?thesis
  proof (cases w)
    case Apart
    show ?thesis
      by (rule sh [of "[]" "if required then arg # rest else rest"]) (use k a(1) Apart in auto)
  next
    case Attached
    show ?thesis by (rule sh [of arg rest]) (use k a Attached in \<open>auto split: bool.split\<close>)
  next
    case Long_name
    show ?thesis
    proof (rule lo)
      show "spell w (c, arg) @ rest = (''--'' @ documented_name c) # (if required then arg # rest else rest)" using k Long_name by simp
      show "documented_name c \<noteq> []" using n by blast
      show "long_option (documented_name c) (if required then arg # rest else rest) = ((c, arg), rest)"
        using long_option_apart [OF k(1), of arg rest] unfolding arg .
    qed
  next
    case Long_equals
    show ?thesis
    proof (rule lo)
      show "spell w (c, arg) @ rest = (''--'' @ documented_name c @ (if required then CHR ''='' # arg else [])) # rest"
        using k Long_equals by simp
      show "documented_name c @ (if required then CHR ''='' # arg else []) \<noteq> []" using n by blast
      show "long_option (documented_name c @ (if required then CHR ''='' # arg else [])) rest = ((c, arg), rest)"
        using long_option_equals [OF k(1), of arg rest] unfolding arg .
    qed
  qed
qed

lemma scan_all:
  assumes "\<forall>e \<in> set opts. proper e"
  shows "scan_arguments (written opts @ rest) = (map snd opts @ fst (scan_arguments rest), snd (scan_arguments rest))"
  using assms
proof (induction opts)
  case (Cons e opts)
  obtain w c arg where e: "e = (w, c, arg)" by (cases e)
  with scan_spelled [of w c arg "written opts @ rest"] Cons show ?case by (simp add: written_def)
qed (simp add: written_def)

lemma getopt_written:
  assumes "\<forall>e \<in> set opts. proper e"
  shows "getopt_long (program # written opts) = (map snd opts, False)"
    and "documented c = None \<Longrightarrow> c \<noteq> CHR ''-'' \<Longrightarrow>
      getopt_long (program # written opts @ [[CHR ''-'', c]]) = (map snd opts @ [wrong_option], False)"
  using scan_all [OF assms, of "[]"] scan_all [OF assms, of "[[CHR ''-'', c]]"] scan_short [of c "[]" "[]"]
  by (simp_all add: getopt_long_def scan_arguments.simps [of "[]"] documented_kind)

text \<open>What the store relies on.\<close>

lemma getopt_ok_long: "getopt_ok getopt_long"
  unfolding getopt_ok_def
proof (intro allI impI)
  fix name :: string and opts :: "(char \<times> string) list" assume a: "\<forall>(c, v) \<in> set opts. c \<in> set ''sfhpcmPlt''"
  let ?apart = "map (\<lambda>opt. (Apart, opt)) opts"
  have k: "option_kind c = Some True" if "(c, v) \<in> set opts" for c v
    using a that unfolding option_kinds by (auto simp del: set_simps)
  then have p: "\<forall>e \<in> set ?apart. proper e" by (force simp: proper_def documented_kind)
  have "map (\<lambda>(w, opt). spell w opt) ?apart = map (\<lambda>(c, v). [[CHR ''-'', c], v]) opts"
    using k by (auto simp: documented_kind)
  then have "written ?apart = concat (map (\<lambda>(c, v). [[CHR ''-'', c], v]) opts)" by (simp only: written_def)
  with getopt_written(1) [OF p, of name]
  show "getopt_long (name # concat (map (\<lambda>(c, v). [[CHR ''-'', c], v]) opts)) = (opts, False)" by (simp add: comp_def)
qed



end
