(* ===== verification/Logging.thy ===== *)
theory Logging
  imports Main
begin

text \<open>
  \<open>log.cpp\<close>, \<open>stream_log.cpp\<close>, \<open>console_logger.cpp\<close>, \<open>syslog_logger.cpp\<close> and \<open>noop_log.h\<close>: a statement such as
  \<open>Log::info << a << b\<close> makes a temporary for every \<open><<\<close>, each moved from the one before, and logs when the
  temporaries are destroyed.  A value is the text an \<open>ostringstream\<close> makes of it.  What the loggers write is a list
  of lines in the order they are written.
\<close>

subsection \<open>The loggers\<close>

datatype logger = ConsoleLogger | SyslogLogger

datatype log_line =
  Console string
| Syslog int string

record log_state =
  lg_logger :: "logger option"
  lg_lines :: "log_line list"
  lg_opened :: bool

text \<open>\<open>syslog\<close> gets a C string, which ends at the first null character.\<close>

definition c_str :: "string \<Rightarrow> string" where
  "c_str value = takeWhile (\<lambda>c. c \<noteq> CHR 0x00) value"

definition ConsoleLogger_log :: "int \<Rightarrow> string \<Rightarrow> log_state \<Rightarrow> log_state" where
  [simp]: "ConsoleLogger_log level value st = st\<lparr>lg_lines := lg_lines st @ [Console value]\<rparr>"

definition SyslogLogger_log :: "int \<Rightarrow> string \<Rightarrow> log_state \<Rightarrow> log_state" where
  [simp]: "SyslogLogger_log level value st = st\<lparr>lg_lines := lg_lines st @ [Syslog level (c_str value)]\<rparr>"

text \<open>The virtual call.\<close>

fun logger_log :: "logger \<Rightarrow> int \<Rightarrow> string \<Rightarrow> log_state \<Rightarrow> log_state" where
  "logger_log ConsoleLogger level value st = ConsoleLogger_log level value st"
| "logger_log SyslogLogger level value st = SyslogLogger_log level value st"

definition Log_log :: "int \<Rightarrow> string \<Rightarrow> log_state \<Rightarrow> log_state" where
  "Log_log level value st = (case lg_logger st of Some l \<Rightarrow> logger_log l level value st | None \<Rightarrow> st)"

text \<open>Constructing the logger for the system log opens it, destroying it closes it.\<close>

fun new_logger :: "logger \<Rightarrow> log_state \<Rightarrow> log_state" where
  "new_logger ConsoleLogger st = st"
| "new_logger SyslogLogger st = st\<lparr>lg_opened := True\<rparr>"

fun delete_logger :: "logger \<Rightarrow> log_state \<Rightarrow> log_state" where
  "delete_logger ConsoleLogger st = st"
| "delete_logger SyslogLogger st = st\<lparr>lg_opened := False\<rparr>"

text \<open>The assignment moves the new logger in and drops the old one, which nobody else owns.\<close>

definition setLogger :: "logger option \<Rightarrow> log_state \<Rightarrow> log_state" where
  "setLogger l st =
     (let old = lg_logger st; st = st\<lparr>lg_logger := l\<rparr>
      in case old of Some k \<Rightarrow> delete_logger k st | None \<Rightarrow> st)"

subsection \<open>The streams\<close>

text \<open>The streams of \<open>Log\<close> and their levels in \<open>syslog.h\<close>.\<close>

datatype log_stream = Debug | Info | Notice | Warn | Err | Critical

fun stream_level :: "log_stream \<Rightarrow> int" where
  "stream_level Debug = 7"
| "stream_level Info = 6"
| "stream_level Notice = 5"
| "stream_level Warn = 4"
| "stream_level Err = 3"
| "stream_level Critical = 2"

record StreamLog =
  sl_level :: int
  sl_stream :: "string option"

definition new_StreamLog :: "log_stream \<Rightarrow> StreamLog" where
  "new_StreamLog start = \<lparr>sl_level = stream_level start, sl_stream = Some []\<rparr>"

text \<open>The new object and what is left of the other one.\<close>

definition move_StreamLog :: "StreamLog \<Rightarrow> StreamLog \<times> StreamLog" where
  "move_StreamLog other = (other, other\<lparr>sl_stream := None\<rparr>)"

definition delete_StreamLog :: "StreamLog \<Rightarrow> log_state \<Rightarrow> log_state" where
  "delete_StreamLog log st = (case sl_stream log of Some t \<Rightarrow> Log_log (sl_level log) t st | None \<Rightarrow> st)"

text \<open>\<open><<\<close> on a temporary: the result and the temporary it was moved from.\<close>

definition shift :: "StreamLog \<Rightarrow> string \<Rightarrow> StreamLog \<times> StreamLog" where
  "shift log value = move_StreamLog (log\<lparr>sl_stream := map_option (\<lambda>t. t @ value) (sl_stream log)\<rparr>)"

text \<open>\<open><<\<close> on one of the streams of \<open>Log\<close>: its own temporary is destroyed when it returns.\<close>

definition shift_start :: "log_stream \<Rightarrow> string \<Rightarrow> log_state \<Rightarrow> StreamLog \<times> log_state" where
  "shift_start start value st =
     (let (result, temporary) = shift (new_StreamLog start) value
      in (result, delete_StreamLog temporary st))"

text \<open>The temporaries of the rest of the statement, the newest first, which is the order they are destroyed in.\<close>

fun shift_all :: "StreamLog \<Rightarrow> string list \<Rightarrow> StreamLog list \<Rightarrow> StreamLog list" where
  "shift_all log [] temporaries = log # temporaries"
| "shift_all log (value # vs) temporaries =
     (let (result, left) = shift log value in shift_all result vs (left # temporaries))"

text \<open>A whole statement; in a release build \<open>Log::debug\<close> is a \<open>NoopLog\<close>.\<close>

definition log_statement :: "bool \<Rightarrow> log_stream \<Rightarrow> string \<Rightarrow> string list \<Rightarrow> log_state \<Rightarrow> log_state" where
  "log_statement ndebug start value vs st =
     (if ndebug \<and> start = Debug then st
      else let (log, st) = shift_start start value st
           in foldl (\<lambda>st log. delete_StreamLog log st) st (shift_all log vs []))"

text \<open>What \<open>main\<close> does: console first, the system log once the process is a daemon.\<close>

definition main_logger :: "log_state \<Rightarrow> log_state" where
  "main_logger st = setLogger (Some ConsoleLogger) (new_logger ConsoleLogger st)"

definition daemon_logger :: "log_state \<Rightarrow> log_state" where
  "daemon_logger st = setLogger (Some SyslogLogger) (new_logger SyslogLogger st)"

subsection \<open>One line per statement\<close>

definition moved :: "StreamLog \<Rightarrow> bool" where
  "moved log \<longleftrightarrow> sl_stream log = None"

lemma delete_moved: "moved log \<Longrightarrow> delete_StreamLog log st = st"
  by (simp add: moved_def delete_StreamLog_def)

lemma delete_all_moved: "\<forall>log \<in> set logs. moved log \<Longrightarrow> foldl (\<lambda>st log. delete_StreamLog log st) st logs = st"
  by (induction logs arbitrary: st) (simp_all add: delete_moved)

lemma shift_simps:
  "fst (shift log v) = log\<lparr>sl_stream := map_option (\<lambda>t. t @ v) (sl_stream log)\<rparr>" "moved (snd (shift log v))"
  by (simp_all add: shift_def move_StreamLog_def moved_def)

text \<open>However long the statement is, one temporary holds the text, the one that is destroyed first.\<close>

lemma shift_all_one:
  "\<forall>log \<in> set temporaries. moved log \<Longrightarrow> sl_stream log = Some t0 \<Longrightarrow>
   \<exists>rest. shift_all log vs temporaries = log\<lparr>sl_stream := Some (t0 @ concat vs)\<rparr> # rest \<and> (\<forall>l \<in> set rest. moved l)"
proof (induction vs arbitrary: log t0 temporaries)
  case (Cons v vs)
  obtain r l where s: "shift log v = (r, l)" by fastforce
  with shift_simps [of log v] Cons.prems(2) have r: "r = log\<lparr>sl_stream := Some (t0 @ v)\<rparr>" "moved l" by simp_all
  have "\<forall>k \<in> set (l # temporaries). moved k" using r(2) Cons.prems(1) by simp
  from Cons.IH [OF this, of r "t0 @ v"] show ?case by (simp add: s r(1))
qed (cases log, simp)

text \<open>
  A log statement calls the logger once, whatever number of values it has, with the level of its
  stream and the values one after the other; without a logger nothing is written, and in a release build
  nothing for the debug stream.
\<close>

lemma log_statement_eq:
  "log_statement ndebug start v vs st =
     (if lg_logger st = None \<or> ndebug \<and> start = Debug then st
      else logger_log (the (lg_logger st)) (stream_level start) (v @ concat vs) st)"
proof (cases "ndebug \<and> start = Debug")
  case False
  let ?new = "\<lparr>sl_level = stream_level start, sl_stream = Some v\<rparr>"
  have s: "shift_start start v st = (?new, st)"
    by (simp add: shift_start_def shift_def move_StreamLog_def new_StreamLog_def delete_StreamLog_def)
  obtain rest where rest: "shift_all ?new vs [] = ?new\<lparr>sl_stream := Some (v @ concat vs)\<rparr> # rest"
    "\<forall>l \<in> set rest. moved l" using shift_all_one [of "[]" ?new v vs] by auto
  have last_one: "delete_StreamLog \<lparr>sl_level = stream_level start, sl_stream = Some t\<rparr> st = Log_log (stream_level start) t st" for t
    by (simp add: delete_StreamLog_def)
  show ?thesis
    using False by (auto simp: log_statement_def s rest(1) delete_all_moved [OF rest(2)] last_one Log_log_def split: option.split)
qed (simp add: log_statement_def)

text \<open>After \<open>main\<close> has made the process a daemon nothing goes to the console any more, and the system log is open.\<close>

lemma daemon_logs_to_syslog:
  assumes "lg_logger st = None"
  shows "lg_opened (daemon_logger (main_logger st))"
    and "log_statement ndebug start v vs (daemon_logger (main_logger st)) =
      (let st = daemon_logger (main_logger st)
       in if ndebug \<and> start = Debug then st
          else st\<lparr>lg_lines := lg_lines st @ [Syslog (stream_level start) (c_str (v @ concat vs))]\<rparr>)"
proof -
  have d: "daemon_logger (main_logger st) = st\<lparr>lg_logger := Some SyslogLogger, lg_opened := True\<rparr>"
    using assms by (simp add: daemon_logger_def main_logger_def setLogger_def)
  show "lg_opened (daemon_logger (main_logger st))" by (simp add: d)
  show "log_statement ndebug start v vs (daemon_logger (main_logger st)) =
      (let st = daemon_logger (main_logger st)
       in if ndebug \<and> start = Debug then st
          else st\<lparr>lg_lines := lg_lines st @ [Syslog (stream_level start) (c_str (v @ concat vs))]\<rparr>)"
    unfolding log_statement_eq by (simp add: d Let_def)
qed

end
