(* ===== verification/Base64.thy ===== *)
theory Base64
  imports Dote_Prelude
begin

text \<open>
  \<open>src/src/openssl/base64.cpp\<close>: the vectors and strings around the Base64 filter of OpenSSL.  What the filter does is the
  record \<open>bio\<close>: whether the filter and the memory behind it can be made, what a read of at most so many bytes
  delivers (its result and the bytes it has written), and what is in the memory after a write and a flush.
\<close>

record bio =
  b_filter :: bool
  b_memory :: bool
  b_read :: "string \<Rightarrow> nat \<Rightarrow> int \<times> bytes"
  b_written :: "bytes \<Rightarrow> string"

datatype base64_error = Length_Error

text \<open>\<open>vector(n)\<close> holds zeros, a read writes over its beginning; \<open>resize\<close> cuts or fills with zeros.\<close>

definition written_over :: "bytes \<Rightarrow> nat \<Rightarrow> bytes" where
  "written_over out n = take n out @ replicate (n - length out) 0"

definition resize :: "nat \<Rightarrow> bytes \<Rightarrow> bytes" where
  "resize n xs = take n xs @ replicate (n - length xs) 0"

text \<open>A negative \<open>int\<close> becomes a \<open>size_t\<close> that no vector can have.\<close>

definition base64_decode_bio :: "bio \<Rightarrow> string \<Rightarrow> base64_error + bytes" where
  "base64_decode_bio B input =
     (let maxOutputLength = (length input div 4) * 3 in
      if \<not> b_filter B then Inr []
      else let (n, out) = b_read B input maxOutputLength;
               result = written_over out maxOutputLength
           in if n < 0 then Inl Length_Error else Inr (resize (nat n) result))"

text \<open>Without the memory \<open>BIO_get_mem_ptr\<close> does not set the pointer that is read: \<open>None\<close>.\<close>

definition base64_encode_bio :: "bio \<Rightarrow> bytes \<Rightarrow> string option" where
  "base64_encode_bio B input =
     (if \<not> b_filter B then Some [] else if b_memory B then Some (b_written B input) else None)"

text \<open>What the documentation says of a read: at most as many bytes as there is room for, and as many as it says.\<close>

definition bio_ok :: "bio \<Rightarrow> bool" where
  "bio_ok B \<longleftrightarrow> (\<forall>input k. fst (b_read B input k) \<le> int k
     \<and> (0 \<le> fst (b_read B input k) \<longrightarrow> int (length (snd (b_read B input k))) = fst (b_read B input k)))"

lemma written_over_resized: "n \<le> k \<Longrightarrow> length out = n \<Longrightarrow> resize n (written_over out k) = out"
  by (simp add: resize_def written_over_def)

text \<open>The decoder returns exactly what was read, three bytes for four characters at most; it throws when the read fails.\<close>

lemma decode_exact:
  assumes "bio_ok B" and "b_filter B"
  shows "base64_decode_bio B input =
    (case b_read B input ((length input div 4) * 3) of (n, out) \<Rightarrow> if n < 0 then Inl Length_Error else Inr out)"
proof -
  let ?k = "(length input div 4) * 3"
  obtain n out where r: "b_read B input ?k = (n, out)" by fastforce
  then have "n \<le> int ?k" "0 \<le> n \<longrightarrow> int (length out) = n"
    using assms(1) unfolding bio_ok_def by (metis fst_conv, metis fst_conv snd_conv)
  then show ?thesis
    using written_over_resized [of "nat n" ?k out] assms(2) by (auto simp: base64_decode_bio_def r Let_def)
qed

lemma decode_length:
  assumes "bio_ok B" and "base64_decode_bio B input = Inr out"
  shows "length out \<le> (length input div 4) * 3"
proof (cases "b_filter B")
  case True
  let ?k = "(length input div 4) * 3"
  obtain n xs where r: "b_read B input ?k = (n, xs)" by fastforce
  then have "n \<le> int ?k" "0 \<le> n \<longrightarrow> int (length xs) = n"
    using assms(1) unfolding bio_ok_def by (metis fst_conv, metis fst_conv snd_conv)
  moreover have "0 \<le> n \<and> xs = out" using assms(2) decode_exact [OF assms(1) True, of input] by (auto simp: r split: if_splits)
  ultimately show ?thesis by simp
qed (use assms(2) in \<open>simp add: base64_decode_bio_def\<close>)

text \<open>Input of less than four characters decodes to nothing.\<close>

lemma decode_short:
  assumes "bio_ok B" and "length input < 4" and "base64_decode_bio B input = Inr out"
  shows "out = []"
  using decode_length [OF assms(1,3)] assms(2) by simp

end
