(* ===== verification/Spec2Isabelle.thy ===== *)
theory Spec2Isabelle
  imports Dns_Wire Proxy_Spec Progress Teardown Ssl_Context Vyatta_Library Command_Line Logging Base64
begin

text \<open>
  DoTe is a DNS forwarder: it takes DNS queries over UDP, sends each over a TLS connection of its own to one
  of its forwarders, and sends the answer, without the padding the forwarder added, back to the client.

  \<^bold>\<open>Parts and how they interact.\<close>  \<open>main\<close> reads the configuration, binds the servers and enters the event
  loop.  The loop calls the server when a datagram has arrived; the server frames it and hands it to the
  pool of connections, which makes a connection or queues the query.  The connections are state machines
  driven by the loop; they call back into the pool with an answer or when they are closed, and the pool then
  sends the answer, destroys the connection and takes the next query from its queue.

  \<^bold>\<open>Theories and code.\<close>
  \<^item> \<open>Dote_Prelude\<close>, \<open>Std_Map\<close>: bytes, words and the sorted association list that stands for \<open>std::map\<close>
    (locale \<open>keyed_map\<close>).
  \<^item> \<open>Dns_Packet\<close>, \<open>Dns_Wire\<close>: \<open>dns_packet.cpp\<close>, and the wire format as an encoder of abstract messages.  A
    function that may leave the vector returns an option, \<open>None\<close> is such an access.
  \<^item> \<open>Event_Loop\<close>, \<open>Loop_Steps\<close>: \<open>loop.cpp\<close>, \<open>i_loop.cpp\<close>.  Locale \<open>registrar\<close> is what a client relies on of
    a registration, \<open>callbacks_within\<close> and \<open>callbacks_defined\<close> lift what the callbacks keep to whole turns.
  \<^item> \<open>Addresses\<close>, \<open>Forwarder_Config\<close>: \<open>config_parser.h\<close> (entries), \<open>forwarder_config.cpp\<close> (locale
    \<open>forwarder_source\<close>).
  \<^item> \<open>World\<close>, \<open>Sockets\<close>, \<open>Ssl_Connection\<close>: the process outside its objects, \<open>socket.cpp\<close>,
    \<open>openssl/ssl_connection.cpp\<close>, \<open>ssl_factory.cpp\<close> and the session cache of \<open>openssl/context.cpp\<close>.
  \<^item> \<open>Forwarder_Connection\<close>, \<open>Client_Forwarders\<close>, \<open>Server\<close>, \<open>Dote\<close>: the files of these names.
  \<^item> \<open>Hostname_Verifier\<close>, \<open>Certificate_Check\<close>, \<open>Verify_Cache\<close>: \<open>openssl/hostname_verifier.cpp\<close>,
    \<open>certificate_utilities.cpp\<close>, \<open>spki_verifier.cpp\<close>, the callbacks of \<open>context.cpp\<close>, \<open>verify_cache.cpp\<close>.
  \<^item> \<open>Config_Watch\<close>: the handler of \<open>vyatta_check.cpp\<close> in the loop of the program.
  \<^item> \<open>Config_Parser\<close>, \<open>Config_Facts\<close>, \<open>Vyatta\<close>: \<open>config_parser.cpp\<close>, \<open>vyatta.cpp\<close>, \<open>vyatta_check.cpp\<close>.
  \<^item> \<open>Command_Line\<close>, \<open>Vyatta_Library\<close>, \<open>Base64\<close>: the tables of options with \<open>getopt_long\<close>, the loading of the VyOS
    library in \<open>vyatta.cpp\<close>, and \<open>openssl/base64.cpp\<close>.
  \<^item> \<open>Ssl_Context\<close>, \<open>Logging\<close>: the life of the context of \<open>openssl/context.cpp\<close>; \<open>log.cpp\<close>, \<open>stream_log.cpp\<close> and
    the two loggers.
  \<^item> \<open>Process\<close>, \<open>Ip_Lookup\<close>, \<open>Program\<close>: \<open>main.cpp\<close> with \<open>pid_file.cpp\<close> and \<open>ip_lookup.cpp\<close>; \<open>Teardown\<close>: its signal
    handler and what is destroyed after the loop.
  \<^item> \<open>Connection_Invariant\<close>, \<open>Pool_Invariant\<close>, \<open>System_Invariant\<close>, \<open>Running\<close>: the invariants, of one object,
    of the pool, of the whole, and the states the loop reaches; \<open>Turn\<close> adds the clock and shows that a whole turn returns;
    \<open>Proxy_Spec\<close> is the abstract machine the program refines, \<open>Progress\<close> shows that no query is forgotten as long as the loop turns;
    \<open>Sample_Run\<close> holds concrete runs for the witnesses, \<open>Query_Path\<close> follows one query and its answer.

  \<^bold>\<open>State.\<close>  An object is a record with the members of its class, a method a function that returns the record
  updated.  The pool keeps its connections in a heap from numbers to records; the number stands for the
  pointer, is bound into the callbacks and never used again, so that a callback of a destroyed object is
  seen.  A \<open>Registration\<close> is a value whose moves and destructor are written out.  Three lists of the
  \<open>system\<close> record are history that no operation reads: the queries that arrived, those a connection was made for,
  the datagrams sent.

  \<^bold>\<open>The outside.\<close>  POSIX and OpenSSL are a record of functions from the number of the call (\<open>w_tick\<close>) to its
  answer, so a statement for all environments covers every order of answers and failures; \<open>env_ok\<close> is what
  their documentation promises.  The results of \<open>poll\<close> and the time are universally quantified in
  \<open>reachable\<close>.  \<open>inet_pton\<close>, the Base64 filter, X.509 parsing and the VyOS library are parameters; so is
  \<open>getopt_long\<close> where options are parsed, with \<open>Command_Line\<close> as its instance.

  \<^bold>\<open>Errors, loops and bounds.\<close>  A failed call is a branch of the result type; undefined behaviour (a null
  pointer, an access outside a vector, a callback of a destroyed object) is \<open>None\<close>, and the safety theorems
  show that it does not occur, or exactly when.  There is no fuel: loops over data are structural or have a measure; the scan of
  time-outs and the loops over the store, which the code does not bound, are partial functions, with theorems that they
  return.  \<open>unsigned short\<close> is \<open>16 word\<close>; times and handles are integers, the product given to \<open>poll\<close> is
  reduced to 32 bits.

  \<^bold>\<open>What is shown.\<close>  The program refines an abstract FIFO proxy: queries are served in order, none is lost or answered
  twice or to another client; no query is forgotten as long as the clock runs and the loop goes on turning, which
  \<open>pending_timeout_is_missed\<close> shows it may put off; no handler outlives its object.  When every valid answer is one on which the
  packet wrapper stays inside its vector (\<open>answers_clean\<close>), no turn of the loop is undefined and every turn returns;
  \<open>cut_pointer_reads_past_end\<close> and \<open>removePaddingOption_defined_iff\<close> give answers on which it does not.  The pool stays within its bound
  and is busy while queries wait; every connection is timed and verifies its own forwarder; a query gets through unchanged, and
  so does an answer whose first OPT record holds nothing but padding, apart from this record, while options in front of padding
  are damaged (\<open>opt_edit_exact\<close>); the packet wrapper on well-formed messages, and where it leaves the vector; which names and
  certificates are accepted; the options, their ranges and round trips; the reload; the way from \<open>main\<close> into
  the loop, when the loop ends and when the way out of it is defined; how a command line is read; that the context is configured
  strictly and gives back what it takes.  Several theorems of kind error show what the code does against its intention.

  \<^bold>\<open>Not modelled.\<close>  The calls that only clean up the globals of OpenSSL.  The prose of the usage text, and which
  statements log where: the streams are modelled in \<open>Logging\<close>, no state depends on them.  The bytes of an
  \<open>inotify\<close> event: the loop gets the valid configurations as an answer of the environment,
  \<open>handleRead_reloads\<close> says how they come from the events and the store.  The race of the signal handler with the
  loop: it drops the servers at any point, also inside their handler, which is not a behaviour of C++ that could be
  stated; \<open>Teardown\<close> has it between two turns.

  A handler may deregister itself or destroy its object while it runs; the \<open>std::function\<close> and the lambda that are
  executing are then destroyed, and the model takes their captured values as copied, since no code reads them
  afterwards.

  \<^bold>\<open>Plan.\<close>  The turns after the signal in which queries that were taken before still hold their sockets:
  \<open>shutdown_ends_loop_iff\<close> follows the turns from a state without connections.
\<close>

unbundle bit_operations_syntax

subsection \<open>Properties of the running program\<close>

text \<open>
  Property C13 (invariant). In every state the loop reaches, the pool holds at most the configured number of
  connections, all of them live, and queries wait only while the pool is full: a place that becomes free
  goes to the first query of the queue.
\<close>

theorem pool_bounded_and_busy:
  assumes "env_ok env" and "started env fs t m servers s0" and "reachable env s0 fds tmo s"
  shows "length (s_forwarders s) \<le> m \<and> (\<forall>i \<in> set (s_forwarders s). live s i)
    \<and> (s_queue s \<noteq> [] \<longrightarrow> length (s_forwarders s) = m)"
proof -
  note i = started_inv [OF assms(1,2)]
  with reachable_step_ok [OF assms(3)] show ?thesis
    by (auto simp: inv_def sys_ok_def step_ok_def pool_ok_def)
qed

theorem pool_bounded_and_busy_witness:
  "length (s_forwarders busy_two) = 1 \<and> s_queue busy_two = [busy_query] \<and> live busy_two 0"
proof -
  obtain fds tmo where "reachable busy_env sample_started fds tmo busy_two" using reachable_two by blast
  from pool_bounded_and_busy [OF env_ok_busy started_sample this] show ?thesis by (simp add: busy_two_def busy_one_def)
qed

text \<open>
  Property C2 (invariant). The pool and its queue are one FIFO: the queries for which a connection
  was made, followed by the queries that wait, are exactly the queries that arrived, in their order.  None is
  lost before it was tried, none is tried twice or overtakes another, whatever connections fail in between.
\<close>

theorem queries_are_fifo:
  assumes "env_ok env" and "started env fs t m servers s0" and "reachable env s0 fds tmo s"
  shows "map snd (s_started s) @ s_queue s = s_arrived s"
proof -
  note i = started_inv [OF assms(1,2)]
  with reachable_step_ok [OF assms(3)] show ?thesis by (auto simp: inv_def sys_ok_def hist_ok_def)
qed

theorem queries_are_fifo_witness:
  "map snd (s_started busy_two) @ s_queue busy_two = [busy_query, busy_query]"
proof -
  obtain fds tmo where "reachable busy_env sample_started fds tmo busy_two" using reachable_two by blast
  from queries_are_fifo [OF env_ok_busy started_sample this] show ?thesis by (simp add: busy_two_def)
qed

text \<open>
  Property C3 (safety). No client gets an answer it did not ask for: every datagram sent carries the answer
  of one connection, goes to the client of the query that connection was made for, from the socket and the
  address the query came to, and no connection answers twice.
\<close>

theorem answers_go_to_their_client:
  assumes "env_ok env" and "started env fs t m servers s0" and "reachable env s0 fds tmo s"
  shows "distinct (map fst (s_sent s))
    \<and> (\<forall>(i, d) \<in> set (s_sent s). \<exists>q payload. (i, q) \<in> set (s_started s) \<and> d = response_to (q_reply q) payload)
    \<and> distinct (map fst (s_started s))"
proof -
  note i = started_inv [OF assms(1,2)]
  with reachable_step_ok [OF assms(3)] have "hist_ok (s_queue s) s" "sent_ok s" by (auto simp: inv_def sys_ok_def)
  then show ?thesis by (fastforce simp: hist_ok_def sent_ok_def)
qed

theorem answers_go_to_their_client_witness:
  "distinct (map fst (s_sent busy_two)) \<and> distinct (map fst (s_started busy_two))"
proof -
  obtain fds tmo where "reachable busy_env sample_started fds tmo busy_two" using reachable_two by blast
  from answers_go_to_their_client [OF env_ok_busy started_sample this] show ?thesis by blast
qed

text \<open>
  Property C4 (safety). Between two turns of the loop nothing dangles and nothing leaks: the objects on the
  heap are exactly the connections of the pool, the open handles are exactly theirs, those of the server
  sockets and that of the configuration watch, and every handler in the loop belongs to one of them, is bound to the method for the state its
  object is in, and carries its deadline.
\<close>

theorem no_dangling_handler:
  assumes "env_ok env" and "started env fs t m servers s0" and "reachable env s0 fds tmo s"
  shows "dom (s_heap s) = set (s_forwarders s)
    \<and> set (w_open (s_world s)) = handle_of s ` set (s_forwarders s) \<union> set (socket_handles s) \<union> set (watch_handles s)
    \<and> (\<forall>ty h cb dl. handler (system_loop s) ty h = Some (cb, dl) \<longrightarrow>
         (cb = Cb_server \<and> ty = Read \<and> h \<in> set (socket_handles s))
         \<or> (cb = Cb_config \<and> ty = Read \<and> h \<in> set (watch_handles s))
         \<or> (\<exists>i c. i \<in> set (s_forwarders s) \<and> s_heap s i = Some c \<and> conn_handle c = h \<and>
              (ty = Read \<and> cb = read_cb (c_state c) i \<and> dl = c_timeout c
               \<or> ty = Write \<and> cb = write_cb (c_state c) i \<and> dl = c_timeout c
               \<or> ty = Exception \<and> cb = Cb_exception i)))"
proof -
  note i = started_inv [OF assms(1,2)]
  with reachable_step_ok [OF assms(3)] have ok: "sys_ok s" by (auto simp: inv_def)
  then have "dom (s_heap s) = set (s_forwarders s)" by (auto simp: sys_ok_def dom_def)
  moreover have "set (w_open (s_world s)) = handle_of s ` set (s_forwarders s) \<union> set (socket_handles s) \<union> set (watch_handles s)"
    using ok by (auto simp: sys_ok_def pool_ok_def server_handles_def)
  moreover {
    fix ty h cb dl
    assume "handler (system_loop s) ty h = Some (cb, dl)"
    then have "(cb = Cb_server \<and> ty = Read \<and> h \<in> set (socket_handles s))
         \<or> (cb = Cb_config \<and> ty = Read \<and> h \<in> set (watch_handles s))
         \<or> (\<exists>i c. i \<in> set (s_forwarders s) \<and> s_heap s i = Some c \<and> conn_handle c = h \<and>
              (ty = Read \<and> cb = read_cb (c_state c) i \<and> dl = c_timeout c
               \<or> ty = Write \<and> cb = write_cb (c_state c) i \<and> dl = c_timeout c
               \<or> ty = Exception \<and> cb = Cb_exception i))"
      by (rule handler_owner [OF ok]) (auto simp: server_handles_def dest: conn_ok_handle)
  }
  ultimately show ?thesis by blast
qed

theorem no_dangling_handler_witness:
  "dom (s_heap busy_two) = set (s_forwarders busy_two)
   \<and> set (w_open (s_world busy_two)) = handle_of busy_two ` set (s_forwarders busy_two) \<union> set (socket_handles busy_two) \<union> set (watch_handles busy_two)"
proof -
  obtain fds tmo where "reachable busy_env sample_started fds tmo busy_two" using reachable_two by blast
  from no_dangling_handler [OF env_ok_busy started_sample this] show ?thesis by blast
qed

text \<open>
  No connection is forgotten: in every reachable state each connection of the pool has an
  exception handler and at least one handler with its deadline in the loop, and an open one is waiting to read.
\<close>

lemma every_connection_is_timed:
  assumes "env_ok env" and "started env fs t m servers s0" and "reachable env s0 fds tmo s"
    and "i \<in> set (s_forwarders s)"
  shows "\<exists>c. s_heap s i = Some c \<and> handler (system_loop s) Exception (conn_handle c) = Some (Cb_exception i, 0)
    \<and> (\<exists>ty cb. ty \<in> {Read, Write} \<and> handler (system_loop s) ty (conn_handle c) = Some (cb, c_timeout c))
    \<and> (c_state c = OPEN \<longrightarrow> handler (system_loop s) Read (conn_handle c) = Some (Cb_incoming i, c_timeout c))"
proof -
  note inv = started_inv [OF assms(1,2)]
  with reachable_step_ok [OF assms(3)] assms(4) have "live s i" by (auto simp: inv_def sys_ok_def pool_ok_def)
  then obtain c where c: "s_heap s i = Some c" "conn_ok i (conn_handle c) c (s_world s)" by (auto simp: live_def)
  have x: "handler (system_loop s) Exception (conn_handle c) = Some (Cb_exception i, 0)"
    and rd: "reg_valid (c_read c) \<Longrightarrow>
      handler (system_loop s) Read (conn_handle c) = Some (read_cb (c_state c) i, c_timeout c)"
    and wr: "reg_valid (c_write c) \<Longrightarrow>
      handler (system_loop s) Write (conn_handle c) = Some (write_cb (c_state c) i, c_timeout c)"
    and some: "reg_valid (c_read c) \<or> reg_valid (c_write c) \<and> c_state c \<noteq> OPEN"
    using c(2) by (auto simp: conn_ok_def conn_core_def slot_def system_loop_def split: if_splits)
  from some have "\<exists>ty cb. ty \<in> {Read, Write} \<and> handler (system_loop s) ty (conn_handle c) = Some (cb, c_timeout c)"
    using rd wr by blast
  moreover have "c_state c = OPEN \<Longrightarrow> handler (system_loop s) Read (conn_handle c) = Some (Cb_incoming i, c_timeout c)"
    using rd some by auto
  ultimately show ?thesis using c(1) x by blast
qed

text \<open>
  Property C14 (safety). No query leaves before its forwarder is verified: in every reachable state every object has a TLS
  connection on its own socket (handle 0 apart, which \<open>setSocket\<close> ignores), it asks OpenSSL to verify the peer unless the forwarder's PKI is disabled,
  and checks host and pin of the very forwarder the object reports as bad, when it has a host or a pin; and a handler
  that sends the query or reads the answer is in the loop only once the handshake is over.
\<close>

theorem every_connection_is_verified:
  assumes "env_ok env" and "started env fs t m servers s0" and "reachable env s0 fds tmo s"
    and "s_heap s i = Some c"
  shows "(\<exists>ssl f. c_connection c = Some ssl \<and> c_forwarder c = Some f
        \<and> m_ssl ssl \<and> (0 < conn_handle c \<longrightarrow> ssl_fd ssl = Some (conn_handle c))
        \<and> (SslConnection.ssl_verify ssl \<longleftrightarrow> \<not> disablePki f)
        \<and> m_verifier ssl = (if disablePki f \<or> host f = [] \<and> pin f = [] then None else Some f))
    \<and> (\<forall>ty cb tm. handler (system_loop s) ty (conn_handle c) = Some (cb, tm) \<longrightarrow> cb \<in> {Cb_outgoing i, Cb_incoming i}
         \<longrightarrow> c_state c = OPEN)"
proof -
  have ok: "sys_ok s" using started_inv [OF assms(1,2)] reachable_step_ok [OF assms(3)] by (auto simp: inv_def)
  then have "i \<in> set (s_forwarders s)" using assms(4) by (auto simp: sys_ok_def)
  then have c: "conn_ok i (conn_handle c) c (s_world s)" using ok assms(4) by (auto simp: sys_ok_def pool_ok_def live_def)
  have "c_state c = OPEN" if "handler (system_loop s) ty (conn_handle c) = Some (cb, tm)" "cb \<in> {Cb_outgoing i, Cb_incoming i}"
    for ty cb tm
    using handler_read_cb [OF c, of ty cb tm] that by (cases "c_state c") (auto simp: system_loop_def)
  moreover have "verified (conn_handle c) (c_connection c) (c_forwarder c)" "has_ssl (c_connection c)"
    using c by (simp_all add: conn_ok_def conn_core_def)
  ultimately show ?thesis unfolding verified_def has_ssl_def by auto
qed

theorem every_connection_is_verified_witness:
  "\<exists>ssl. c_connection (busy_conn 0) = Some ssl \<and> SslConnection.ssl_verify ssl \<and> ssl_fd ssl = Some 4
     \<and> c_forwarder (busy_conn 0) = Some (forwarder_at 1)"
proof -
  obtain fds tmo where r: "reachable busy_env sample_started fds tmo busy_two" using reachable_two by blast
  have "s_heap busy_two 0 = Some (busy_conn 0)" by (simp add: busy_two_def busy_one_def)
  from every_connection_is_verified [OF env_ok_busy started_sample r this] show ?thesis
    by (simp add: busy_conn_def conn_handle_def forwarder_at_def)
qed

text \<open>
  As long as the forwarders' answers are ones on which the packet wrapper is defined, a
  whole dispatch of the loop, with any answers of \<open>poll\<close>, runs without undefined behaviour: no dangling
  object is called, no null pointer dereferenced, no destructor re-enters its owner.
\<close>

lemma dispatch_is_defined:
  assumes "env_ok env" and "answers_clean env" and "started env fs t m servers s0"
    and "reachable env s0 fds tmo s"
  shows "\<exists>s'. dispatch system_loop (exec env) polled s = Some s'"
proof -
  have "inv env s" using started_inv [OF assms(1,3)] reachable_step_ok [OF assms(4)] by blast
  then show ?thesis using clean.dispatch_defined [of env s polled] assms(2) by (auto simp: inv_clean_def)
qed

text \<open>
  Property C16 (type). The registrations of a connection are typed by their members: in every reachable state each of the
  three is the registration of its own kind on the handle of the connection's socket, and valid, exactly when the
  loop has a handler of that kind for the handle; otherwise it is moved from.  The loop's maps are sorted.
\<close>

theorem registrations_are_typed:
  assumes "env_ok env" and "started env fs t m servers s0" and "reachable env s0 fds tmo s"
    and "s_heap s i = Some c"
  shows "loop_ok (system_loop s) \<and> conn_handle c \<in> set (w_open (s_world s))
    \<and> (\<forall>(r, ty) \<in> {(c_read c, Read), (c_write c, Write), (c_exception c, Exception)}.
         if handler (system_loop s) ty (conn_handle c) = None then r_type r = Moved
         else r = \<lparr>r_handle = conn_handle c, r_type = ty\<rparr>)"
proof -
  have ok: "sys_ok s" using started_inv [OF assms(1,2)] reachable_step_ok [OF assms(3)] by (auto simp: inv_def)
  then have "i \<in> set (s_forwarders s)" using assms(4) by (auto simp: sys_ok_def)
  then have "conn_ok i (conn_handle c) c (s_world s)" using ok assms(4) by (auto simp: sys_ok_def pool_ok_def live_def)
  then show ?thesis
    by (auto simp: conn_ok_def conn_core_def slot_def system_loop_def reg_valid_def split: if_splits)
qed

theorem registrations_are_typed_witness:
  "c_write (busy_conn 0) = \<lparr>r_handle = 4, r_type = Write\<rparr> \<and> r_type (c_read (busy_conn 0)) = Moved
   \<and> c_exception (busy_conn 0) = \<lparr>r_handle = 4, r_type = Exception\<rparr>"
proof -
  obtain fds tmo where r: "reachable busy_env sample_started fds tmo busy_two" using reachable_two by blast
  have c: "s_heap busy_two 0 = Some (busy_conn 0)" "conn_handle (busy_conn 0) = 4" by (simp_all add: busy_two_def busy_one_def busy_conn_def conn_handle_def)
  from registrations_are_typed [OF env_ok_busy started_sample r c(1)] show ?thesis
    by (simp add: c(2) loop_samples busy_loop_def handler.simps)
qed

text \<open>
  Forwarders are never lost: in every reachable state the preference list is, in some order,
  the configured one or, after a reload, the one of a valid configuration that was read.
\<close>

lemma forwarders_are_kept:
  assumes "env_ok env" and "started env fs t m servers s0" and "reachable env s0 fds tmo s"
  shows "mset (m_forwarders (w_config (s_world s))) = mset fs
    \<or> (\<exists>n. \<exists>l \<in> set (e_reloads env n). mset (m_forwarders (w_config (s_world s))) = mset l)"
  using started_inv [OF assms(1,2)] reachable_step_ok [OF assms(3)]
  by (auto simp: step_ok_def config_step_def)

text \<open>
  Property C36 (error). The loop hands the events of one \<open>poll\<close> to whoever has the handle now.  In a
  reachable state with one connection in a full pool and a query waiting, the forwarder hangs up and
  \<open>poll\<close> reports POLLOUT and POLLHUP for handle 4: the first closes the connection, its place goes to the
  waiting query, whose new connection gets the same handle number from the system, and the second then
  closes that one too, although nothing happened to it, and gives its forwarder up.  Both queries are gone
  without an answer.
\<close>

theorem stale_event_closes_new_connection:
  "\<exists>fds tmo. reachable busy_env sample_started fds tmo busy_two
     \<and> s_forwarders busy_two = [0] \<and> s_queue busy_two = [busy_query]
     \<and> (\<exists>s'. dispatch_fd system_loop (exec busy_env)
           \<lparr>p_fd = 4, p_events = POLLOUT, p_revents = POLLOUT OR POLLHUP\<rparr> busy_two = Some s'
         \<and> s_started s' = [(0, busy_query), (1, busy_query)] \<and> s_forwarders s' = [] \<and> s_queue s' = []
         \<and> s_sent s' = [] \<and> m_forwarders (w_config (s_world busy_two)) = [forwarder_at 1, forwarder_at 2]
         \<and> m_forwarders (w_config (s_world s')) = [forwarder_at 2, forwarder_at 1])"
proof -
  have "s_started busy_four = [(0, busy_query), (1, busy_query)] \<and> s_forwarders busy_four = []
      \<and> s_queue busy_four = [] \<and> s_sent busy_four = []
      \<and> m_forwarders (w_config (s_world busy_two)) = [forwarder_at 1, forwarder_at 2]
      \<and> m_forwarders (w_config (s_world busy_four)) = [forwarder_at 2, forwarder_at 1]
      \<and> s_forwarders busy_two = [0] \<and> s_queue busy_two = [busy_query]"
    by (simp add: busy_four_def busy_three_def busy_two_def busy_one_def sample_started_def sample_config_def)
  then show ?thesis using reachable_two dispatch_stale by blast
qed
end
